(* ===== verification/E3_Prelude.thy ===== *)
theory E3_Prelude
  imports Main "HOL-Library.Word" "HOL-Library.Multiset"
begin

text \<open>
  Shared vocabulary of the development: the fixed-width integer types of the C++ sources, the
  libe3 result codes the controller tests for, byte memory with little-endian 16-bit accesses
  (the view the controller has of \<^verbatim>\<open>/e3_ran_buffers\<close>), and the generic lemmas on words, lists and
  memory that the component theories use.  The collections \<open>mem_simps\<close> and \<open>word_to_nat\<close> are the
  hints of the memory proofs and of the proofs that leave word arithmetic for natural numbers.
\<close>

unbundle bit_operations_syntax

named_theorems mem_simps \<open>reads after writes in byte memory\<close>
named_theorems word_to_nat \<open>word operations read as natural numbers\<close>

type_synonym u8 = "8 word"
type_synonym u16 = "16 word"
type_synonym u32 = "32 word"
type_synonym u64 = "64 word"
type_synonym size_t = "64 word"
type_synonym i32 = "32 word"
type_synonym i16 = "16 word"
type_synonym i64 = "64 word"

text \<open>Signed C++ integers are words read with \<open>sint\<close>.\<close>

text \<open>
  The values of \<^verbatim>\<open>libe3::ErrorCode\<close> that the controller names; libe3 itself is not part of the
  repository, so every other code is carried by \<open>OTHER_ERROR\<close>.
\<close>

datatype ErrorCode =
    SUCCESS
  | ALREADY_INITIALIZED
  | INTERNAL_ERROR
  | SM_ERROR_INVALID_PARAM
  | DECODE_FAILED
  | OTHER_ERROR nat

text \<open>The wire encodings, link layers and transports of libe3 that the configuration selects.\<close>

datatype EncodingFormat = ASN1 | JSON
datatype E3LinkLayer = ZMQ | POSIX
datatype E3TransportLayer = TCP | IPC | SCTP

text \<open>A \<^verbatim>\<open>jbpf_io_stream_id\<close> is sixteen bytes, compared bytewise.\<close>

type_synonym stream_id = "u8 list"

section \<open>Words read as natural numbers\<close>

lemma unat_and_mask [word_to_nat]:
  "unat (x AND mask k) = unat x mod 2 ^ k" for x :: "'a::len word"
proof -
  have "unat (x AND mask k) = take_bit k (unat x)"
    by (metis take_bit_eq_mask unsigned_take_bit_eq)
  then show ?thesis by (simp add: take_bit_eq_mod)
qed

lemma unat_of_nat_mod [word_to_nat]:
  "unat (of_nat n :: 'a::len word) = n mod 2 ^ LENGTH('a)"
  by (simp add: unsigned_of_nat take_bit_eq_mod)

lemma unat_word_less [simp, intro]: "unat (x :: 'a::len word) < 2 ^ LENGTH('a)"
  by (rule unsigned_less)

lemma unat_ucast_up:
  assumes "LENGTH('a) \<le> LENGTH('b)"
  shows "unat (ucast (x :: 'a::len word) :: 'b::len word) = unat x"
proof -
  have "unat x < 2 ^ LENGTH('a)" by simp
  also have "(2::nat) ^ LENGTH('a) \<le> 2 ^ LENGTH('b)" using assms by simp
  finally show ?thesis by (simp add: unsigned_ucast_eq take_bit_nat_eq_self_iff)
qed

lemma unat_ucast_sizes [simp, word_to_nat]:
  "unat (ucast (a :: u8) :: u16) = unat a" "unat (ucast (a :: u8) :: u32) = unat a"
  "unat (ucast (a :: u8) :: u64) = unat a" "unat (ucast (b :: u16) :: u32) = unat b"
  "unat (ucast (b :: u16) :: u64) = unat b" "unat (ucast (c :: u32) :: u64) = unat c"
  by (simp_all add: unat_ucast_up)

lemma unat_mult_no_wrap:
  fixes x y :: "'a::len word"
  assumes "unat x * unat y < 2 ^ LENGTH('a)"
  shows "unat (x * y) = unat x * unat y"
  using assms by (simp add: unat_word_ariths)

lemma unat_add_no_wrap:
  fixes x y :: "'a::len word"
  assumes "unat x + unat y < 2 ^ LENGTH('a)"
  shows "unat (x + y) = unat x + unat y"
  using assms by (simp add: unat_word_ariths)

lemma unat_sub_no_wrap:
  fixes x y :: "'a::len word"
  assumes "unat y \<le> unat x"
  shows "unat (x - y) = unat x - unat y"
  using assms by (simp add: unat_sub word_le_nat_alt)

section \<open>Byte memory\<close>

text \<open>
  A mapped region is a total function from byte addresses; every access of the model carries its
  bounds separately.  A \<^verbatim>\<open>uint16_t\<close> occupies two bytes, low byte first (x86-64 and aarch64).
\<close>

type_synonym mem = "nat \<Rightarrow> u8"

definition read_u16 :: "mem \<Rightarrow> nat \<Rightarrow> u16" where
  "read_u16 m a = ucast (m a) OR push_bit 8 (ucast (m (a + 1)))"

definition write_u16 :: "nat \<Rightarrow> u16 \<Rightarrow> mem \<Rightarrow> mem" where
  "write_u16 a v m = m(a := ucast v, a + 1 := ucast (drop_bit 8 v))"

definition memset0 :: "nat \<Rightarrow> nat \<Rightarrow> mem \<Rightarrow> mem" where
  "memset0 a n m = (\<lambda>i. if a \<le> i \<and> i < a + n then 0 else m i)"

lemma u16_bytes_join:
  "ucast (ucast v :: u8) OR push_bit 8 (ucast (ucast (drop_bit 8 v) :: u8)) = v" for v :: u16
proof (rule bit_word_eqI)
  fix n :: nat
  assume "n < LENGTH(16)"
  then show "bit (ucast (ucast v :: u8) OR push_bit 8 (ucast (ucast (drop_bit 8 v) :: u8)) :: u16) n
      = bit v n"
    by (auto simp: bit_or_iff bit_push_bit_iff bit_ucast_iff bit_drop_bit_eq)
qed

lemma read_write_same [mem_simps]: "read_u16 (write_u16 a v m) a = v"
  by (simp add: read_u16_def write_u16_def u16_bytes_join)

lemma read_write_other [mem_simps]:
  "b + 2 \<le> a \<or> a + 2 \<le> b \<Longrightarrow> read_u16 (write_u16 a v m) b = read_u16 m b"
  by (auto simp: read_u16_def write_u16_def)

lemma write_frame [mem_simps]: "i < a \<or> a + 2 \<le> i \<Longrightarrow> write_u16 a v m i = m i"
  by (auto simp: write_u16_def)

lemma read_memset_in [mem_simps]:
  "a \<le> b \<Longrightarrow> b + 2 \<le> a + n \<Longrightarrow> read_u16 (memset0 a n m) b = 0"
  by (simp add: read_u16_def memset0_def)

lemma read_memset_out [mem_simps]:
  "b + 2 \<le> a \<or> a + n \<le> b \<Longrightarrow> read_u16 (memset0 a n m) b = read_u16 m b"
  by (auto simp: read_u16_def memset0_def)

lemma memset_frame [mem_simps]: "i < a \<or> a + n \<le> i \<Longrightarrow> memset0 a n m i = m i"
  by (auto simp: memset0_def)

section \<open>Lists\<close>

lemma map_nth_upt_cong:
  "(\<And>i. i < n \<Longrightarrow> f i = g i) \<Longrightarrow> map f [0..<n] = map g [0..<n]"
  by simp

lemma upt_snoc_map: "map f [0..<Suc n] = map f [0..<n] @ [f n]"
  by simp

lemma upt_Cons_map: "map f [0..<Suc n] = f 0 # map (\<lambda>i. f (Suc i)) [0..<n]"
  by (simp add: map_upt_Suc del: upt_Suc)

end
