(* ===== verification/Float_Bits.thy ===== *)
theory Float_Bits
  imports E3_Prelude
begin

text \<open>
  The IEEE-754 arithmetic the sources rely on, on bit patterns: binary32 (C++ \<^verbatim>\<open>float\<close>), its product
  under round-to-nearest-even, and the binary32 to binary16 conversion of the F16C and AdvSIMD
  instructions.  A finite value is a significand and an exponent; \<open>round_pack\<close> rounds
  \<open>m * 2 ^ e\<close> to a format and returns the bits below the sign.
\<close>

type_synonym f32 = u32
type_synonym f16 = u16
type_synonym bf16 = u16

section \<open>Fields of a binary32\<close>

definition f32_neg :: "f32 \<Rightarrow> bool" where
  "f32_neg x \<longleftrightarrow> bit x 31"

definition f32_expo :: "f32 \<Rightarrow> nat" where
  "f32_expo x = unat (drop_bit 23 x AND 0xFF)"

definition f32_frac :: "f32 \<Rightarrow> nat" where
  "f32_frac x = unat (x AND 0x7FFFFF)"

definition f32_is_nan :: "f32 \<Rightarrow> bool" where
  "f32_is_nan x \<longleftrightarrow> f32_expo x = 255 \<and> f32_frac x \<noteq> 0"

definition f32_is_inf :: "f32 \<Rightarrow> bool" where
  "f32_is_inf x \<longleftrightarrow> f32_expo x = 255 \<and> f32_frac x = 0"

definition f32_is_zero :: "f32 \<Rightarrow> bool" where
  "f32_is_zero x \<longleftrightarrow> f32_expo x = 0 \<and> f32_frac x = 0"

text \<open>The comparison \<^verbatim>\<open>x > 0.0f\<close>: false for NaN, for both zeros and for every negative value.\<close>

definition f32_gt_zero :: "f32 \<Rightarrow> bool" where
  "f32_gt_zero x \<longleftrightarrow> \<not> f32_is_nan x \<and> \<not> f32_neg x \<and> \<not> f32_is_zero x"

text \<open>Significand and exponent of a finite value: it is \<open>f32_sig x * 2 ^ f32_pow x\<close>.\<close>

definition f32_sig :: "f32 \<Rightarrow> nat" where
  "f32_sig x = (if f32_expo x = 0 then f32_frac x else 2 ^ 23 + f32_frac x)"

definition f32_pow :: "f32 \<Rightarrow> int" where
  "f32_pow x = (if f32_expo x = 0 then -149 else int (f32_expo x) - 150)"

definition f32_one :: f32 where
  "f32_one = 0x3F800000"

section \<open>Rounding\<close>

fun nbits :: "nat \<Rightarrow> nat" where
  "nbits n = (if n = 0 then 0 else Suc (nbits (n div 2)))"

declare nbits.simps [simp del]

text \<open>\<open>m / 2 ^ k\<close> rounded to the nearest integer, ties to even; a negative \<open>k\<close> is exact.\<close>

definition rne :: "nat \<Rightarrow> int \<Rightarrow> nat" where
  "rne m k =
     (if k \<le> 0 then m * 2 ^ nat (- k)
      else
        let q = m div 2 ^ nat k;
            r = m mod 2 ^ nat k;
            half = 2 ^ (nat k - 1)
        in if half < r \<or> (r = half \<and> odd q) then q + 1 else q)"

text \<open>
  \<open>m * 2 ^ e\<close> in a format with \<open>p\<close> significant bits whose subnormals are multiples of \<open>2 ^ emin\<close>; the
  result is the encoding below the sign bit, \<open>infty\<close> when the value is too large.
\<close>

definition round_pack :: "nat \<Rightarrow> int \<Rightarrow> nat \<Rightarrow> nat \<Rightarrow> int \<Rightarrow> nat" where
  "round_pack p emin infty m e =
     (if m = 0 then 0
      else
        let e' = max (e + int (nbits m) - int p) emin
        in min infty (nat (e' - emin) * 2 ^ (p - 1) + rne m (e' - e)))"

definition f32_sign_bit :: "bool \<Rightarrow> f32" where
  "f32_sign_bit neg = (if neg then 0x80000000 else 0)"

text \<open>
  The product of two binary32 values as the x86 SSE and AVX instructions compute it: a NaN operand is
  returned quieted, the first one first, and infinity times zero is the default NaN.
\<close>

definition f32_mul :: "f32 \<Rightarrow> f32 \<Rightarrow> f32" where
  "f32_mul x y =
     (let s = f32_sign_bit (f32_neg x \<noteq> f32_neg y)
      in if f32_is_nan x then x OR 0x400000
         else if f32_is_nan y then y OR 0x400000
         else if f32_is_inf x \<and> f32_is_zero y \<or> f32_is_zero x \<and> f32_is_inf y then 0xFFC00000
         else if f32_is_inf x \<or> f32_is_inf y then s + 0x7F800000
         else s + of_nat (round_pack 24 (-149) 0x7F800000 (f32_sig x * f32_sig y) (f32_pow x + f32_pow y)))"

text \<open>\<^verbatim>\<open>_mm_cvtps_ph\<close> with round-to-nearest-even, one lane.\<close>

definition cvtps_ph :: "f32 \<Rightarrow> f16" where
  "cvtps_ph x =
     (let s = (if f32_neg x then 0x8000 else 0)
      in if f32_is_nan x then s + of_nat (0x7C00 + (f32_frac x div 2 ^ 13) mod 512 + 512)
         else if f32_is_inf x then s + 0x7C00
         else s + of_nat (round_pack 11 (-24) 0x7C00 (f32_sig x) (f32_pow x)))"

section \<open>Facts\<close>

lemma nbits_0 [simp]: "nbits 0 = 0"
  by (simp add: nbits.simps)

lemma nbits_eqI:
  assumes "2 ^ k \<le> n" "n < 2 ^ Suc k"
  shows "nbits n = Suc k"
  using assms
proof (induction k arbitrary: n)
  case 0
  then have "n = 1" by simp
  then show ?case by (simp add: nbits.simps)
next
  case (Suc k)
  have "2 ^ k \<le> n div 2" "n div 2 < 2 ^ Suc k" using Suc.prems by simp_all
  then have "nbits (n div 2) = Suc k" by (rule Suc.IH)
  moreover have "n \<noteq> 0" using Suc.prems(1) by (metis not_one_le_zero one_le_numeral one_le_power order_trans)
  ultimately show ?case by (simp add: nbits.simps[of n])
qed

lemma nbits_bounds: "n \<noteq> 0 \<Longrightarrow> \<exists>b. nbits n = Suc b \<and> 2 ^ b \<le> n \<and> n < 2 ^ Suc b"
proof (induction n rule: nbits.induct)
  case (1 n)
  show ?case
  proof (cases "n div 2 = 0")
    case True
    then have "n = 1" using 1(2) by auto
    then show ?thesis by (simp add: nbits.simps)
  next
    case False
    then obtain b where b: "nbits (n div 2) = Suc b" "2 ^ b \<le> n div 2" "n div 2 < 2 ^ Suc b"
      using 1 by blast
    have "nbits n = Suc (Suc b)" using 1(2) b(1) by (simp add: nbits.simps[of n])
    moreover have "2 ^ Suc b \<le> n" "n < 2 ^ Suc (Suc b)" using b(2,3) by auto
    ultimately show ?thesis by blast
  qed
qed

lemma nbits_le: "n < 2 ^ k \<Longrightarrow> nbits n \<le> k"
proof (cases "n = 0")
  case False
  assume n: "n < 2 ^ k"
  obtain b where b: "nbits n = Suc b" "2 ^ b \<le> n" using nbits_bounds[OF False] by blast
  then have "(2::nat) ^ b < 2 ^ k" using n by linarith
  then show ?thesis using b(1) by simp
qed simp

lemma nbits_shift: "n \<noteq> 0 \<Longrightarrow> nbits (n * 2 ^ k) = nbits n + k"
proof -
  assume "n \<noteq> 0"
  then obtain b where b: "nbits n = Suc b" "2 ^ b \<le> n" "n < 2 ^ Suc b" using nbits_bounds by blast
  have "nbits (n * 2 ^ k) = Suc (b + k)"
    by (rule nbits_eqI) (use b(2,3) in \<open>simp_all add: power_add\<close>)
  then show ?thesis using b(1) by simp
qed

lemma rne_exact: "rne (m * 2 ^ k) (int k) = m"
  by (simp add: rne_def)

lemma f32_fields:
  "f32_expo x = unat x div 2 ^ 23 mod 256" "f32_frac x = unat x mod 2 ^ 23"
  "f32_neg x \<longleftrightarrow> 2 ^ 31 \<le> unat x"
proof -
  have m: "(0xFF :: u32) = mask 8" "(0x7FFFFF :: u32) = mask 23" by (simp_all add: mask_eq_exp_minus_1)
  show "f32_expo x = unat x div 2 ^ 23 mod 256"
    unfolding f32_expo_def m unat_and_mask by (simp add: drop_bit_eq_div unat_div)
  show "f32_frac x = unat x mod 2 ^ 23"
    unfolding f32_frac_def m unat_and_mask ..
  have "bit x 31 \<longleftrightarrow> bit (unat x) 31" by (simp add: bit_unsigned_iff)
  then have "bit x 31 \<longleftrightarrow> odd (unat x div 2 ^ 31)" by (simp only: bit_iff_odd)
  moreover have "unat x < 2 ^ 32" using unat_word_less[of x] by simp
  then have "unat x div 2 ^ 31 = (if 2 ^ 31 \<le> unat x then 1 else 0)"
    by (auto simp: div_nat_eqI)
  ultimately show "f32_neg x \<longleftrightarrow> 2 ^ 31 \<le> unat x" by (simp add: f32_neg_def)
qed

lemma f32_expo_less: "f32_expo x < 256"
  by (simp add: f32_fields)

lemma f32_frac_less: "f32_frac x < 2 ^ 23"
  by (simp add: f32_fields)

lemma f32_split: "unat x = (if f32_neg x then 2 ^ 31 else 0) + f32_expo x * 2 ^ 23 + f32_frac x"
proof -
  let ?n = "unat x"
  have lt: "?n < 2 ^ 32" using unat_word_less[of x] by simp
  define hi where "hi = ?n div 2 ^ 23"
  have 1: "2 ^ 23 * hi + ?n mod 2 ^ 23 = ?n" unfolding hi_def by (rule mult_div_mod_eq)
  have 2: "256 * (hi div 256) + hi mod 256 = hi" by (rule mult_div_mod_eq)
  have "hi div 256 = (if 2 ^ 31 \<le> ?n then 1 else 0)"
    using lt by (auto simp: hi_def div_mult2_eq[symmetric] intro: div_nat_eqI)
  with 2 have "hi = (if 2 ^ 31 \<le> ?n then 256 else 0) + hi mod 256" by (auto split: if_splits)
  with 1 have "?n = (if 2 ^ 31 \<le> ?n then 2 ^ 31 else 0) + hi mod 256 * 2 ^ 23 + ?n mod 2 ^ 23"
    by (auto split: if_splits)
  then show ?thesis by (simp only: f32_fields hi_def)
qed

lemma f32_eqI:
  "f32_neg x = f32_neg y \<Longrightarrow> f32_expo x = f32_expo y \<Longrightarrow> f32_frac x = f32_frac y \<Longrightarrow> x = y"
  by (simp add: word_unat_eq_iff f32_split)

lemma f32_sig_normal: "f32_expo x \<noteq> 0 \<Longrightarrow> nbits (f32_sig x) = 24"
  using nbits_eqI[of 23 "f32_sig x"] f32_frac_less[of x] by (simp add: f32_sig_def)

text \<open>A product with 1.0 is exact: it is its other operand.\<close>

lemma round_pack_id:
  assumes "f32_expo x \<noteq> 255"
  shows "round_pack 24 (-149) 0x7F800000 (f32_sig x * 2 ^ 23) (f32_pow x - 23)
    = f32_expo x * 2 ^ 23 + f32_frac x"
proof (cases "f32_sig x = 0")
  case True
  then show ?thesis by (auto simp: round_pack_def f32_sig_def split: if_splits)
next
  case False
  let ?m = "f32_sig x * 2 ^ 23" and ?e = "f32_pow x - 23"
  have nb: "nbits ?m = nbits (f32_sig x) + 23" by (rule nbits_shift[OF False])
  have e': "max (?e + int (nbits ?m) - int 24) (-149) = f32_pow x"
  proof (cases "f32_expo x = 0")
    case True
    then have "nbits (f32_sig x) \<le> 23"
      using f32_frac_less[of x] by (intro nbits_le) (simp add: f32_sig_def)
    then show ?thesis using True unfolding nb by (simp add: f32_pow_def)
  next
    case False
    then show ?thesis unfolding nb f32_sig_normal[OF False] by (simp add: f32_pow_def)
  qed
  have q: "rne ?m (f32_pow x - ?e) = f32_sig x" using rne_exact[of "f32_sig x" 23] by simp
  have "nat (f32_pow x - -149) * 2 ^ 23 + f32_sig x = f32_expo x * 2 ^ 23 + f32_frac x"
    by (cases "f32_expo x = 0") (auto simp: f32_pow_def f32_sig_def nat_diff_distrib' algebra_simps)
  moreover have "f32_expo x * 2 ^ 23 + f32_frac x < 0x7F800000"
    using assms f32_expo_less[of x] f32_frac_less[of x] by simp
  ultimately show ?thesis
    unfolding round_pack_def Let_def e' q using False by simp
qed

lemma f32_one_fields: "\<not> f32_neg f32_one" "f32_expo f32_one = 127" "f32_frac f32_one = 0"
  by (simp_all add: f32_fields f32_one_def)

lemma f32_mul_one:
  assumes "\<not> f32_is_nan x"
  shows "f32_mul x f32_one = x"
proof -
  have one: "f32_sig f32_one = 2 ^ 23" "f32_pow f32_one = -23" "\<not> f32_is_nan f32_one"
      "\<not> f32_is_inf f32_one" "\<not> f32_is_zero f32_one"
    by (simp_all add: f32_sig_def f32_pow_def f32_is_nan_def f32_is_inf_def f32_is_zero_def f32_one_fields)
  have neg: "(f32_neg x \<noteq> f32_neg f32_one) = f32_neg x" by (simp add: f32_one_fields)
  show ?thesis
  proof (cases "f32_expo x = 255")
    case True
    then have inf: "f32_is_inf x" using assms by (simp add: f32_is_nan_def f32_is_inf_def)
    have "unat (f32_sign_bit (f32_neg x) + 0x7F800000) = unat x"
      using True inf by (simp add: f32_split[of x] f32_sign_bit_def f32_is_inf_def)
    then show ?thesis
      using assms one neg inf by (simp add: f32_mul_def Let_def word_unat_eq_iff)
  next
    case False
    then have fin: "\<not> f32_is_inf x" by (simp add: f32_is_inf_def)
    have lt: "f32_expo x * 2 ^ 23 + f32_frac x < 2 ^ 31"
      using False f32_expo_less[of x] f32_frac_less[of x] by simp
    have "unat (f32_sign_bit (f32_neg x) + of_nat (f32_expo x * 2 ^ 23 + f32_frac x)) = unat x"
      using lt by (cases "f32_neg x")
        (simp_all add: f32_split[of x] f32_sign_bit_def unat_word_ariths unat_of_nat_mod del: of_nat_add)
    then show ?thesis
      using assms one neg fin round_pack_id[OF False]
      by (simp add: f32_mul_def Let_def word_unat_eq_iff)
  qed
qed

end
