(* ===== verification/E3_Config.thy ===== *)
theory E3_Config
  imports Float_Bits
begin

text \<open>
  The controller's configuration (\<^verbatim>\<open>include/e3_config.h\<close>, \<^verbatim>\<open>src/e3_config.cpp\<close>): the radio geometry
  and the sizes derived from it at their C++ widths, the two validators, and the YAML loader.
  yaml-cpp is not part of the repository: the loader takes its operations as a \<open>yaml_api\<close>.
  Error texts are the constructors of \<open>config_error\<close>.
\<close>

section \<open>Radio geometry\<close>

record RadioGeometry =
  nof_ports :: u16
  nof_prbs :: u16
  nof_symbols :: u16
  scs_khz :: u16

definition default_RadioGeometry :: RadioGeometry where
  "default_RadioGeometry = \<lparr>nof_ports = 4, nof_prbs = 273, nof_symbols = 14, scs_khz = 30\<rparr>"

definition kScPerPrb :: u32 where
  "kScPerPrb = 12"

definition kBytesPerCbf16 :: u32 where
  "kBytesPerCbf16 = 4"

definition nof_subcarriers :: "RadioGeometry \<Rightarrow> u32" where
  "nof_subcarriers g = ucast (nof_prbs g) * kScPerPrb"

definition u16_per_ant :: "RadioGeometry \<Rightarrow> u32" where
  "u16_per_ant g = ucast (nof_symbols g) * nof_subcarriers g * 2"

definition num_fh_samples :: "RadioGeometry \<Rightarrow> u32" where
  "num_fh_samples g = ucast (nof_ports g) * u16_per_ant g"

definition row_bytes :: "RadioGeometry \<Rightarrow> u32" where
  "row_bytes g = num_fh_samples g * 2"

definition cbf16_bytes_per_ant :: "RadioGeometry \<Rightarrow> u32" where
  "cbf16_bytes_per_ant g = ucast (nof_symbols g) * nof_subcarriers g * kBytesPerCbf16"

definition slots_per_frame :: "RadioGeometry \<Rightarrow> u32" where
  "slots_per_frame g = 10 * (ucast (scs_khz g) div 15)"

datatype config_error =
    CannotLoad string string
  | TopLevelNotMapping string
  | UnknownKey string string
  | BadEncoding string
  | BadLinkLayer string
  | BadTransport string
  | BadWriter string
  | ParseError string string
  | PortsRange
  | PrbsRange
  | SymbolsNot12Or14
  | ScsUnsupported
  | LanesNotMultipleOf8 u32
  | ShmTooSmall size_t u32
  | ScaleNotPositive
  | TargetSlotOutside i32 u32

text \<open>\<open>None\<close> is the C++ \<^verbatim>\<open>true\<close>; \<open>Some e\<close> is \<^verbatim>\<open>false\<close> with \<open>e\<close> in the \<^verbatim>\<open>err\<close> argument.\<close>

definition validate :: "RadioGeometry \<Rightarrow> config_error option" where
  "validate g =
     (if nof_ports g = 0 \<or> nof_ports g > 8 then Some PortsRange
      else if nof_prbs g = 0 \<or> nof_prbs g > 275 then Some PrbsRange
      else if nof_symbols g \<noteq> 12 \<and> nof_symbols g \<noteq> 14 then Some SymbolsNot12Or14
      else if scs_khz g \<noteq> 15 \<and> scs_khz g \<noteq> 30 \<and> scs_khz g \<noteq> 60 \<and> scs_khz g \<noteq> 120
        then Some ScsUnsupported
      else if u16_per_ant g mod 8 \<noteq> 0 then Some (LanesNotMultipleOf8 (u16_per_ant g))
      else None)"

datatype geometry_mismatch =
    PortsOverDeclared u16 u16
  | SymbolsDiffer u16 u16
  | SubcarriersDiffer u32 u32

definition validate_against_ran ::
    "RadioGeometry \<Rightarrow> u16 \<Rightarrow> u16 \<Rightarrow> u32 \<Rightarrow> geometry_mismatch option" where
  "validate_against_ran cfg ran_nof_ports ran_nof_symbols ran_nof_subcarriers =
     (if ran_nof_ports \<noteq> 0 \<and> nof_ports cfg > ran_nof_ports
        then Some (PortsOverDeclared (nof_ports cfg) ran_nof_ports)
      else if ran_nof_symbols \<noteq> 0 \<and> nof_symbols cfg \<noteq> ran_nof_symbols
        then Some (SymbolsDiffer (nof_symbols cfg) ran_nof_symbols)
      else if ran_nof_subcarriers \<noteq> 0 \<and> nof_subcarriers cfg \<noteq> ran_nof_subcarriers
        then Some (SubcarriersDiffer (nof_subcarriers cfg) ran_nof_subcarriers)
      else None)"

section \<open>The configuration record\<close>

datatype ShmWriter = Controller | Gnb

definition to_string :: "ShmWriter \<Rightarrow> string" where
  "to_string w = (if w = Gnb then ''gnb'' else ''controller'')"

record ShmConfig =
  shm_name :: string
  size_bytes :: size_t
  writer :: ShmWriter
  cbf16_scale :: f32

record JbpfConfig =
  ipc_name :: string
  run_path :: string
  mem_size_bytes :: size_t
  lcm_socket_path :: string
  codelet_base_path :: string

record E3Config =
  encoding :: EncodingFormat
  link_layer :: E3LinkLayer
  transport :: E3TransportLayer
  setup_port :: u16
  publisher_port :: u16
  subscriber_port :: u16

record ThreadConfig =
  poll_core :: i32
  worker_core :: i32
  publisher_core :: i32
  poll_interval_us :: i32

record LoggingConfig =
  drops_log_path :: string
  spectrum_stats_log_path :: string
  latrec_dir :: string

record ControllerConfig =
  radio :: RadioGeometry
  shm :: ShmConfig
  jbpf :: JbpfConfig
  e3 :: E3Config
  threads :: ThreadConfig
  logging :: LoggingConfig
  target_slot :: i32

definition default_ControllerConfig :: ControllerConfig where
  "default_ControllerConfig =
     \<lparr>radio = default_RadioGeometry,
      shm = \<lparr>shm_name = ''/e3_ran_buffers'', size_bytes = push_bit 30 1, writer = Gnb,
             cbf16_scale = f32_one\<rparr>,
      jbpf = \<lparr>ipc_name = ''e3_controller'', run_path = ''/dev/shm'',
              mem_size_bytes = push_bit 30 1, lcm_socket_path = ''/tmp/jbpf/jbpf_lcm_ipc'',
              codelet_base_path = []\<rparr>,
      e3 = \<lparr>encoding = ASN1, link_layer = ZMQ, transport = TCP, setup_port = 9990,
            publisher_port = 9991, subscriber_port = 9999\<rparr>,
      threads = \<lparr>poll_core = -1, worker_core = -1, publisher_core = -1, poll_interval_us = 100\<rparr>,
      logging = \<lparr>drops_log_path = [], spectrum_stats_log_path = [], latrec_dir = []\<rparr>,
      target_slot = -1\<rparr>"

section \<open>The YAML loader\<close>

text \<open>
  The yaml-cpp operations the loader calls.  A left value is the \<^verbatim>\<open>what()\<close> of a thrown exception.
  \<open>y_index\<close> is \<^verbatim>\<open>node[key]\<close> followed by the conversion to \<^verbatim>\<open>bool\<close>: \<open>None\<close> when the key is absent.
\<close>

record 'n yaml_api =
  y_load_file :: "string \<Rightarrow> string + 'n"
  y_is_map :: "'n \<Rightarrow> bool"
  y_entries :: "'n \<Rightarrow> ('n \<times> 'n) list"
  y_index :: "'n \<Rightarrow> string \<Rightarrow> string + 'n option"
  y_as_string :: "'n \<Rightarrow> string + string"
  y_as_u16 :: "'n \<Rightarrow> string + u16"
  y_as_size :: "'n \<Rightarrow> string + size_t"
  y_as_int :: "'n \<Rightarrow> string + i32"
  y_as_float :: "'n \<Rightarrow> string + f32"

text \<open>
  How one statement of \<open>load_config\<close> ends: control goes on, the function returns \<^verbatim>\<open>false\<close>, or an
  exception propagates.  The configuration is the caller's object, so it keeps what was assigned.
\<close>

datatype load_step =
    Continue ControllerConfig
  | ReturnFalse ControllerConfig config_error
  | Throw ControllerConfig string

fun load_seq :: "(ControllerConfig \<Rightarrow> load_step) list \<Rightarrow> ControllerConfig \<Rightarrow> load_step" where
  "load_seq [] c = Continue c"
| "load_seq (f # fs) c = (case f c of Continue c' \<Rightarrow> load_seq fs c' | r \<Rightarrow> r)"

fun check_entries ::
    "'n yaml_api \<Rightarrow> string \<Rightarrow> string list \<Rightarrow> ('n \<times> 'n) list \<Rightarrow> ControllerConfig \<Rightarrow> load_step" where
  "check_entries y section allowed [] c = Continue c"
| "check_entries y section allowed (kv # kvs) c =
     (case y_as_string y (fst kv) of
        Inl w \<Rightarrow> Throw c w
      | Inr k \<Rightarrow> if k \<notin> set allowed then ReturnFalse c (UnknownKey k section)
                else check_entries y section allowed kvs c)"

definition check_keys ::
    "'n yaml_api \<Rightarrow> 'n \<Rightarrow> string \<Rightarrow> string list \<Rightarrow> ControllerConfig \<Rightarrow> load_step" where
  "check_keys y node section allowed c =
     (if \<not> y_is_map y node then Continue c
      else check_entries y section allowed (y_entries y node) c)"

text \<open>\<open>get\<close>: assign the converted value when the key is present, leave the field alone otherwise.\<close>

definition get ::
    "'n yaml_api \<Rightarrow> 'n \<Rightarrow> string \<Rightarrow> ('n \<Rightarrow> string + 't) \<Rightarrow>
     ('t \<Rightarrow> ControllerConfig \<Rightarrow> ControllerConfig) \<Rightarrow> ControllerConfig \<Rightarrow> load_step" where
  "get y n key conv assign c =
     (case y_index y n key of
        Inl w \<Rightarrow> Throw c w
      | Inr None \<Rightarrow> Continue c
      | Inr (Some v) \<Rightarrow> (case conv v of Inl w \<Rightarrow> Throw c w | Inr t \<Rightarrow> Continue (assign t c)))"

definition parse_encoding :: "string \<Rightarrow> config_error + EncodingFormat" where
  "parse_encoding s =
     (if s = ''asn1'' \<or> s = ''ASN1'' \<or> s = ''aper'' then Inr ASN1
      else if s = ''json'' \<or> s = ''JSON'' then Inr JSON
      else Inl (BadEncoding s))"

definition parse_link_layer :: "string \<Rightarrow> config_error + E3LinkLayer" where
  "parse_link_layer s =
     (if s = ''zmq'' \<or> s = ''ZMQ'' then Inr ZMQ
      else if s = ''posix'' \<or> s = ''POSIX'' then Inr POSIX
      else Inl (BadLinkLayer s))"

definition parse_transport :: "string \<Rightarrow> config_error + E3TransportLayer" where
  "parse_transport s =
     (if s = ''tcp'' \<or> s = ''TCP'' then Inr TCP
      else if s = ''ipc'' \<or> s = ''IPC'' then Inr IPC
      else if s = ''sctp'' \<or> s = ''SCTP'' then Inr SCTP
      else Inl (BadTransport s))"

definition parse_writer :: "string \<Rightarrow> config_error + ShmWriter" where
  "parse_writer s =
     (if s = ''controller'' then Inr Controller
      else if s = ''gnb'' then Inr Gnb
      else Inl (BadWriter s))"

text \<open>The statement \<^verbatim>\<open>if (n[key] && !parse(n[key].as<std::string>(), field, err)) return false;\<close>\<close>

definition get_parsed ::
    "'n yaml_api \<Rightarrow> 'n \<Rightarrow> string \<Rightarrow> (string \<Rightarrow> config_error + 't) \<Rightarrow>
     ('t \<Rightarrow> ControllerConfig \<Rightarrow> ControllerConfig) \<Rightarrow> ControllerConfig \<Rightarrow> load_step" where
  "get_parsed y n key parse assign c =
     (case y_index y n key of
        Inl w \<Rightarrow> Throw c w
      | Inr None \<Rightarrow> Continue c
      | Inr (Some v) \<Rightarrow>
          (case y_as_string y v of
             Inl w \<Rightarrow> Throw c w
           | Inr s \<Rightarrow> (case parse s of Inl e \<Rightarrow> ReturnFalse c e | Inr t \<Rightarrow> Continue (assign t c))))"

text \<open>The statement \<^verbatim>\<open>if (const auto n = root[key]) { ... }\<close> with the block as a function of \<open>n\<close>.\<close>

definition with_section ::
    "'n yaml_api \<Rightarrow> 'n \<Rightarrow> string \<Rightarrow> ('n \<Rightarrow> ControllerConfig \<Rightarrow> load_step) \<Rightarrow>
     ControllerConfig \<Rightarrow> load_step" where
  "with_section y root key block c =
     (case y_index y root key of
        Inl w \<Rightarrow> Throw c w
      | Inr None \<Rightarrow> Continue c
      | Inr (Some n) \<Rightarrow> block n c)"

text \<open>The keys each section of the file may hold.\<close>

definition radio_keys :: "string list" where
  "radio_keys = [''nof_ports'', ''nof_prbs'', ''nof_symbols'', ''scs_khz'']"

definition shm_keys :: "string list" where
  "shm_keys = [''name'', ''size_bytes'', ''cbf16_scale'', ''writer'']"

definition jbpf_keys :: "string list" where
  "jbpf_keys = [''ipc_name'', ''run_path'', ''mem_size_bytes'', ''lcm_socket_path'',
     ''codelet_base_path'']"

definition e3_keys :: "string list" where
  "e3_keys = [''encoding'', ''link_layer'', ''transport'', ''setup_port'', ''publisher_port'',
     ''subscriber_port'']"

definition threads_keys :: "string list" where
  "threads_keys = [''poll_core'', ''worker_core'', ''publisher_core'', ''poll_interval_us'']"

definition logging_keys :: "string list" where
  "logging_keys = [''drops_log_path'', ''spectrum_stats_log_path'', ''latrec_dir'']"

definition load_radio :: "'n yaml_api \<Rightarrow> 'n \<Rightarrow> ControllerConfig \<Rightarrow> load_step" where
  "load_radio y n = load_seq
     [check_keys y n ''radio'' radio_keys,
      get y n ''nof_ports'' (y_as_u16 y) (\<lambda>v c. c\<lparr>radio := (radio c)\<lparr>nof_ports := v\<rparr>\<rparr>),
      get y n ''nof_prbs'' (y_as_u16 y) (\<lambda>v c. c\<lparr>radio := (radio c)\<lparr>nof_prbs := v\<rparr>\<rparr>),
      get y n ''nof_symbols'' (y_as_u16 y) (\<lambda>v c. c\<lparr>radio := (radio c)\<lparr>nof_symbols := v\<rparr>\<rparr>),
      get y n ''scs_khz'' (y_as_u16 y) (\<lambda>v c. c\<lparr>radio := (radio c)\<lparr>scs_khz := v\<rparr>\<rparr>)]"

definition load_shm :: "'n yaml_api \<Rightarrow> 'n \<Rightarrow> ControllerConfig \<Rightarrow> load_step" where
  "load_shm y n = load_seq
     [check_keys y n ''shm'' shm_keys,
      get y n ''name'' (y_as_string y) (\<lambda>v c. c\<lparr>shm := (shm c)\<lparr>shm_name := v\<rparr>\<rparr>),
      get y n ''size_bytes'' (y_as_size y) (\<lambda>v c. c\<lparr>shm := (shm c)\<lparr>size_bytes := v\<rparr>\<rparr>),
      get y n ''cbf16_scale'' (y_as_float y) (\<lambda>v c. c\<lparr>shm := (shm c)\<lparr>cbf16_scale := v\<rparr>\<rparr>),
      get_parsed y n ''writer'' parse_writer (\<lambda>v c. c\<lparr>shm := (shm c)\<lparr>writer := v\<rparr>\<rparr>)]"

text \<open>
  The \<^verbatim>\<open>jbpf\<close> section also reports whether \<^verbatim>\<open>lcm_socket_path\<close> was set explicitly; that flag is
  computed by \<open>lcm_explicit\<close> from the same node.
\<close>

definition load_jbpf :: "'n yaml_api \<Rightarrow> 'n \<Rightarrow> ControllerConfig \<Rightarrow> load_step" where
  "load_jbpf y n = load_seq
     [check_keys y n ''jbpf'' jbpf_keys,
      get y n ''ipc_name'' (y_as_string y) (\<lambda>v c. c\<lparr>jbpf := (jbpf c)\<lparr>ipc_name := v\<rparr>\<rparr>),
      get y n ''run_path'' (y_as_string y) (\<lambda>v c. c\<lparr>jbpf := (jbpf c)\<lparr>run_path := v\<rparr>\<rparr>),
      get y n ''mem_size_bytes'' (y_as_size y) (\<lambda>v c. c\<lparr>jbpf := (jbpf c)\<lparr>mem_size_bytes := v\<rparr>\<rparr>),
      get y n ''lcm_socket_path'' (y_as_string y)
        (\<lambda>v c. c\<lparr>jbpf := (jbpf c)\<lparr>lcm_socket_path := v\<rparr>\<rparr>),
      get y n ''codelet_base_path'' (y_as_string y)
        (\<lambda>v c. c\<lparr>jbpf := (jbpf c)\<lparr>codelet_base_path := v\<rparr>\<rparr>)]"

definition lcm_explicit :: "'n yaml_api \<Rightarrow> 'n \<Rightarrow> bool" where
  "lcm_explicit y root =
     (case y_index y root ''jbpf'' of
        Inr (Some n) \<Rightarrow> (case y_index y n ''lcm_socket_path'' of Inr (Some _) \<Rightarrow> True | _ \<Rightarrow> False)
      | _ \<Rightarrow> False)"

definition load_e3 :: "'n yaml_api \<Rightarrow> 'n \<Rightarrow> ControllerConfig \<Rightarrow> load_step" where
  "load_e3 y n = load_seq
     [check_keys y n ''e3'' e3_keys,
      get_parsed y n ''encoding'' parse_encoding (\<lambda>v c. c\<lparr>e3 := (e3 c)\<lparr>encoding := v\<rparr>\<rparr>),
      get_parsed y n ''link_layer'' parse_link_layer (\<lambda>v c. c\<lparr>e3 := (e3 c)\<lparr>link_layer := v\<rparr>\<rparr>),
      get_parsed y n ''transport'' parse_transport (\<lambda>v c. c\<lparr>e3 := (e3 c)\<lparr>transport := v\<rparr>\<rparr>),
      get y n ''setup_port'' (y_as_u16 y) (\<lambda>v c. c\<lparr>e3 := (e3 c)\<lparr>setup_port := v\<rparr>\<rparr>),
      get y n ''publisher_port'' (y_as_u16 y) (\<lambda>v c. c\<lparr>e3 := (e3 c)\<lparr>publisher_port := v\<rparr>\<rparr>),
      get y n ''subscriber_port'' (y_as_u16 y) (\<lambda>v c. c\<lparr>e3 := (e3 c)\<lparr>subscriber_port := v\<rparr>\<rparr>)]"

definition load_threads :: "'n yaml_api \<Rightarrow> 'n \<Rightarrow> ControllerConfig \<Rightarrow> load_step" where
  "load_threads y n = load_seq
     [check_keys y n ''threads'' threads_keys,
      get y n ''poll_core'' (y_as_int y) (\<lambda>v c. c\<lparr>threads := (threads c)\<lparr>poll_core := v\<rparr>\<rparr>),
      get y n ''worker_core'' (y_as_int y) (\<lambda>v c. c\<lparr>threads := (threads c)\<lparr>worker_core := v\<rparr>\<rparr>),
      get y n ''publisher_core'' (y_as_int y) (\<lambda>v c. c\<lparr>threads := (threads c)\<lparr>publisher_core := v\<rparr>\<rparr>),
      get y n ''poll_interval_us'' (y_as_int y)
        (\<lambda>v c. c\<lparr>threads := (threads c)\<lparr>poll_interval_us := v\<rparr>\<rparr>)]"

definition load_logging :: "'n yaml_api \<Rightarrow> 'n \<Rightarrow> ControllerConfig \<Rightarrow> load_step" where
  "load_logging y n = load_seq
     [check_keys y n ''logging'' logging_keys,
      get y n ''drops_log_path'' (y_as_string y)
        (\<lambda>v c. c\<lparr>logging := (logging c)\<lparr>drops_log_path := v\<rparr>\<rparr>),
      get y n ''spectrum_stats_log_path'' (y_as_string y)
        (\<lambda>v c. c\<lparr>logging := (logging c)\<lparr>spectrum_stats_log_path := v\<rparr>\<rparr>),
      get y n ''latrec_dir'' (y_as_string y)
        (\<lambda>v c. c\<lparr>logging := (logging c)\<lparr>latrec_dir := v\<rparr>\<rparr>)]"

text \<open>The body of the \<^verbatim>\<open>try\<close> block.\<close>

definition load_sections :: "'n yaml_api \<Rightarrow> 'n \<Rightarrow> ControllerConfig \<Rightarrow> load_step" where
  "load_sections y root = load_seq
     [with_section y root ''radio'' (load_radio y),
      with_section y root ''shm'' (load_shm y),
      with_section y root ''jbpf'' (load_jbpf y),
      with_section y root ''e3'' (load_e3 y),
      with_section y root ''threads'' (load_threads y),
      with_section y root ''logging'' (load_logging y),
      get y root ''target_slot'' (y_as_int y) (\<lambda>v c. c\<lparr>target_slot := v\<rparr>)]"

definition kHeaderBytes :: size_t where
  "kHeaderBytes = 64"

definition kNumBuffers :: size_t where
  "kNumBuffers = 2"

text \<open>The checks after the \<^verbatim>\<open>try\<close> block, on the configuration with its socket path settled.\<close>

definition final_checks :: "ControllerConfig \<Rightarrow> config_error option" where
  "final_checks c =
     (case validate (radio c) of
        Some e \<Rightarrow> Some e
      | None \<Rightarrow>
          if size_bytes (shm c) \<le> kHeaderBytes \<or>
             (size_bytes (shm c) - kHeaderBytes) div kNumBuffers < ucast (row_bytes (radio c))
            then Some (ShmTooSmall (size_bytes (shm c)) (row_bytes (radio c)))
          else if \<not> f32_gt_zero (cbf16_scale (shm c)) then Some ScaleNotPositive
          else if sint (target_slot c) \<ge> 0 \<and> target_slot c \<ge> slots_per_frame (radio c)
            then Some (TargetSlotOutside (target_slot c) (slots_per_frame (radio c)))
          else None)"

text \<open>
  \<open>Uncaught\<close> is an exception that leaves \<open>load_config\<close>: the key check of the top level stands
  outside the \<^verbatim>\<open>try\<close> block.
\<close>

datatype load_result =
    Loaded ControllerConfig
  | Failed ControllerConfig config_error
  | Uncaught ControllerConfig string

definition finish_load :: "bool \<Rightarrow> ControllerConfig \<Rightarrow> load_result" where
  "finish_load explicit c =
     (let c' = (if explicit then c
                else c\<lparr>jbpf := (jbpf c)\<lparr>lcm_socket_path :=
                       run_path (jbpf c) @ ''/jbpf/jbpf_lcm_ipc''\<rparr>\<rparr>)
      in case final_checks c' of None \<Rightarrow> Loaded c' | Some e \<Rightarrow> Failed c' e)"

definition root_keys :: "string list" where
  "root_keys = [''radio'', ''shm'', ''jbpf'', ''e3'', ''threads'', ''logging'', ''target_slot'']"

definition load_config :: "'n yaml_api \<Rightarrow> string \<Rightarrow> load_result" where
  "load_config y path =
     (let out = default_ControllerConfig in
      case y_load_file y path of
        Inl w \<Rightarrow> Failed out (CannotLoad path w)
      | Inr root \<Rightarrow>
          if \<not> y_is_map y root then Failed out (TopLevelNotMapping path)
          else (case check_keys y root ''<root>'' root_keys out of
                  ReturnFalse c e \<Rightarrow> Failed c e
                | Throw c w \<Rightarrow> Uncaught c w
                | Continue c \<Rightarrow>
                    (case load_sections y root c of
                       ReturnFalse c' e \<Rightarrow> Failed c' e
                     | Throw c' w \<Rightarrow> Failed c' (ParseError path w)
                     | Continue c' \<Rightarrow> finish_load (lcm_explicit y root) c')))"

section \<open>Derived sizes do not wrap\<close>

lemmas geometry_defs =
  nof_subcarriers_def u16_per_ant_def num_fh_samples_def row_bytes_def cbf16_bytes_per_ant_def
  kScPerPrb_def kBytesPerCbf16_def

lemma validate_geometry:
  assumes "validate g = None"
  shows "1 \<le> unat (nof_ports g)" "unat (nof_ports g) \<le> 8"
    "1 \<le> unat (nof_prbs g)" "unat (nof_prbs g) \<le> 275"
    "unat (nof_symbols g) = 12 \<or> unat (nof_symbols g) = 14"
    "scs_khz g = 15 \<or> scs_khz g = 30 \<or> scs_khz g = 60 \<or> scs_khz g = 120"
proof -
  from assms have w: "nof_ports g \<noteq> 0" "nof_ports g \<le> 8" "nof_prbs g \<noteq> 0" "nof_prbs g \<le> 275"
      "nof_symbols g = 12 \<or> nof_symbols g = 14"
    and scs: "scs_khz g = 15 \<or> scs_khz g = 30 \<or> scs_khz g = 60 \<or> scs_khz g = 120"
    by (auto simp: validate_def not_less split: if_splits)
  from w show "1 \<le> unat (nof_ports g)" "1 \<le> unat (nof_prbs g)"
    by (simp_all add: unat_gt_0 Suc_le_eq)
  from w(2,4) show "unat (nof_ports g) \<le> 8" "unat (nof_prbs g) \<le> 275"
    by (simp_all add: word_le_nat_alt)
  from w(5) show "unat (nof_symbols g) = 12 \<or> unat (nof_symbols g) = 14" by auto
  from scs show "scs_khz g = 15 \<or> scs_khz g = 30 \<or> scs_khz g = 60 \<or> scs_khz g = 120" .
qed

lemma geometry_bounds:
  assumes "unat (nof_prbs g) \<le> 275" "unat (nof_symbols g) \<le> 14" "unat (nof_ports g) \<le> 8"
  shows "unat (nof_subcarriers g) = unat (nof_prbs g) * 12" (is ?sc)
    and "unat (u16_per_ant g) = unat (nof_symbols g) * (unat (nof_prbs g) * 12) * 2" (is ?ua)
    and "unat (num_fh_samples g) =
      unat (nof_ports g) * (unat (nof_symbols g) * (unat (nof_prbs g) * 12) * 2)" (is ?fh)
    and "unat (row_bytes g) =
      unat (nof_ports g) * (unat (nof_symbols g) * (unat (nof_prbs g) * 12) * 2) * 2" (is ?rb)
    and "unat (cbf16_bytes_per_ant g) = unat (nof_symbols g) * (unat (nof_prbs g) * 12) * 4" (is ?cb)
    and "unat (row_bytes g) \<le> 1478400"
proof -
  have b1: "unat (nof_prbs g) * 12 \<le> 3300" using assms(1) by simp
  show sc: ?sc
    unfolding nof_subcarriers_def kScPerPrb_def
    by (subst unat_mult_no_wrap) (use b1 in simp_all)
  have b2: "unat (nof_symbols g) * (unat (nof_prbs g) * 12) \<le> 14 * 3300"
    using assms(2) b1 by (rule mult_le_mono)
  have ss: "unat ((ucast (nof_symbols g) :: u32) * nof_subcarriers g) =
      unat (nof_symbols g) * (unat (nof_prbs g) * 12)"
    by (subst unat_mult_no_wrap) (use b2 in \<open>simp_all add: sc\<close>)
  show ua: ?ua
    unfolding u16_per_ant_def by (subst unat_mult_no_wrap) (use b2 in \<open>simp_all add: ss\<close>)
  show ?cb
    unfolding cbf16_bytes_per_ant_def kBytesPerCbf16_def
    by (subst unat_mult_no_wrap) (use b2 in \<open>simp_all add: ss\<close>)
  have b3: "unat (nof_ports g) * (unat (nof_symbols g) * (unat (nof_prbs g) * 12) * 2) \<le> 8 * (14 * 3300 * 2)"
    using mult_le_mono [OF assms(3) mult_le_mono1 [OF b2, of 2]] by simp
  show fh: ?fh
    unfolding num_fh_samples_def by (subst unat_mult_no_wrap) (use b3 in \<open>simp_all add: ua\<close>)
  show rb: ?rb
    unfolding row_bytes_def by (subst unat_mult_no_wrap) (use b3 in \<open>simp_all add: fh\<close>)
  show "unat (row_bytes g) \<le> 1478400" using b3 unfolding rb by simp
qed

lemma validate_sizes:
  assumes "validate g = None"
  shows "unat (nof_subcarriers g) = unat (nof_prbs g) * 12"
    and "unat (u16_per_ant g) = unat (nof_symbols g) * (unat (nof_prbs g) * 12) * 2"
    and "unat (num_fh_samples g) = unat (nof_ports g) * unat (u16_per_ant g)"
    and "unat (row_bytes g) = unat (nof_ports g) * unat (u16_per_ant g) * 2"
    and "unat (cbf16_bytes_per_ant g) = unat (u16_per_ant g) * 2"
    and "0 < unat (row_bytes g)" and "unat (row_bytes g) \<le> 1478400"
proof -
  note v = validate_geometry [OF assms]
  have s: "unat (nof_symbols g) \<le> 14" using v(5) by auto
  note b = geometry_bounds [OF v(4) s v(2)]
  show "unat (nof_subcarriers g) = unat (nof_prbs g) * 12"
    and "unat (u16_per_ant g) = unat (nof_symbols g) * (unat (nof_prbs g) * 12) * 2"
    and "unat (num_fh_samples g) = unat (nof_ports g) * unat (u16_per_ant g)"
    and "unat (row_bytes g) = unat (nof_ports g) * unat (u16_per_ant g) * 2"
    and "unat (cbf16_bytes_per_ant g) = unat (u16_per_ant g) * 2"
    and "unat (row_bytes g) \<le> 1478400"
    using b by simp_all
  have "0 < unat (nof_ports g) * (unat (nof_symbols g) * (unat (nof_prbs g) * 12) * 2) * 2"
    using v by auto
  then show "0 < unat (row_bytes g)" unfolding b(4) .
qed

lemma slots_per_frame_values:
  assumes "validate g = None"
  shows "slots_per_frame g \<in> {10, 20, 40, 80}"
  using validate_geometry(6) [OF assms] by (auto simp: slots_per_frame_def)

lemma u16_per_ant_lanes:
  assumes "unat (nof_prbs g) \<le> 275" "nof_symbols g = 12 \<or> nof_symbols g = 14"
    "unat (nof_ports g) \<le> 8"
  shows "u16_per_ant g mod 8 = 0"
proof -
  have "unat (nof_symbols g) \<le> 14" using assms(2) by auto
  note b = geometry_bounds(2) [OF assms(1) this assms(3)]
  have "unat (u16_per_ant g) mod 8 = 0" using assms(2) unfolding b by auto
  then show ?thesis by (simp add: word_arith_nat_mod)
qed

lemma validate_against_ran_iff:
  "validate_against_ran cfg p s sc = None \<longleftrightarrow>
     (p = 0 \<or> unat (nof_ports cfg) \<le> unat p) \<and>
     (s = 0 \<or> nof_symbols cfg = s) \<and>
     (sc = 0 \<or> nof_subcarriers cfg = sc)"
  by (auto simp: validate_against_ran_def not_less word_le_nat_alt word_less_nat_alt)

section \<open>Sequencing of the loader\<close>

lemma load_seq_invariant:
  assumes "load_seq fs c = Continue c'"
    and "\<And>f c c'. f \<in> set fs \<Longrightarrow> f c = Continue c' \<Longrightarrow> P c' = P c"
  shows "P c' = P c"
  using assms
proof (induction fs arbitrary: c)
  case Nil
  then show ?case by simp
next
  case (Cons f fs)
  from Cons.prems(1) obtain d where d: "f c = Continue d" "load_seq fs d = Continue c'"
    by (auto split: load_step.splits)
  have "P c' = P d" using Cons.IH [OF d(2)] Cons.prems(2) by (metis list.set_intros(2))
  also have "P d = P c" using Cons.prems(2) [of f c d] d(1) by simp
  finally show ?case .
qed

lemma load_seq_member:
  assumes "load_seq fs c = Continue c'" and "f \<in> set fs"
  shows "\<exists>d d'. f d = Continue d'"
  using assms by (induction fs arbitrary: c) (auto split: load_step.splits)

lemma get_Continue:
  "get y n key conv assign c = Continue c' \<longleftrightarrow>
     (y_index y n key = Inr None \<and> c' = c) \<or>
     (\<exists>v t. y_index y n key = Inr (Some v) \<and> conv v = Inr t \<and> c' = assign t c)"
  by (auto simp: get_def split: sum.splits option.splits)

lemma get_parsed_Continue:
  "get_parsed y n key parse assign c = Continue c' \<longleftrightarrow>
     (y_index y n key = Inr None \<and> c' = c) \<or>
     (\<exists>v s t. y_index y n key = Inr (Some v) \<and> y_as_string y v = Inr s \<and>
        parse s = Inr t \<and> c' = assign t c)"
  by (auto simp: get_parsed_def split: sum.splits option.splits)

lemma check_entries_Continue:
  "check_entries y sec allowed kvs c = Continue c' \<longleftrightarrow>
     c' = c \<and> (\<forall>kv \<in> set kvs. \<exists>k. y_as_string y (fst kv) = Inr k \<and> k \<in> set allowed)"
  by (induction kvs) (auto split: sum.splits)

lemma check_keys_Continue:
  "check_keys y n sec allowed c = Continue c' \<longleftrightarrow>
     c' = c \<and> (y_is_map y n \<longrightarrow>
       (\<forall>kv \<in> set (y_entries y n). \<exists>k. y_as_string y (fst kv) = Inr k \<and> k \<in> set allowed))"
  by (auto simp: check_keys_def check_entries_Continue)

lemma with_section_Continue:
  "with_section y root key block c = Continue c' \<longleftrightarrow>
     (y_index y root key = Inr None \<and> c' = c) \<or>
     (\<exists>n. y_index y root key = Inr (Some n) \<and> block n c = Continue c')"
  by (auto simp: with_section_def split: sum.splits option.splits)

lemmas step_Continue =
  get_Continue get_parsed_Continue check_keys_Continue with_section_Continue

text \<open>Each section writes its own part of the configuration only.\<close>

lemma load_radio_frame:
  "load_radio y n c = Continue c' \<Longrightarrow>
     (shm c', jbpf c', e3 c', threads c', logging c', target_slot c') =
     (shm c, jbpf c, e3 c, threads c, logging c, target_slot c)"
  unfolding load_radio_def by (erule load_seq_invariant) (auto simp: step_Continue)

lemma load_shm_frame:
  "load_shm y n c = Continue c' \<Longrightarrow>
     (radio c', jbpf c', e3 c', threads c', logging c', target_slot c') =
     (radio c, jbpf c, e3 c, threads c, logging c, target_slot c)"
  unfolding load_shm_def by (erule load_seq_invariant) (auto simp: step_Continue)

lemma load_jbpf_frame:
  "load_jbpf y n c = Continue c' \<Longrightarrow>
     (radio c', shm c', e3 c', threads c', logging c', target_slot c') =
     (radio c, shm c, e3 c, threads c, logging c, target_slot c)"
  unfolding load_jbpf_def by (erule load_seq_invariant) (auto simp: step_Continue)

lemma load_e3_frame:
  "load_e3 y n c = Continue c' \<Longrightarrow>
     (radio c', shm c', jbpf c', threads c', logging c', target_slot c') =
     (radio c, shm c, jbpf c, threads c, logging c, target_slot c)"
  unfolding load_e3_def by (erule load_seq_invariant) (auto simp: step_Continue)

lemma load_threads_frame:
  "load_threads y n c = Continue c' \<Longrightarrow>
     (radio c', shm c', jbpf c', e3 c', logging c', target_slot c') =
     (radio c, shm c, jbpf c, e3 c, logging c, target_slot c)"
  unfolding load_threads_def by (erule load_seq_invariant) (auto simp: step_Continue)

lemma load_logging_frame:
  "load_logging y n c = Continue c' \<Longrightarrow>
     (radio c', shm c', jbpf c', e3 c', threads c', target_slot c') =
     (radio c, shm c, jbpf c, e3 c, threads c, target_slot c)"
  unfolding load_logging_def by (erule load_seq_invariant) (auto simp: step_Continue)

lemmas section_frames =
  load_radio_frame load_shm_frame load_jbpf_frame load_e3_frame load_threads_frame
  load_logging_frame

text \<open>A part of the configuration whose section is absent keeps its value.\<close>

lemma load_sections_absent:
  assumes "load_sections y root c = Continue c'"
  shows "y_index y root ''radio'' = Inr None \<Longrightarrow> radio c' = radio c"
    and "y_index y root ''shm'' = Inr None \<Longrightarrow> shm c' = shm c"
    and "y_index y root ''jbpf'' = Inr None \<Longrightarrow> jbpf c' = jbpf c"
    and "y_index y root ''e3'' = Inr None \<Longrightarrow> e3 c' = e3 c"
    and "y_index y root ''threads'' = Inr None \<Longrightarrow> threads c' = threads c"
    and "y_index y root ''logging'' = Inr None \<Longrightarrow> logging c' = logging c"
    and "y_index y root ''target_slot'' = Inr None \<Longrightarrow> target_slot c' = target_slot c"
  using assms unfolding load_sections_def
  by - (erule load_seq_invariant; auto simp: with_section_Continue get_Continue
    dest: section_frames)+

lemma load_config_LoadedE:
  assumes "load_config y path = Loaded c"
  obtains root c' where "y_load_file y path = Inr root" "y_is_map y root"
    "check_keys y root ''<root>'' root_keys default_ControllerConfig =
       Continue default_ControllerConfig"
    "load_sections y root default_ControllerConfig = Continue c'"
    "finish_load (lcm_explicit y root) c' = Loaded c"
proof (cases "y_load_file y path")
  case (Inl w)
  with assms show ?thesis by (simp add: load_config_def Let_def)
next
  case (Inr root)
  with assms have "y_is_map y root" by (auto simp: load_config_def Let_def split: if_splits)
  show ?thesis
  proof (cases "check_keys y root ''<root>'' root_keys default_ControllerConfig")
    case (Continue d)
    then have "d = default_ControllerConfig" by (simp add: check_keys_Continue)
    with Inr \<open>y_is_map y root\<close> Continue assms that show ?thesis
      by (auto simp: load_config_def Let_def split: load_step.splits)
  qed (use Inr \<open>y_is_map y root\<close> assms in \<open>auto simp: load_config_def Let_def\<close>)
qed

lemma finish_load_Loaded:
  "finish_load ex c = Loaded c' \<Longrightarrow>
     final_checks c' = None \<and> c'\<lparr>jbpf := j\<rparr> = c\<lparr>jbpf := j\<rparr>"
  by (auto simp: finish_load_def Let_def split: if_splits option.splits)

section \<open>Properties of the validators\<close>

text \<open>C29. \<open>RadioGeometry::validate\<close> accepts exactly the geometries with 1 to 8 ports, 1 to 275 PRBs,
  12 or 14 symbols and a subcarrier spacing of 15, 30, 60 or 120 kHz: its last check, that the
  samples per antenna fill whole groups of eight lanes, never rejects what passed the others.\<close>

theorem validate_iff:
  "validate g = None \<longleftrightarrow>
     1 \<le> unat (nof_ports g) \<and> unat (nof_ports g) \<le> 8 \<and>
     1 \<le> unat (nof_prbs g) \<and> unat (nof_prbs g) \<le> 275 \<and>
     nof_symbols g \<in> {12, 14} \<and> scs_khz g \<in> {15, 30, 60, 120}"
  (is "?l \<longleftrightarrow> ?r")
proof
  assume l: ?l
  have "nof_symbols g \<in> {12, 14}" using l by (auto simp: validate_def split: if_splits)
  with validate_geometry [OF l] show ?r by auto
next
  assume r: ?r
  then have "nof_ports g \<noteq> 0" "\<not> nof_ports g > 8" "nof_prbs g \<noteq> 0" "\<not> nof_prbs g > 275"
    by (auto simp: word_less_nat_alt)
  moreover have "u16_per_ant g mod 8 = 0" using r by (intro u16_per_ant_lanes) auto
  ultimately show ?l using r by (auto simp: validate_def)
qed

text \<open>For a validated geometry none of the 32-bit products of the derived sizes wraps: a row is
  exactly ports x symbols x PRBs x 12 subcarriers of two 2-byte values, never more than 1478400
  bytes, one antenna's share equals its share of the cbf16 source blob, and a frame has 10, 20, 40
  or 80 slots.\<close>

theorem geometry_sizes_exact:
  assumes "validate g = None"
  shows "unat (row_bytes g) =
           unat (nof_ports g) * unat (nof_symbols g) * unat (nof_prbs g) * 12 * 2 * 2 \<and>
         unat (row_bytes g) \<le> 1478400 \<and>
         unat (row_bytes g) = unat (nof_ports g) * unat (cbf16_bytes_per_ant g) \<and>
         unat (num_fh_samples g) * 2 = unat (row_bytes g) \<and>
         slots_per_frame g \<in> {10, 20, 40, 80}"
  using validate_sizes [OF assms] slots_per_frame_values [OF assms] by simp

theorem geometry_sizes_exact_witness:
  "unat (row_bytes default_RadioGeometry) = 733824"
proof -
  have "validate default_RadioGeometry = None"
    by (simp add: validate_def geometry_defs default_RadioGeometry_def)
  from geometry_sizes_exact [OF this] show ?thesis by (simp add: default_RadioGeometry_def)
qed



section \<open>Properties of the loader\<close>

definition config_ok :: "ControllerConfig \<Rightarrow> bool" where
  "config_ok c \<longleftrightarrow>
     validate (radio c) = None \<and>
     64 + 2 * unat (row_bytes (radio c)) \<le> unat (size_bytes (shm c)) \<and>
     f32_gt_zero (cbf16_scale (shm c)) \<and>
     (sint (target_slot c) < 0 \<or> unat (target_slot c) < unat (slots_per_frame (radio c)))"

lemma final_checks_ok:
  assumes "final_checks c = None"
  shows "config_ok c"
proof -
  let ?sz = "size_bytes (shm c)" and ?rb = "row_bytes (radio c)"
  from assms have v: "validate (radio c) = None" and gt: "64 < ?sz"
    and rows: "ucast ?rb \<le> (?sz - 64) div 2" and sc: "f32_gt_zero (cbf16_scale (shm c))"
    and ts: "sint (target_slot c) < 0 \<or> target_slot c < slots_per_frame (radio c)"
    by (auto simp: final_checks_def kHeaderBytes_def kNumBuffers_def not_less not_le
        split: option.splits if_splits)
  have "unat (?sz - 64) = unat ?sz - 64"
    using gt by (subst unat_sub_no_wrap) (simp_all add: word_less_nat_alt)
  then have "unat ?rb \<le> (unat ?sz - 64) div 2"
    using rows by (simp add: word_le_nat_alt unat_div)
  with gt have "64 + 2 * unat ?rb \<le> unat ?sz" by (simp add: word_less_nat_alt)
  with v sc ts show ?thesis by (auto simp: config_ok_def word_less_nat_alt)
qed

definition keys_known :: "'n yaml_api \<Rightarrow> string list \<Rightarrow> 'n \<Rightarrow> bool" where
  "keys_known y allowed n \<longleftrightarrow>
     (y_is_map y n \<longrightarrow>
       (\<forall>kv \<in> set (y_entries y n). \<exists>k. y_as_string y (fst kv) = Inr k \<and> k \<in> set allowed))"

lemma load_seq_head_keys:
  "load_seq (check_keys y n sec allowed # fs) c = Continue c' \<Longrightarrow> keys_known y allowed n"
  by (auto simp: keys_known_def check_keys_Continue split: load_step.splits)

lemma section_keys_known:
  assumes "load_sections y root c = Continue c'"
    and "(key, allowed) \<in> {(''radio'', radio_keys), (''shm'', shm_keys), (''jbpf'', jbpf_keys),
      (''e3'', e3_keys), (''threads'', threads_keys), (''logging'', logging_keys)}"
    and "y_index y root key = Inr (Some n)"
  shows "keys_known y allowed n"
proof -
  have sec: "\<exists>d d'. block n d = Continue d'"
    if "with_section y root key block \<in> set
        [with_section y root ''radio'' (load_radio y), with_section y root ''shm'' (load_shm y),
         with_section y root ''jbpf'' (load_jbpf y), with_section y root ''e3'' (load_e3 y),
         with_section y root ''threads'' (load_threads y),
         with_section y root ''logging'' (load_logging y),
         get y root ''target_slot'' (y_as_int y) (\<lambda>v c. c\<lparr>target_slot := v\<rparr>)]" for block
    using load_seq_member [OF assms(1) [unfolded load_sections_def] that] assms(3)
    by (auto simp: with_section_Continue)
  from assms(2) show ?thesis
    using sec [of "load_radio y"] sec [of "load_shm y"] sec [of "load_jbpf y"] sec [of "load_e3 y"]
      sec [of "load_threads y"] sec [of "load_logging y"]
    by (auto simp: load_radio_def load_shm_def load_jbpf_def load_e3_def load_threads_def
        load_logging_def simp del: load_seq.simps dest: load_seq_head_keys)
qed

lemma load_config_ok:
  assumes "load_config y path = Loaded c"
  shows "config_ok c"
  using assms by (elim load_config_LoadedE) (auto dest: finish_load_Loaded intro: final_checks_ok)

text \<open>No typing mistake in a key is ignored: if \<open>load_config\<close> accepts a file, every key of its top
  level and every key of each of its six sections is one the loader reads.\<close>

theorem load_config_keys_known:
  assumes "load_config y path = Loaded c" and "y_load_file y path = Inr root"
  shows "keys_known y root_keys root \<and>
    (\<forall>n. y_index y root ''radio'' = Inr (Some n) \<longrightarrow> keys_known y radio_keys n) \<and>
    (\<forall>n. y_index y root ''shm'' = Inr (Some n) \<longrightarrow> keys_known y shm_keys n) \<and>
    (\<forall>n. y_index y root ''jbpf'' = Inr (Some n) \<longrightarrow> keys_known y jbpf_keys n) \<and>
    (\<forall>n. y_index y root ''e3'' = Inr (Some n) \<longrightarrow> keys_known y e3_keys n) \<and>
    (\<forall>n. y_index y root ''threads'' = Inr (Some n) \<longrightarrow> keys_known y threads_keys n) \<and>
    (\<forall>n. y_index y root ''logging'' = Inr (Some n) \<longrightarrow> keys_known y logging_keys n)"
proof -
  from assms obtain c' where
    top: "check_keys y root ''<root>'' root_keys default_ControllerConfig =
       Continue default_ControllerConfig"
    and sec: "load_sections y root default_ControllerConfig = Continue c'"
    by (auto elim: load_config_LoadedE)
  from top have "keys_known y root_keys root" by (simp add: check_keys_Continue keys_known_def)
  with section_keys_known [OF sec] show ?thesis by blast
qed

text \<open>C30. Whatever the YAML file and whatever yaml-cpp makes of it, a configuration that \<open>load_config\<close>
  accepts satisfies what the rest of the controller relies on: a valid geometry, a region that holds
  the 64-byte header and a whole row in each of the two buffers, a positive (not NaN) conversion
  scale, and a slot filter that is off or inside the frame.\<close>

theorem load_config_sound:
  assumes "load_config y path = Loaded c"
  shows "config_ok c"
  by (rule load_config_ok[OF assms])

text \<open>An optional part that the file leaves out has its documented default, and the LCM socket
  path follows \<open>run_path\<close> unless the file sets it: no earlier load and no other section can leak
  into it.\<close>

theorem load_config_defaults:
  assumes "load_config y path = Loaded c" and "y_load_file y path = Inr root"
  shows "(y_index y root ''radio'' = Inr None \<longrightarrow> radio c = default_RadioGeometry) \<and>
    (y_index y root ''shm'' = Inr None \<longrightarrow> shm c = shm default_ControllerConfig) \<and>
    (y_index y root ''e3'' = Inr None \<longrightarrow> e3 c = e3 default_ControllerConfig) \<and>
    (y_index y root ''threads'' = Inr None \<longrightarrow> threads c = threads default_ControllerConfig) \<and>
    (y_index y root ''logging'' = Inr None \<longrightarrow> logging c = logging default_ControllerConfig) \<and>
    (y_index y root ''target_slot'' = Inr None \<longrightarrow> target_slot c = -1) \<and>
    (\<not> lcm_explicit y root \<longrightarrow>
       lcm_socket_path (jbpf c) = run_path (jbpf c) @ ''/jbpf/jbpf_lcm_ipc'')"
proof -
  from assms obtain c' where sec: "load_sections y root default_ControllerConfig = Continue c'"
    and fin: "finish_load (lcm_explicit y root) c' = Loaded c"
    by (auto elim: load_config_LoadedE)
  have same: "radio c = radio c'" "shm c = shm c'" "e3 c = e3 c'" "threads c = threads c'"
      "logging c = logging c'" "target_slot c = target_slot c'"
    using fin by (auto simp: finish_load_def Let_def split: if_splits option.splits)
  have lcm: "\<not> lcm_explicit y root \<longrightarrow>
      lcm_socket_path (jbpf c) = run_path (jbpf c) @ ''/jbpf/jbpf_lcm_ipc''"
    using fin by (auto simp: finish_load_def Let_def split: if_splits option.splits)
  show ?thesis
    using load_sections_absent [OF sec] lcm unfolding same
    by (simp add: default_ControllerConfig_def)
qed

text \<open>The key check of the top level stands outside the \<^verbatim>\<open>try\<close> block: a file whose first
  top-level key is not a string (a YAML sequence or map used as a key) does not make \<open>load_config\<close>
  return \<^verbatim>\<open>false\<close> with a message, the exception leaves the function; the same key inside a section
  is reported as a parse error.\<close>

theorem load_config_uncaught_key:
  assumes "y_load_file y path = Inr root" and "y_is_map y root"
    and "y_entries y root = (k, v) # rest" and "y_as_string y k = Inl w"
  shows "load_config y path = Uncaught default_ControllerConfig w"
  using assms by (simp add: load_config_def check_keys_def)

subsection \<open>A concrete document model for the witnesses\<close>

datatype sample_node =
    SMap "(sample_node \<times> sample_node) list"
  | SText string
  | SNum nat

definition sample_yaml :: "sample_node \<Rightarrow> sample_node yaml_api" where
  "sample_yaml doc =
     \<lparr>y_load_file = (\<lambda>_. Inr doc),
      y_is_map = (\<lambda>n. case n of SMap _ \<Rightarrow> True | _ \<Rightarrow> False),
      y_entries = (\<lambda>n. case n of SMap kvs \<Rightarrow> kvs | _ \<Rightarrow> []),
      y_index = (\<lambda>n k. case n of SMap kvs \<Rightarrow> Inr (map_of kvs (SText k)) | _ \<Rightarrow> Inl ''bad subscript''),
      y_as_string = (\<lambda>n. case n of SText s \<Rightarrow> Inr s | _ \<Rightarrow> Inl ''bad conversion''),
      y_as_u16 = (\<lambda>n. case n of SNum k \<Rightarrow> if k < 65536 then Inr (of_nat k) else Inl ''range''
                              | _ \<Rightarrow> Inl ''bad conversion''),
      y_as_size = (\<lambda>n. case n of SNum k \<Rightarrow> Inr (of_nat k) | _ \<Rightarrow> Inl ''bad conversion''),
      y_as_int = (\<lambda>n. case n of SNum k \<Rightarrow> Inr (of_nat k) | _ \<Rightarrow> Inl ''bad conversion''),
      y_as_float = (\<lambda>n. Inl ''bad conversion'')\<rparr>"

definition sample_doc :: sample_node where
  "sample_doc = SMap [(SText ''radio'', SMap [(SText ''nof_ports'', SNum 2)]),
                      (SText ''target_slot'', SNum 19)]"

definition sample_config :: ControllerConfig where
  "sample_config = default_ControllerConfig
     \<lparr>radio := default_RadioGeometry\<lparr>nof_ports := 2\<rparr>, target_slot := 19,
      jbpf := (jbpf default_ControllerConfig)\<lparr>lcm_socket_path := ''/dev/shm/jbpf/jbpf_lcm_ipc''\<rparr>\<rparr>"

lemma sample_loads: "load_config (sample_yaml sample_doc) ''c.yaml'' = Loaded sample_config"
  by (simp add: load_config_def check_keys_def sample_yaml_def sample_doc_def root_keys_def
      load_sections_def with_section_def load_radio_def radio_keys_def get_def lcm_explicit_def)
    (simp add: finish_load_def default_ControllerConfig_def default_RadioGeometry_def
      sample_config_def final_checks_def validate_def geometry_defs slots_per_frame_def
      kHeaderBytes_def kNumBuffers_def f32_gt_zero_def f32_one_def f32_is_nan_def f32_is_zero_def
      f32_neg_def f32_expo_def f32_frac_def)

theorem load_config_sound_witness: "config_ok sample_config"
  by (rule load_config_sound [OF sample_loads])

theorem load_config_keys_known_witness: "keys_known (sample_yaml sample_doc) root_keys sample_doc"
  using load_config_keys_known [OF sample_loads, of sample_doc] by (simp add: sample_yaml_def)

theorem load_config_defaults_witness: "shm sample_config = shm default_ControllerConfig"
  using load_config_defaults [OF sample_loads, of sample_doc]
  by (simp add: sample_yaml_def sample_doc_def)

theorem load_config_uncaught_key_witness:
  "load_config (sample_yaml (SMap [(SMap [], SNum 1)])) ''c.yaml'' =
     Uncaught default_ControllerConfig ''bad conversion''"
  by (rule load_config_uncaught_key [where k = "SMap []" and v = "SNum 1" and rest = "[]"
      and root = "SMap [(SMap [], SNum 1)]"]) (simp_all add: sample_yaml_def)

end
