(* ===== verification/Spsc_Queue.thy ===== *)
theory Spsc_Queue
  imports E3_Prelude
begin

text \<open>
  The single-producer single-consumer ring that both pipelines embed (\<^verbatim>\<open>queue_head_\<close>,
  \<^verbatim>\<open>queue_tail_\<close>, \<^verbatim>\<open>queue_\<close> and \<^verbatim>\<open>QUEUE_CAPACITY\<close> in \<^verbatim>\<open>slot_iq_pipeline\<close> and \<^verbatim>\<open>iq_pipeline\<close>).
  Head and tail are free-running 64-bit counters that wrap; a slot is addressed by masking with
  \<^verbatim>\<open>QUEUE_CAPACITY - 1\<close>.  The locale \<open>bounded_fifo\<close> is what the pipelines rely on, a bounded queue
  of entries; the ring satisfies it for every power-of-two capacity, and is interpreted for the two
  capacities of the code, 32 and 64.
\<close>

section \<open>The ring\<close>

text \<open>The entry of both queues: the owned jbpf buffer and the poll-side stamps.\<close>

record QueueEntry =
  q_buf :: nat
  q_dispatch_ts_ns :: u64
  q_recv_us :: u32
  q_sample_id :: u32

definition zero_entry :: QueueEntry where
  "zero_entry = \<lparr>q_buf = 0, q_dispatch_ts_ns = 0, q_recv_us = 0, q_sample_id = 0\<rparr>"

record 'e spsc_ring =
  queue_head :: u64
  queue_tail :: u64
  queue_slots :: "'e list"

text \<open>Construction: both counters are zero and the vector has \<^verbatim>\<open>QUEUE_CAPACITY\<close> zeroed entries.\<close>

definition ring_init :: "u64 \<Rightarrow> 'e \<Rightarrow> 'e spsc_ring" where
  "ring_init cap z = \<lparr>queue_head = 0, queue_tail = 0, queue_slots = replicate (unat cap) z\<rparr>"

definition ring_index :: "u64 \<Rightarrow> u64 \<Rightarrow> nat" where
  "ring_index cap i = unat (i AND (cap - 1))"

definition ring_full :: "u64 \<Rightarrow> 'e spsc_ring \<Rightarrow> bool" where
  "ring_full cap r \<longleftrightarrow> queue_head r - queue_tail r \<ge> cap"

definition ring_empty :: "'e spsc_ring \<Rightarrow> bool" where
  "ring_empty r \<longleftrightarrow> queue_head r = queue_tail r"

text \<open>The slot at the head is filled, then the head is published.\<close>

definition ring_push :: "u64 \<Rightarrow> 'e \<Rightarrow> 'e spsc_ring \<Rightarrow> 'e spsc_ring" where
  "ring_push cap e r =
     r\<lparr>queue_slots := (queue_slots r)[ring_index cap (queue_head r) := e],
       queue_head := queue_head r + 1\<rparr>"

definition ring_front :: "u64 \<Rightarrow> 'e spsc_ring \<Rightarrow> 'e" where
  "ring_front cap r = queue_slots r ! ring_index cap (queue_tail r)"

definition ring_pop :: "'e spsc_ring \<Rightarrow> 'e spsc_ring" where
  "ring_pop r = r\<lparr>queue_tail := queue_tail r + 1\<rparr>"

text \<open>The loop of \<^verbatim>\<open>stop()\<close>, \<^verbatim>\<open>for (; tail != head; ++tail)\<close>: the entries it visits, in order.\<close>

lemma counter_gap_decreases:
  fixes head tail :: u64
  assumes "tail \<noteq> head"
  shows "unat (head - tail) = Suc (unat (head - (tail + 1)))"
proof -
  have "head - tail \<noteq> 0" using assms by simp
  then have "unat (head - tail - 1) = unat (head - tail) - 1" and "unat (head - tail) \<noteq> 0"
    by (simp_all add: unat_minus_one unat_eq_zero)
  then show ?thesis by (simp add: algebra_simps)
qed

function ring_drain :: "u64 \<Rightarrow> 'e list \<Rightarrow> u64 \<Rightarrow> u64 \<Rightarrow> 'e list" where
  "ring_drain cap slots tail head =
     (if tail = head then []
      else slots ! ring_index cap tail # ring_drain cap slots (tail + 1) head)"
  by pat_completeness auto
termination
  by (relation "measure (\<lambda>(cap, slots, tail, head). unat (head - tail))")
     (simp_all add: counter_gap_decreases)

declare ring_drain.simps [simp del]

text \<open>\<^verbatim>\<open>queue_tail_.store(head)\<close> after the loop.\<close>

definition ring_reset :: "'e spsc_ring \<Rightarrow> 'e spsc_ring" where
  "ring_reset r = r\<lparr>queue_tail := queue_head r\<rparr>"

section \<open>The interface: a bounded queue\<close>

locale bounded_fifo =
  fixes capacity :: nat
    and ok :: "'q \<Rightarrow> bool"
    and contents :: "'q \<Rightarrow> 'e list"
    and full :: "'q \<Rightarrow> bool"
    and is_empty :: "'q \<Rightarrow> bool"
    and push :: "'e \<Rightarrow> 'q \<Rightarrow> 'q"
    and front :: "'q \<Rightarrow> 'e"
    and pop :: "'q \<Rightarrow> 'q"
  assumes bounded: "ok q \<Longrightarrow> length (contents q) \<le> capacity"
    and full_iff: "ok q \<Longrightarrow> full q \<longleftrightarrow> length (contents q) = capacity"
    and empty_iff: "ok q \<Longrightarrow> is_empty q \<longleftrightarrow> contents q = []"
    and push_ok: "ok q \<Longrightarrow> \<not> full q \<Longrightarrow> ok (push e q)"
    and push_contents: "ok q \<Longrightarrow> \<not> full q \<Longrightarrow> contents (push e q) = contents q @ [e]"
    and front_hd: "ok q \<Longrightarrow> \<not> is_empty q \<Longrightarrow> front q = hd (contents q)"
    and pop_ok: "ok q \<Longrightarrow> \<not> is_empty q \<Longrightarrow> ok (pop q)"
    and pop_contents: "ok q \<Longrightarrow> \<not> is_empty q \<Longrightarrow> contents (pop q) = tl (contents q)"
begin

text \<open>Offering an entry to the queue: stored when there is room, handed back when it is full.\<close>

lemma offer_conserves:
  assumes "ok q" "key e = b"
  shows "mset (map key (contents (if full q then q else push e q))) + (if full q then {#b#} else {#})
    = mset (map key (contents q)) + {#b#}"
  using assms by (simp add: push_contents)

lemma take_conserves:
  assumes "ok q" "\<not> is_empty q"
  shows "mset (map key (contents (pop q))) + {#key (front q)#} = mset (map key (contents q))"
proof -
  obtain x xs where "contents q = x # xs"
    using assms empty_iff by (cases "contents q") auto
  then show ?thesis using assms by (simp add: pop_contents front_hd)
qed

lemma offer_ok: "ok q \<Longrightarrow> ok (if full q then q else push e q)"
  by (simp add: push_ok)

lemma not_full_below: "ok q \<Longrightarrow> length (contents q) < capacity \<Longrightarrow> \<not> full q"
  by (simp add: full_iff)

text \<open>What the producer of a burst stores and what it has to give back.\<close>

lemma burst_contents:
  assumes "ok q"
  shows "contents (fold (\<lambda>e q. if full q then q else push e q) es q)
    = contents q @ take (capacity - length (contents q)) es"
  using assms
proof (induction es arbitrary: q)
  case (Cons e es)
  have bound: "length (contents q) \<le> capacity" using Cons.prems by (rule bounded)
  show ?case
  proof (cases "full q")
    case True
    then have "length (contents q) = capacity" using full_iff Cons.prems by blast
    then show ?thesis using Cons True by simp
  next
    case False
    then have "length (contents q) < capacity" using full_iff Cons.prems bound by fastforce
    then obtain n where n: "capacity - length (contents q) = Suc n"
      by (metis Suc_diff_Suc)
    then have "capacity - length (contents (push e q)) = n"
      using Cons.prems False by (simp add: push_contents)
    with n show ?thesis
      using Cons.IH[OF push_ok[OF Cons.prems False]] False Cons.prems
      by (simp add: push_contents)
  qed
qed simp

end

section \<open>The ring is a bounded queue\<close>

definition ring_ok :: "u64 \<Rightarrow> 'e spsc_ring \<Rightarrow> bool" where
  "ring_ok cap r \<longleftrightarrow>
     length (queue_slots r) = unat cap \<and> unat (queue_head r - queue_tail r) \<le> unat cap"

definition ring_contents :: "u64 \<Rightarrow> 'e spsc_ring \<Rightarrow> 'e list" where
  "ring_contents cap r =
     map (\<lambda>i. queue_slots r ! ring_index cap (queue_tail r + of_nat i))
       [0..<unat (queue_head r - queue_tail r)]"

lemma ring_contents_length [simp]:
  "length (ring_contents cap r) = unat (queue_head r - queue_tail r)"
  by (simp add: ring_contents_def)

lemma ring_init_ok [simp]: "ring_ok cap (ring_init cap z)"
  by (simp add: ring_ok_def ring_init_def)

lemma ring_init_contents [simp]: "ring_contents cap (ring_init cap z) = []"
  by (simp add: ring_contents_def ring_init_def)

lemma ring_empty_contents: "ring_empty r \<longleftrightarrow> ring_contents cap r = []"
  by (auto simp: ring_empty_def ring_contents_def unat_eq_zero)

lemma ring_full_iff:
  "ring_ok cap r \<Longrightarrow> ring_full cap r \<longleftrightarrow> length (ring_contents cap r) = unat cap"
  by (auto simp: ring_ok_def ring_full_def word_le_nat_alt)

lemma ring_drain_contents:
  "ring_drain cap slots tail head =
     map (\<lambda>i. slots ! ring_index cap (tail + of_nat i)) [0..<unat (head - tail)]"
proof (induction cap slots tail head rule: ring_drain.induct)
  case (1 cap slots tail head)
  show ?case
  proof (cases "tail = head")
    case False
    then have gap: "unat (head - tail) = Suc (unat (head - (tail + 1)))"
      by (rule counter_gap_decreases)
    show ?thesis
      unfolding ring_drain.simps[of cap slots tail head] gap upt_Cons_map
      using 1[OF False] False by (simp add: algebra_simps)
  qed (simp add: ring_drain.simps)
qed

lemma ring_drain_is_contents:
  "ring_drain cap (queue_slots r) (queue_tail r) (queue_head r) = ring_contents cap r"
  by (simp add: ring_drain_contents ring_contents_def)

lemma ring_reset_ok [simp]: "ring_ok cap r \<Longrightarrow> ring_ok cap (ring_reset r)"
  by (simp add: ring_ok_def ring_reset_def)

lemma ring_reset_contents [simp]: "ring_contents cap (ring_reset r) = []"
  by (simp add: ring_contents_def ring_reset_def)

lemma ring_front_hd:
  assumes "\<not> ring_empty r"
  shows "ring_front cap r = hd (ring_contents cap r)"
proof -
  have "unat (queue_head r - queue_tail r) \<noteq> 0"
    using assms by (simp add: ring_empty_def unat_eq_zero)
  then show ?thesis
    by (simp add: ring_front_def ring_contents_def hd_map upt_conv_Cons)
qed

lemma ring_pop_gap:
  "\<not> ring_empty r \<Longrightarrow>
     unat (queue_head r - queue_tail r) = Suc (unat (queue_head (ring_pop r) - queue_tail (ring_pop r)))"
  using counter_gap_decreases[of "queue_tail r" "queue_head r"]
  by (auto simp: ring_empty_def ring_pop_def)

lemma ring_pop_ok: "ring_ok cap r \<Longrightarrow> \<not> ring_empty r \<Longrightarrow> ring_ok cap (ring_pop r)"
  using ring_pop_gap[of r] by (simp add: ring_ok_def ring_pop_def)

lemma ring_pop_contents:
  assumes "\<not> ring_empty r"
  shows "ring_contents cap (ring_pop r) = tl (ring_contents cap r)"
  unfolding ring_contents_def ring_pop_gap[OF assms] upt_Cons_map
  by (simp add: ring_pop_def algebra_simps)

text \<open>
  The capacity is a power of two, so masking a counter is the remainder, and remainders of two
  counters at a distance below the capacity are different: a push never overwrites a queued entry.
\<close>

locale power_of_two_capacity =
  fixes cap :: u64 and k :: nat
  assumes cap_def: "cap = 2 ^ k" and k_small: "k < 64"
begin

lemma unat_cap: "unat cap = 2 ^ k"
proof -
  have "unat (of_nat (2 ^ k) :: u64) = 2 ^ k mod 2 ^ 64" by (simp only: unat_of_nat_mod) simp
  also have "(2::nat) ^ k mod 2 ^ 64 = 2 ^ k"
    by (intro mod_less power_strict_increasing) (simp_all add: k_small)
  finally show ?thesis by (simp add: cap_def)
qed

lemma ring_index_mod: "ring_index cap i = unat i mod 2 ^ k"
  by (simp add: ring_index_def cap_def unat_and_mask flip: mask_eq_exp_minus_1)

lemma ring_index_less [simp]: "ring_index cap i < unat cap"
  by (simp add: ring_index_mod unat_cap)

lemma ring_index_add: "ring_index cap (t + of_nat i) = (unat t + i) mod 2 ^ k"
proof -
  have dvd: "(2::nat) ^ k dvd 2 ^ 64" using k_small by (intro le_imp_power_dvd) simp
  have "unat (t + of_nat i) mod 2 ^ k = ((unat t + i mod 2 ^ 64) mod 2 ^ 64) mod 2 ^ k"
    by (simp add: unat_word_ariths unat_of_nat_mod)
  also have "\<dots> = (unat t + i mod 2 ^ 64) mod 2 ^ k" by (rule mod_mod_cancel[OF dvd])
  also have "\<dots> = (unat t + i mod 2 ^ 64 mod 2 ^ k) mod 2 ^ k" by (simp only: mod_add_right_eq)
  also have "\<dots> = (unat t + i) mod 2 ^ k"
    by (simp only: mod_mod_cancel[OF dvd] mod_add_right_eq)
  finally show ?thesis by (simp add: ring_index_mod)
qed

lemma ring_index_inj:
  assumes "i < 2 ^ k" "j < 2 ^ k"
    and "ring_index cap (t + of_nat i) = ring_index cap (t + of_nat j)"
  shows "i = j"
proof (rule ccontr)
  have collide: False if "a < b" "b < 2 ^ k" "(unat t + b) mod 2 ^ k = (unat t + a) mod 2 ^ k"
    for a b
  proof -
    have "2 ^ k dvd b - a" using that mod_eq_dvd_iff_nat[of "unat t + a" "unat t + b"] by simp
    then show False using that by (auto dest!: dvd_imp_le)
  qed
  assume "i \<noteq> j"
  then show False
    using assms collide[of i j] collide[of j i] by (cases i j rule: linorder_cases)
      (simp_all add: ring_index_add)
qed

lemma ring_push_ok:
  assumes ok: "ring_ok cap r" and room: "\<not> ring_full cap r"
  shows "ring_ok cap (ring_push cap e r)"
    and "ring_contents cap (ring_push cap e r) = ring_contents cap r @ [e]"
proof -
  define n where "n = unat (queue_head r - queue_tail r)"
  have len: "length (queue_slots r) = 2 ^ k" using ok by (simp add: ring_ok_def unat_cap)
  have n: "n < 2 ^ k"
    using room by (simp add: ring_full_def n_def word_le_nat_alt unat_cap)
  then have n64: "n < 2 ^ 64" using k_small
    by (metis less_trans one_less_numeral_iff power_strict_increasing_iff semiring_norm(76))
  have head: "queue_head r = queue_tail r + of_nat n" by (simp add: n_def)
  have gap: "unat (queue_head r + 1 - queue_tail r) = Suc n"
  proof -
    have "queue_head r + 1 - queue_tail r = of_nat (Suc n)" by (simp add: head)
    moreover have "Suc n < 2 ^ 64"
      using n k_small by (metis Suc_leI le_less_trans one_less_numeral_iff
        power_strict_increasing_iff semiring_norm(76))
    ultimately show ?thesis by (simp add: unat_of_nat_mod del: of_nat_Suc)
  qed
  show "ring_ok cap (ring_push cap e r)"
    using len n gap by (simp add: ring_ok_def ring_push_def unat_cap)
  have old: "(queue_slots r)[ring_index cap (queue_tail r + of_nat n) := e] !
        ring_index cap (queue_tail r + of_nat i)
      = queue_slots r ! ring_index cap (queue_tail r + of_nat i)" if "i < n" for i
  proof (rule nth_list_update_neq)
    show "ring_index cap (queue_tail r + of_nat n) \<noteq> ring_index cap (queue_tail r + of_nat i)"
      using ring_index_inj[of n i "queue_tail r"] that n by fastforce
  qed
  have new: "(queue_slots r)[ring_index cap (queue_tail r + of_nat n) := e] !
        ring_index cap (queue_tail r + of_nat n) = e"
    using len ring_index_less[of "queue_tail r + of_nat n"] by (simp add: unat_cap)
  have "ring_contents cap (ring_push cap e r) =
      map (\<lambda>i. (queue_slots r)[ring_index cap (queue_tail r + of_nat n) := e] !
        ring_index cap (queue_tail r + of_nat i)) [0..<Suc n]"
    unfolding ring_contents_def ring_push_def head[symmetric] by (simp add: gap del: upt_Suc)
  also have "\<dots> = ring_contents cap r @ [e]"
    unfolding upt_snoc_map new ring_contents_def n_def[symmetric]
    by (intro arg_cong2[where f = "(@)"] refl map_nth_upt_cong old)
  finally show "ring_contents cap (ring_push cap e r) = ring_contents cap r @ [e]" .
qed

end

sublocale power_of_two_capacity \<subseteq> ring: bounded_fifo "unat cap" "ring_ok cap" "ring_contents cap"
    "ring_full cap" ring_empty "ring_push cap" "ring_front cap" ring_pop
proof
  fix q :: "'a spsc_ring" and e :: 'a
  show "ring_ok cap q \<Longrightarrow> length (ring_contents cap q) \<le> unat cap" by (simp add: ring_ok_def)
  show "ring_ok cap q \<Longrightarrow> ring_full cap q = (length (ring_contents cap q) = unat cap)"
    by (rule ring_full_iff)
  show "ring_ok cap q \<Longrightarrow> ring_empty q = (ring_contents cap q = [])"
    by (simp add: ring_empty_contents)
  show "ring_ok cap q \<Longrightarrow> \<not> ring_full cap q \<Longrightarrow> ring_ok cap (ring_push cap e q)"
    by (rule ring_push_ok)
  show "ring_ok cap q \<Longrightarrow> \<not> ring_full cap q \<Longrightarrow>
      ring_contents cap (ring_push cap e q) = ring_contents cap q @ [e]" by (rule ring_push_ok)
  show "ring_ok cap q \<Longrightarrow> \<not> ring_empty q \<Longrightarrow> ring_front cap q = hd (ring_contents cap q)"
    by (simp add: ring_front_hd)
  show "ring_ok cap q \<Longrightarrow> \<not> ring_empty q \<Longrightarrow> ring_ok cap (ring_pop q)" by (rule ring_pop_ok)
  show "ring_ok cap q \<Longrightarrow> \<not> ring_empty q \<Longrightarrow>
      ring_contents cap (ring_pop q) = tl (ring_contents cap q)" by (simp add: ring_pop_contents)
qed

interpretation slot_ring: power_of_two_capacity 32 5
  by unfold_locales simp_all

interpretation iq_ring: power_of_two_capacity 64 6
  by unfold_locales simp_all

declare ring_contents_length [simp del]

end
