(* ===== verification/Jbpf_Io.thy ===== *)
theory Jbpf_Io
  imports E3_Config
begin

text \<open>
  The messages that cross the jbpf boundary and the record of the controller's calls into jbpf.
  jbpf is a submodule that is not part of the repository: its functions are not modelled, a call
  is an entry of the trace \<open>jbpf_env\<close> and its return code is an argument of the operation that makes it.
  The message structs are those of \<^verbatim>\<open>codelets/include/jbpf_e3_slot_api.h\<close> and
  \<^verbatim>\<open>include/ecpri_iq_data.h\<close>; reserved bytes, always zero, are left out.
\<close>

type_synonym buf = nat

section \<open>Control-input messages\<close>

record e3_slot_sel =
  sel_version :: u16
  sel_nof_slots_per_frame :: u16
  sel_slot_mask :: u64
  sel_sfn_mod :: u16
  sel_sfn_offset :: u16

definition E3_SLOT_SEL_VERSION :: u16 where
  "E3_SLOT_SEL_VERSION = 1"

record e3_shm_cfg =
  cfg_version :: u16
  cfg_epoch :: u16
  cfg_name :: string
  cfg_nof_symbols :: u16
  cfg_nof_subcarriers :: u16
  cfg_scale :: f32

definition E3_SHM_CFG_VERSION :: u16 where
  "E3_SHM_CFG_VERSION = 1"

text \<open>The size of \<^verbatim>\<open>e3_shm_cfg::name\<close>, terminator included.\<close>

definition shm_cfg_name_size :: nat where
  "shm_cfg_name_size = 64"

record prb_filter_config =
  expected_num_prbu :: u16

datatype ctrl_msg =
    ShmCfgMsg e3_shm_cfg
  | SlotSelMsg e3_slot_sel
  | PrbFilterMsg prb_filter_config

section \<open>Codelet output\<close>

record e3_slot_desc =
  d_gnb_ts_ns :: u64
  d_codelet_entry_ts_ns :: u64
  d_codelet_ts_ns :: u64
  d_bytes_written :: u32
  d_fh_write_index :: u32
  d_fh_buffer_index :: u8
  d_flags :: u8
  d_sfn :: u16
  d_subframe_id :: u16
  d_slot_id :: u16
  d_sector_id :: u16
  d_nof_ports :: u16
  d_nof_symbols :: u16
  d_nof_subcarriers :: u16

definition E3_SLOT_FLAG_TRUNCATED :: u8 where
  "E3_SLOT_FLAG_TRUNCATED = 1"

definition E3_SLOT_FLAG_FILTERED :: u8 where
  "E3_SLOT_FLAG_FILTERED = 2"

definition MAX_IQ_PAYLOAD_BYTES :: nat where
  "MAX_IQ_PAYLOAD_BYTES = 8192"

record iq_sample_data =
  iq_gnb_ts_ns :: u64
  iq_codelet_ts_ns :: u64
  iq_timestamp :: u64
  iq_direction :: u8
  iq_frame_id :: u8
  iq_comp_method :: u8
  iq_iq_width :: u8
  iq_subframe_id :: u16
  iq_slot_id :: u16
  iq_symbol_id :: u16
  iq_section_id :: u16
  iq_start_prbu :: u16
  iq_num_prbu :: u16
  iq_payload_size :: u16
  iq_payload :: "u8 list"

text \<open>\<^verbatim>\<open>JBPF_CODELET_SUCCESS\<close> and \<^verbatim>\<open>JBPF_CODELET_FAILURE\<close>.\<close>

datatype codelet_ret = CODELET_SUCCESS | CODELET_FAILURE

section \<open>Codelet loading over the LCM socket\<close>

text \<open>The fixed-size string fields of the LCM requests; the sizes are jbpf's.\<close>

record lcm_limits =
  address_len :: nat
  codeletset_name_len :: nat
  codelet_name_len :: nat
  hook_name_len :: nat
  path_len :: nat
  channel_name_len :: nat

text \<open>\<^verbatim>\<open>strncpy(dst, s, n - 1)\<close> into a zeroed field of size \<open>n\<close>, read back as a C string.\<close>

definition strncpy_field :: "nat \<Rightarrow> string \<Rightarrow> string" where
  "strncpy_field n s = take (n - 1) s"

record io_channel_desc =
  ch_name :: string
  ch_stream_id :: stream_id
  ch_has_serde :: bool

record codelet_descriptor =
  codelet_name :: string
  hook_name :: string
  codelet_path :: string
  priority :: nat
  runtime_threshold :: nat
  num_linked_maps :: nat
  in_io_channel :: "io_channel_desc list"
  out_io_channel :: "io_channel_desc list"

datatype lcm_request =
    LoadReq (lcm_address: string) (codeletset_id: string)
      (codelet_descriptors: "codelet_descriptor list")
  | UnloadReq (lcm_address: string) (codeletset_id: string)

section \<open>The calls the controller makes\<close>

text \<open>The calls in the order they are made, latest last.\<close>

datatype jbpf_call =
    Release buf
  | Send stream_id ctrl_msg
  | Lcm lcm_request

type_synonym jbpf_env = "jbpf_call list"

definition release_buf :: "buf \<Rightarrow> jbpf_env \<Rightarrow> jbpf_env" where
  "release_buf b env = env @ [Release b]"

definition send_msg :: "stream_id \<Rightarrow> ctrl_msg \<Rightarrow> jbpf_env \<Rightarrow> jbpf_env" where
  "send_msg sid m env = env @ [Send sid m]"

definition lcm_send :: "lcm_request \<Rightarrow> jbpf_env \<Rightarrow> jbpf_env" where
  "lcm_send q env = env @ [Lcm q]"

fun released :: "jbpf_env \<Rightarrow> buf list" where
  "released [] = []"
| "released (Release b # env) = b # released env"
| "released (_ # env) = released env"

fun sent :: "jbpf_env \<Rightarrow> (stream_id \<times> ctrl_msg) list" where
  "sent [] = []"
| "sent (Send sid m # env) = (sid, m) # sent env"
| "sent (_ # env) = sent env"

lemma released_append [simp]: "released (a @ b) = released a @ released b"
  by (induction a rule: released.induct) simp_all

lemma sent_append [simp]: "sent (a @ b) = sent a @ sent b"
  by (induction a rule: sent.induct) simp_all

lemma env_calls [simp]:
  "released (release_buf b env) = released env @ [b]" "sent (release_buf b env) = sent env"
  "released (send_msg sid m env) = released env" "sent (send_msg sid m env) = sent env @ [(sid, m)]"
  "released (lcm_send q env) = released env" "sent (lcm_send q env) = sent env"
  by (simp_all add: release_buf_def send_msg_def lcm_send_def)

lemma fold_release: "fold release_buf bs env = env @ map Release bs"
  by (induction bs arbitrary: env) (simp_all add: release_buf_def)

lemma released_map [simp]: "released (map Release bs) = bs"
  by (induction bs) simp_all

lemma sent_map [simp]: "sent (map Release bs) = []"
  by (induction bs) simp_all

section \<open>Clock arithmetic shared by the pipelines\<close>

text \<open>\<^verbatim>\<open>tv_sec * 1000000000ULL + tv_nsec\<close> at 64 bits.\<close>

definition timespec_ns :: "u64 \<Rightarrow> u64 \<Rightarrow> u64" where
  "timespec_ns tv_sec tv_nsec = tv_sec * 1000000000 + tv_nsec"

definition us31 :: "u64 \<Rightarrow> u32" where
  "us31 ns = ucast ((ns div 1000) AND 0x7FFFFFFF)"

definition recv_us_of :: "u32 \<Rightarrow> u32 \<Rightarrow> u32" where
  "recv_us_of now_us codelet_us =
     (if codelet_us > 0 then (now_us - codelet_us) AND 0x7FFFFFFF else 0)"

lemma unat_us31: "unat (us31 ns) = unat ns div 1000 mod 2 ^ 31"
proof -
  have "unat ((ns div 1000) AND mask 31) = unat ns div 1000 mod 2 ^ 31"
    by (simp add: unat_and_mask unat_div)
  then have *: "unat ((ns div 1000) AND 0x7FFFFFFF) = unat ns div 1000 mod 2 ^ 31"
    by (simp add: mask_eq_exp_minus_1)
  show ?thesis
    unfolding us31_def unsigned_ucast_eq * by (simp add: take_bit_eq_mod)
qed

text \<open>
  The 31-bit microsecond difference is the elapsed time modulo \<open>2 ^ 31\<close>, also across a wrap of the
  31-bit stamps.
\<close>

lemma unat_recv_us:
  assumes "codelet_us > 0"
  shows "int (unat (recv_us_of now_us codelet_us))
    = (int (unat now_us) - int (unat codelet_us)) mod 2 ^ 31"
proof -
  have "unat ((now_us - codelet_us) AND mask 31) = unat (now_us - codelet_us) mod 2 ^ 31"
    by (rule unat_and_mask)
  then have "int (unat (recv_us_of now_us codelet_us)) = uint (now_us - codelet_us) mod 2 ^ 31"
    using assms by (simp add: recv_us_of_def mask_eq_exp_minus_1 zmod_int)
  also have "\<dots> = (uint now_us - uint codelet_us) mod 2 ^ 32 mod 2 ^ 31"
    by (simp add: uint_word_ariths)
  also have "\<dots> = (uint now_us - uint codelet_us) mod 2 ^ 31"
    by (rule mod_mod_cancel) simp
  finally show ?thesis by simp
qed

lemma recv_us_elapsed:
  assumes "codelet \<le> now" "us31 codelet \<noteq> 0"
  shows "unat (recv_us_of (us31 now) (us31 codelet))
    = (unat now div 1000 - unat codelet div 1000) mod 2 ^ 31"
proof -
  let ?n = "unat now div 1000" and ?c = "unat codelet div 1000"
  have le: "?c \<le> ?n" using assms(1) by (simp add: word_le_nat_alt div_le_mono)
  have "us31 codelet > 0" using assms(2) by (simp add: word_gt_0)
  then have "int (unat (recv_us_of (us31 now) (us31 codelet)))
      = (int (?n mod 2 ^ 31) - int (?c mod 2 ^ 31)) mod 2 ^ 31"
    by (simp only: unat_recv_us unat_us31)
  also have "\<dots> = (int ?n - int ?c) mod 2 ^ 31"
    by (simp add: zmod_int mod_diff_eq)
  also have "\<dots> = int ((?n - ?c) mod 2 ^ 31)"
    using le by (simp add: zmod_int)
  finally show ?thesis by (simp only: of_nat_eq_iff)
qed

end
