(* ===== verification/Jbpf_Dispatcher.thy ===== *)
theory Jbpf_Dispatcher
  imports Jbpf_Io
begin

text \<open>
  The routing of jbpf output buffers to service models (\<^verbatim>\<open>include/jbpf_dispatcher.h\<close>).  A handler
  is a function on the state \<open>'s\<close> of whoever registered it, and releasing a buffer is a parameter.
  The locale \<open>buffer_owner\<close> is the contract of a stream registered with \<^verbatim>\<open>defer_release = true\<close>;
  under it a dispatch neither loses nor duplicates a buffer.
\<close>

section \<open>Keys\<close>

definition JBPF_IO_STREAM_ID_LEN :: nat where
  "JBPF_IO_STREAM_ID_LEN = 16"

text \<open>\<^verbatim>\<open>StreamKey::operator==\<close>, \<^verbatim>\<open>memcmp\<close> over the whole id.\<close>

definition StreamKey_eq :: "stream_id \<Rightarrow> stream_id \<Rightarrow> bool" where
  "StreamKey_eq a b \<longleftrightarrow> take JBPF_IO_STREAM_ID_LEN a = take JBPF_IO_STREAM_ID_LEN b"

definition fnv_prime :: u64 where
  "fnv_prime = 1099511628211"

definition fnv_step :: "u64 \<Rightarrow> u8 \<Rightarrow> u64" where
  "fnv_step h b = (h XOR ucast b) * fnv_prime"

definition StreamKeyHash :: "stream_id \<Rightarrow> u64" where
  "StreamKeyHash key =
     fold (\<lambda>i h. fnv_step h (key ! i)) [0..<JBPF_IO_STREAM_ID_LEN] 14695981039346656037"

section \<open>The handler table\<close>

type_synonym 's BufferHandler = "stream_id \<Rightarrow> buf list \<Rightarrow> 's \<Rightarrow> 's"

text \<open>An empty \<^verbatim>\<open>std::function\<close> is \<open>None\<close>.\<close>

record 's StreamEntry =
  entry_handler :: "'s BufferHandler option"
  entry_defer_release :: bool

type_synonym 's handlers = "stream_id \<rightharpoonup> 's StreamEntry"

definition register_stream ::
    "stream_id \<Rightarrow> 's BufferHandler option \<Rightarrow> bool \<Rightarrow> 's handlers \<Rightarrow> 's handlers" where
  "register_stream sid h defer hs =
     hs(sid \<mapsto> \<lparr>entry_handler = h, entry_defer_release = defer\<rparr>)"

definition unregister_stream :: "stream_id \<Rightarrow> 's handlers \<Rightarrow> 's handlers" where
  "unregister_stream sid hs = hs(sid := None)"

section \<open>Dispatch\<close>

text \<open>The part under the mutex: the handler and the flag are copied out of the table.\<close>

definition lookup_handler :: "'s handlers \<Rightarrow> stream_id \<Rightarrow> 's BufferHandler option \<times> bool" where
  "lookup_handler hs sid =
     (case hs sid of
        None \<Rightarrow> (None, False)
      | Some e \<Rightarrow> (entry_handler e, entry_defer_release e))"

text \<open>
  The part after the mutex is released: the copied handler is called, or the stream has none, and the batch
  is released unless a handler took it over.
\<close>

definition dispatch_call ::
    "(buf \<Rightarrow> 's \<Rightarrow> 's) \<Rightarrow> 's BufferHandler option \<times> bool \<Rightarrow> stream_id \<Rightarrow> buf list \<Rightarrow> 's \<Rightarrow> 's" where
  "dispatch_call release entry sid batch s =
     (let (handler, defer_release) = entry;
          s' = (case handler of Some h \<Rightarrow> h sid batch s | None \<Rightarrow> s)
      in if Option.is_none handler \<or> \<not> defer_release then fold release batch s' else s')"

text \<open>
  The two parts in a row, with nothing in between.  \<open>bufs\<close> holds at least \<open>num_bufs\<close> pointers; a null
  \<^verbatim>\<open>stream_id\<close> is \<open>None\<close>.
\<close>

definition dispatch ::
    "(buf \<Rightarrow> 's \<Rightarrow> 's) \<Rightarrow> 's handlers \<Rightarrow> stream_id option \<Rightarrow> buf list \<Rightarrow> i32 \<Rightarrow> 's \<Rightarrow> 's" where
  "dispatch release hs stream_id bufs num_bufs s =
     (case stream_id of
        None \<Rightarrow> s
      | Some sid \<Rightarrow>
          if sint num_bufs \<le> 0 then s
          else dispatch_call release (lookup_handler hs sid) sid (take (nat (sint num_bufs)) bufs) s)"

text \<open>
  \<^verbatim>\<open>jbpf_io_channel_handle_out_bufs\<close> calls the trampoline once per batch of the batches it finds.
\<close>

fun poll ::
    "(buf \<Rightarrow> 's \<Rightarrow> 's) \<Rightarrow> 's handlers \<Rightarrow> (stream_id option \<times> buf list \<times> i32) list \<Rightarrow> 's \<Rightarrow> 's" where
  "poll release hs [] s = s"
| "poll release hs ((sid, bufs, n) # batches) s =
     poll release hs batches (dispatch release hs sid bufs n s)"

section \<open>Facts about the table and the hash\<close>

lemma lookup_register [simp]:
  "lookup_handler (register_stream sid h defer hs) sid' =
     (if sid' = sid then (h, defer) else lookup_handler hs sid')"
  by (simp add: lookup_handler_def register_stream_def)

lemma lookup_unregister [simp]:
  "lookup_handler (unregister_stream sid hs) sid' =
     (if sid' = sid then (None, False) else lookup_handler hs sid')"
  by (simp add: lookup_handler_def unregister_stream_def)

lemma StreamKey_eq_iff:
  "length a = JBPF_IO_STREAM_ID_LEN \<Longrightarrow> length b = JBPF_IO_STREAM_ID_LEN \<Longrightarrow>
     StreamKey_eq a b \<longleftrightarrow> a = b"
  by (simp add: StreamKey_eq_def)

text \<open>Multiplying by the odd FNV prime is invertible modulo \<open>2 ^ 64\<close>.\<close>

lemma fnv_prime_inverse: "fnv_prime * 14886173955864302971 = 1"
  by (simp add: fnv_prime_def)

lemma fnv_mult_inj: "x * fnv_prime = y * fnv_prime \<Longrightarrow> x = y"
proof -
  assume "x * fnv_prime = y * fnv_prime"
  then have "x * (fnv_prime * 14886173955864302971) = y * (fnv_prime * 14886173955864302971)"
    by (simp only: mult.assoc[symmetric])
  then show "x = y" by (simp only: fnv_prime_inverse mult_1_right)
qed

lemma xor_left_cancel: "(a XOR c) = (b XOR c) \<longleftrightarrow> a = b" for a b c :: "'a::len word"
  by (metis xor.assoc xor.right_neutral xor_self_eq)

lemma fnv_step_inj_hash: "fnv_step h b = fnv_step h' b \<longleftrightarrow> h = h'"
  by (auto simp: fnv_step_def xor_left_cancel dest: fnv_mult_inj)

lemma fnv_step_inj_byte: "fnv_step h b = fnv_step h b' \<longleftrightarrow> b = b'"
proof
  assume "fnv_step h b = fnv_step h b'"
  then have "(ucast b :: u64) XOR h = ucast b' XOR h"
    by (auto simp: fnv_step_def xor.commute dest: fnv_mult_inj)
  then have "(ucast b :: u64) = ucast b'" by (simp only: xor_left_cancel)
  then show "b = b'" by (metis unat_ucast_sizes(3) word_unat_eq_iff)
qed simp

lemma fnv_fold_inj: "fold (\<lambda>i h. fnv_step h (k ! i)) is h = fold (\<lambda>i h. fnv_step h (k ! i)) is h' \<longleftrightarrow> h = h'"
  by (induction "is" arbitrary: h h') (simp_all add: fnv_step_inj_hash)

lemma StreamKeyHash_fold:
  "i < JBPF_IO_STREAM_ID_LEN \<Longrightarrow>
     StreamKeyHash key =
       fold (\<lambda>j h. fnv_step h (key ! j)) [Suc i..<JBPF_IO_STREAM_ID_LEN]
         (fnv_step (fold (\<lambda>j h. fnv_step h (key ! j)) [0..<i] 14695981039346656037) (key ! i))"
  using upt_add_eq_append[of 0 i "JBPF_IO_STREAM_ID_LEN - i"]
  by (simp add: StreamKeyHash_def upt_rec[of i])

text \<open>FNV-1a separates any two stream ids that differ in exactly one byte, as the three ids of the slot
  codelet (output, \<^verbatim>\<open>shm_in\<close>, \<^verbatim>\<open>sel_in\<close>) do: replacing byte \<open>i\<close> changes the hash exactly when it
  changes the byte.\<close>

theorem StreamKeyHash_one_byte:
  assumes "length key = JBPF_IO_STREAM_ID_LEN" and "i < JBPF_IO_STREAM_ID_LEN"
  shows "StreamKeyHash (key[i := b]) = StreamKeyHash key \<longleftrightarrow> b = key ! i"
proof -
  have pre: "fold (\<lambda>j h. fnv_step h (key[i := b] ! j)) [0..<i] h
      = fold (\<lambda>j h. fnv_step h (key ! j)) [0..<i] h" for h
    by (rule fold_cong) simp_all
  have post: "fold (\<lambda>j h. fnv_step h (key[i := b] ! j)) [Suc i..<JBPF_IO_STREAM_ID_LEN] h
      = fold (\<lambda>j h. fnv_step h (key ! j)) [Suc i..<JBPF_IO_STREAM_ID_LEN] h" for h
    by (rule fold_cong) simp_all
  show ?thesis
    using assms by (simp add: StreamKeyHash_fold[of i] pre post fnv_fold_inj fnv_step_inj_byte)
qed

theorem StreamKeyHash_one_byte_witness:
  "StreamKeyHash ((replicate 16 0)[15 := 1]) = StreamKeyHash (replicate 16 (0 :: u8)) \<longleftrightarrow> (1 :: u8) = 0"
  using StreamKeyHash_one_byte[of "replicate 16 0" 15 1] by (simp add: JBPF_IO_STREAM_ID_LEN_def)

section \<open>The contract of an owning handler\<close>

locale buffer_owner =
  fixes ok :: "'s \<Rightarrow> bool"
    and held :: "'s \<Rightarrow> buf multiset"
    and returned :: "'s \<Rightarrow> buf multiset"
    and release :: "buf \<Rightarrow> 's \<Rightarrow> 's"
    and handle :: "'s BufferHandler"
  assumes release_ok: "ok s \<Longrightarrow> ok (release b s)"
    and release_held: "ok s \<Longrightarrow> held (release b s) = held s"
    and release_returned: "ok s \<Longrightarrow> returned (release b s) = returned s + {#b#}"
    and handle_ok: "ok s \<Longrightarrow> ok (handle sid bs s)"
    and handle_conserves:
      "ok s \<Longrightarrow> held (handle sid bs s) + returned (handle sid bs s) = held s + returned s + mset bs"
begin

lemma release_all:
  "ok s \<Longrightarrow> ok (fold release bs s) \<and> held (fold release bs s) = held s
     \<and> returned (fold release bs s) = returned s + mset bs"
  by (induction bs arbitrary: s) (simp_all add: release_ok release_held release_returned)

lemma dispatch_conserves:
  assumes "ok s" and "lookup_handler hs sid = (Some handle, True) \<or> fst (lookup_handler hs sid) = None"
    and "0 < sint n"
  shows "ok (dispatch release hs (Some sid) bufs n s)
    \<and> held (dispatch release hs (Some sid) bufs n s) + returned (dispatch release hs (Some sid) bufs n s)
      = held s + returned s + mset (take (nat (sint n)) bufs)"
proof (cases "lookup_handler hs sid = (Some handle, True)")
  case True
  then show ?thesis using assms handle_ok handle_conserves
    by (simp add: dispatch_def dispatch_call_def)
next
  case False
  then have "fst (lookup_handler hs sid) = None" using assms(2) by blast
  then obtain d where "lookup_handler hs sid = (None, d)" by (metis prod.collapse)
  then show ?thesis using assms release_all[OF assms(1)]
    by (simp add: dispatch_def dispatch_call_def ac_simps)
qed

text \<open>Every batch of a poll, on the owned stream or on streams nobody registered.\<close>

definition delivered :: "(stream_id option \<times> buf list \<times> i32) list \<Rightarrow> buf multiset" where
  "delivered batches =
     sum_list (map (\<lambda>(sid, bufs, n). if sid = None then {#} else mset (take (nat (sint n)) bufs)) batches)"

lemma poll_conserves:
  assumes "ok s"
    and "\<And>sid. lookup_handler hs sid = (Some handle, True) \<or> fst (lookup_handler hs sid) = None"
  shows "ok (poll release hs batches s)
    \<and> held (poll release hs batches s) + returned (poll release hs batches s)
      = held s + returned s + delivered batches"
  using assms(1)
proof (induction batches arbitrary: s)
  case (Cons x xs)
  obtain sid bufs n where x: "x = (sid, bufs, n)" by (cases x)
  let ?s = "dispatch release hs sid bufs n s"
  have step: "ok ?s \<and> held ?s + returned ?s = held s + returned s + delivered [x]"
  proof (cases sid)
    case (Some i)
    then show ?thesis
      using dispatch_conserves[OF Cons.prems assms(2), of n i bufs] Cons.prems x
      by (cases "0 < sint n") (simp_all add: dispatch_def delivered_def)
  qed (simp add: dispatch_def delivered_def x Cons.prems)
  then show ?case
    using Cons.IH[of ?s] x by (simp add: delivered_def ac_simps)
qed (simp add: delivered_def)

end

end
