(* ===== verification/Lifecycle.thy ===== *)
theory Lifecycle
  imports E3_Prelude
begin

text \<open>
  The start/stop contract that both pipelines and the service models share: \<^verbatim>\<open>start()\<close> is idempotent,
  either leaves the object running or reports an error, and never reaches \<^verbatim>\<open>std::terminate\<close>;
  \<^verbatim>\<open>stop()\<close> is idempotent and leaves it stopped.  The locale proves what every client may then do:
  any sequence of calls.
\<close>

text \<open>Assigning to a joinable \<^verbatim>\<open>std::thread\<close> calls \<^verbatim>\<open>std::terminate\<close>.\<close>

datatype start_outcome = Returned ErrorCode | Terminated

locale lifecycle =
  fixes inv :: "'s \<Rightarrow> bool"
    and running :: "'s \<Rightarrow> bool"
    and start :: "'a \<Rightarrow> 's \<Rightarrow> start_outcome \<times> 's"
    and stop :: "'a \<Rightarrow> 's \<Rightarrow> 's"
  assumes start_inv: "inv s \<Longrightarrow> inv (snd (start a s))"
    and start_running: "running s \<Longrightarrow> start a s = (Returned SUCCESS, s)"
    and start_safe: "inv s \<Longrightarrow> fst (start a s) \<noteq> Terminated"
    and start_success: "inv s \<Longrightarrow> fst (start a s) = Returned SUCCESS \<longleftrightarrow> running (snd (start a s))"
    and stop_inv: "inv s \<Longrightarrow> inv (stop a s)"
    and stop_stopped: "\<not> running (stop a s)"
    and stop_idle: "\<not> running s \<Longrightarrow> stop a s = s"
begin

text \<open>A history of calls, \<open>True\<close> for start, and the outcomes of its starts.\<close>

fun calls :: "(bool \<times> 'a) list \<Rightarrow> 's \<Rightarrow> start_outcome list \<times> 's" where
  "calls [] s = ([], s)"
| "calls ((True, a) # cs) s =
     (let (out, s1) = start a s; (outs, s2) = calls cs s1 in (out # outs, s2))"
| "calls ((False, a) # cs) s = calls cs (stop a s)"

lemma calls_inv: "inv s \<Longrightarrow> inv (snd (calls cs s))"
  by (induction cs s rule: calls.induct) (auto simp: Let_def start_inv stop_inv split: prod.splits
      dest: start_inv stop_inv, metis snd_conv start_inv)

lemma calls_never_terminate: "inv s \<Longrightarrow> Terminated \<notin> set (fst (calls cs s))"
proof (induction cs s rule: calls.induct)
  case (2 a cs s)
  obtain out s1 where st: "start a s = (out, s1)" by fastforce
  then have "inv s1" "out \<noteq> Terminated" using start_inv[OF 2(2), of a] start_safe[OF 2(2), of a] by simp_all
  then show ?case using 2(1)[OF st[symmetric] refl] st by (auto split: prod.splits)
qed (simp_all add: stop_inv)

lemma stop_twice: "stop b (stop a s) = stop a s"
  by (rule stop_idle[OF stop_stopped])

lemma start_twice: "inv s \<Longrightarrow> fst (start a s) = Returned SUCCESS \<Longrightarrow>
    start b (snd (start a s)) = (Returned SUCCESS, snd (start a s))"
  by (simp add: start_running start_success)

end

end
