(* ===== verification/Pipeline_System.thy ===== *)
theory Pipeline_System
  imports Jbpf_Dispatcher Lifecycle
begin

text \<open>
  A pipeline object, the dispatcher it registers with and the jbpf calls made on its behalf, as one
  system.  A step is one call: \<^verbatim>\<open>start\<close>, \<^verbatim>\<open>stop\<close> or \<^verbatim>\<open>register_consumer\<close> from a control thread, one batch
  that the poll thread dispatches, or one iteration of the worker.  Both pipelines are instances; the
  locale \<open>owning_pipeline\<close> states what an instance must promise so that no delivered buffer is lost or
  released twice, and proves that once.
\<close>

type_synonym ('i, 'p) cb_state = "'i \<times> 'p \<times> jbpf_env"

definition release_into :: "buf \<Rightarrow> ('i, 'p) cb_state \<Rightarrow> ('i, 'p) cb_state" where
  "release_into b = (\<lambda>(i, p, env). (i, p, release_buf b env))"

record ('i, 'p, 'w, 'h, 'c) pipe_ops =
  op_sid :: stream_id
  op_callback :: "('i, 'p) cb_state BufferHandler"
  op_start :: "i32 \<Rightarrow> 'p \<Rightarrow> ('i, 'p) cb_state handlers \<Rightarrow> jbpf_env
    \<Rightarrow> start_outcome \<times> 'p \<times> ('i, 'p) cb_state handlers \<times> jbpf_env"
  op_stop :: "'p \<Rightarrow> ('i, 'p) cb_state handlers \<Rightarrow> jbpf_env
    \<Rightarrow> 'p \<times> ('i, 'p) cb_state handlers \<times> jbpf_env"
  op_register :: "'c \<Rightarrow> 'p \<Rightarrow> 'p"
  op_running :: "'p \<Rightarrow> bool"
  op_worker :: "'h \<Rightarrow> 'p \<times> jbpf_env \<times> 'w \<Rightarrow> ('p \<times> jbpf_env \<times> 'w) option"

text \<open>
  Two observers are kept beside the state: the buffers jbpf has handed over so far, and whether the
  process was terminated.
\<close>

record ('i, 'p, 'w) pipe_sys =
  y_pipe :: 'p
  y_handlers :: "('i, 'p) cb_state handlers"
  y_env :: jbpf_env
  y_world :: 'w
  y_delivered :: "buf multiset"
  y_terminated :: bool

definition sys_init :: "'p \<Rightarrow> 'w \<Rightarrow> ('i, 'p, 'w) pipe_sys" where
  "sys_init p w =
     \<lparr>y_pipe = p, y_handlers = Map.empty, y_env = [], y_world = w, y_delivered = {#},
      y_terminated = False\<rparr>"

inductive pipe_step ::
    "('i, 'p, 'w, 'h, 'c) pipe_ops \<Rightarrow> ('i, 'p, 'w) pipe_sys \<Rightarrow> ('i, 'p, 'w) pipe_sys \<Rightarrow> bool" for ops where
  step_start:
    "op_start ops rc (y_pipe s) (y_handlers s) (y_env s) = (out, p, hs, env) \<Longrightarrow>
     pipe_step ops s (s\<lparr>y_pipe := p, y_handlers := hs, y_env := env,
       y_terminated := (y_terminated s \<or> out = Terminated)\<rparr>)"
| step_stop:
    "op_stop ops (y_pipe s) (y_handlers s) (y_env s) = (p, hs, env) \<Longrightarrow>
     pipe_step ops s (s\<lparr>y_pipe := p, y_handlers := hs, y_env := env\<rparr>)"
| step_consumer:
    "\<not> op_running ops (y_pipe s) \<Longrightarrow> pipe_step ops s (s\<lparr>y_pipe := op_register ops c (y_pipe s)\<rparr>)"
| step_batch:
    "dispatch release_into (y_handlers s) (Some sid) bufs n (i, y_pipe s, y_env s) = (i', p, env) \<Longrightarrow>
     pipe_step ops s (s\<lparr>y_pipe := p, y_env := env,
       y_delivered := y_delivered s + mset (take (nat (sint n)) bufs)\<rparr>)"
| step_worker:
    "op_worker ops h (y_pipe s, y_env s, y_world s) = Some (p, env, w) \<Longrightarrow>
     pipe_step ops s (s\<lparr>y_pipe := p, y_env := env, y_world := w\<rparr>)"

lemma batch_idle: "sint n \<le> 0 \<Longrightarrow> dispatch rel hs sid bufs n s = s"
  by (simp add: dispatch_def split: option.splits)

lemma release_into_all: "fold release_into bs (i, p, env) = (i, p, env @ map Release bs)"
  by (induction bs arbitrary: env) (simp_all add: release_into_def release_buf_def)

text \<open>Dispatching when the stream is nobody's, and when it belongs to an owning callback.\<close>

lemma call_unknown:
  "dispatch_call release_into (None, d) sid bs (i, p, env) = (i, p, env @ map Release bs)"
  by (simp add: dispatch_call_def release_into_all)

lemma call_owned: "dispatch_call release (Some cb, True) sid bs s = cb sid bs s"
  by (simp add: dispatch_call_def)

lemma dispatch_unknown:
  "lookup_handler hs sid = (None, False) \<Longrightarrow>
     dispatch release_into hs (Some sid) bufs n (i, p, env)
       = (i, p, env @ map Release (take (nat (sint n)) bufs))"
  by (simp add: dispatch_def call_unknown)

lemma dispatch_owned:
  "lookup_handler hs sid = (Some cb, True) \<Longrightarrow> 0 < sint n \<Longrightarrow>
     dispatch release_into hs (Some sid) bufs n s = cb sid (take (nat (sint n)) bufs) s"
  by (simp add: dispatch_def call_owned)

locale owning_pipeline =
  fixes ops :: "('i, 'p, 'w, 'h, 'c) pipe_ops"
    and core :: "'p \<Rightarrow> bool"
    and held :: "'p \<Rightarrow> buf multiset"
  assumes start_law: "core p \<Longrightarrow> op_start ops rc p hs env = (out, p', hs', env') \<Longrightarrow>
      core p' \<and> out \<noteq> Terminated \<and> held p' = held p \<and> released env' = released env
      \<and> hs' = (if op_running ops p' \<and> \<not> op_running ops p
          then register_stream (op_sid ops) (Some (op_callback ops)) True hs else hs)
      \<and> (op_running ops p \<longrightarrow> op_running ops p')"
    and stop_law: "core p \<Longrightarrow> op_stop ops p hs env = (p', hs', env') \<Longrightarrow>
      core p' \<and> \<not> op_running ops p' \<and> mset (released env') + held p' = mset (released env) + held p
      \<and> hs' = (if op_running ops p then unregister_stream (op_sid ops) hs else hs)"
    and register_law: "core p \<Longrightarrow> \<not> op_running ops p \<Longrightarrow>
      core (op_register ops c p) \<and> held (op_register ops c p) = held p
      \<and> \<not> op_running ops (op_register ops c p)"
    and callback_law: "core p \<Longrightarrow> op_running ops p \<Longrightarrow> op_callback ops sid bs (i, p, env) = (i', p', env') \<Longrightarrow>
      core p' \<and> op_running ops p' \<and> mset (released env') + held p' = mset (released env) + held p + mset bs"
    and worker_law: "core p \<Longrightarrow> op_worker ops h (p, env, w) = Some (p', env', w') \<Longrightarrow>
      core p' \<and> op_running ops p' = op_running ops p
      \<and> mset (released env') + held p' = mset (released env) + held p"
    and idle_law: "core p \<Longrightarrow> \<not> op_running ops p \<Longrightarrow> held p = {#}"
begin

definition sys_ok :: "('i, 'p, 'w) pipe_sys \<Rightarrow> bool" where
  "sys_ok s \<longleftrightarrow> core (y_pipe s) \<and> \<not> y_terminated s
     \<and> (\<forall>sid. lookup_handler (y_handlers s) sid =
         (if sid = op_sid ops \<and> op_running ops (y_pipe s) then (Some (op_callback ops), True)
          else (None, False)))
     \<and> y_delivered s = mset (released (y_env s)) + held (y_pipe s)"

lemma init_ok: "core p \<Longrightarrow> \<not> op_running ops p \<Longrightarrow> sys_ok (sys_init p w)"
  by (simp add: sys_ok_def sys_init_def lookup_handler_def idle_law)

lemma batch_ok:
  assumes ok: "sys_ok s"
    and d: "dispatch release_into (y_handlers s) (Some sid) bufs n (i, y_pipe s, y_env s) = (i', p, env)"
  shows "sys_ok (s\<lparr>y_pipe := p, y_env := env, y_delivered := y_delivered s + mset (take (nat (sint n)) bufs)\<rparr>)"
proof -
  have core: "core (y_pipe s)" using ok by (simp add: sys_ok_def)
  consider (idle) "sint n \<le> 0" | (owned) "0 < sint n" "sid = op_sid ops" "op_running ops (y_pipe s)"
    | (unknown) "lookup_handler (y_handlers s) sid = (None, False)"
    using ok unfolding sys_ok_def by (metis not_le)
  then show ?thesis
  proof cases
    case idle
    then show ?thesis using ok d by (simp add: batch_idle sys_ok_def)
  next
    case unknown
    then show ?thesis using ok d by (auto simp: dispatch_unknown sys_ok_def ac_simps)
  next
    case owned
    then have "lookup_handler (y_handlers s) sid = (Some (op_callback ops), True)"
      using ok by (simp add: sys_ok_def)
    from dispatch_owned[OF this owned(1)] d
    have "op_callback ops sid (take (nat (sint n)) bufs) (i, y_pipe s, y_env s) = (i', p, env)" by metis
    from callback_law[OF core owned(3) this] owned ok show ?thesis
      by (simp add: sys_ok_def ac_simps)
  qed
qed

lemma step_ok: "pipe_step ops s s' \<Longrightarrow> sys_ok s \<Longrightarrow> sys_ok s'"
proof (induction rule: pipe_step.induct)
  case (step_start rc s out p hs env)
  then show ?case using start_law[OF _ step_start(1)] by (auto simp: sys_ok_def)
next
  case (step_stop s p hs env)
  then show ?case using stop_law[OF _ step_stop(1)] by (auto simp: sys_ok_def)
next
  case (step_consumer s c)
  then show ?case using register_law by (simp add: sys_ok_def)
next
  case (step_batch s sid bufs n i i' p env)
  then show ?case by (simp add: batch_ok)
next
  case (step_worker h s p env w)
  then show ?case using worker_law[OF _ step_worker(1)] by (simp add: sys_ok_def)
qed

lemma reachable_ok:
  assumes "(pipe_step ops)\<^sup>*\<^sup>* (sys_init p w) s" "core p" "\<not> op_running ops p"
  shows "sys_ok s"
  using assms by (induction rule: rtranclp_induct) (simp_all add: init_ok step_ok)

lemma buffers_accounted:
  assumes "(pipe_step ops)\<^sup>*\<^sup>* (sys_init p w) s" "core p" "\<not> op_running ops p"
  shows "\<not> y_terminated s \<and> y_delivered s = mset (released (y_env s)) + held (y_pipe s)
    \<and> (\<not> op_running ops (y_pipe s) \<longrightarrow> y_delivered s = mset (released (y_env s)))"
  using reachable_ok[OF assms] idle_law by (auto simp: sys_ok_def)

end

end
