(* ===== verification/Slot_Iq_Pipeline.thy ===== *)
theory Slot_Iq_Pipeline
  imports Spsc_Queue Pipeline_System
begin

text \<open>
  The slot pipeline (\<^verbatim>\<open>src/e3sm/slot_iq_pipeline.h\<close>, \<^verbatim>\<open>slot_iq_pipeline.cpp\<close>): codelet loading, the
  dispatcher callback that queues buffer pointers, the worker that fans a slot out and releases its
  buffer, and start/stop.  Each operation takes the members of the object as a \<open>slot_pipeline\<close>, the
  trace of jbpf calls, and the return codes and clock readings of the calls it makes.  The memory
  behind a buffer pointer is \<open>heap\<close>.  Here every operation is atomic; their interleaving is the
  subject of \<open>Pipeline_Concurrency\<close>.  Thread pinning and log lines change no state and are left out.
\<close>

section \<open>State\<close>

record SlotSample =
  s_sfn :: u16
  s_subframe_id :: u16
  s_slot_id :: u16
  s_sector_id :: u16
  s_nof_ports :: u16
  s_nof_symbols :: u16
  s_nof_subcarriers :: u16
  s_iq :: "u8 list option"
  s_iq_size_bytes :: u32
  s_fh_buffer_index :: u8
  s_fh_write_index :: u32
  s_bytes_written :: u32
  s_flags :: u8
  s_gnb_ts_ns :: u64
  s_codelet_entry_ts_ns :: u64
  s_codelet_ts_ns :: u64
  s_dispatch_ts_ns :: u64
  s_recv_us :: u32
  s_sample_id :: u32

type_synonym 'w SlotConsumer = "SlotSample \<Rightarrow> 'w \<Rightarrow> 'w"

record SlotConfig =
  sc_lcm_socket_path :: string
  sc_codelet_base_path :: string
  sc_worker_core :: i32
  sc_writer :: ShmWriter
  sc_shm_name :: string
  sc_radio :: RadioGeometry
  sc_cbf16_scale :: f32
  sc_shm_epoch :: u16

definition default_SlotConfig :: SlotConfig where
  "default_SlotConfig =
     \<lparr>sc_lcm_socket_path = ''/tmp/jbpf/jbpf_lcm_ipc'', sc_codelet_base_path = [],
      sc_worker_core = -1, sc_writer = Controller, sc_shm_name = ''/e3_ran_buffers'',
      sc_radio = default_RadioGeometry, sc_cbf16_scale = f32_one, sc_shm_epoch = 1\<rparr>"

definition slot_QUEUE_CAPACITY :: u64 where
  "slot_QUEUE_CAPACITY = 32"

definition slot_iq_stream_id :: stream_id where
  "slot_iq_stream_id =
     [0x75, 0x31, 0xab, 0xcd, 0x12, 0x34, 0x56, 0x78, 0x90, 0xfe, 0xdc, 0xba, 0x09, 0x87, 0x65, 0x4a]"

definition shm_cfg_stream_id :: stream_id where
  "shm_cfg_stream_id =
     [0x75, 0x31, 0xab, 0xcd, 0x12, 0x34, 0x56, 0x78, 0x90, 0xfe, 0xdc, 0xba, 0x09, 0x87, 0x65, 0x4b]"

definition slot_sel_stream_id :: stream_id where
  "slot_sel_stream_id =
     [0x75, 0x31, 0xab, 0xcd, 0x12, 0x34, 0x56, 0x78, 0x90, 0xfe, 0xdc, 0xba, 0x09, 0x87, 0x65, 0x4c]"

record 'w slot_pipeline =
  sp_config :: SlotConfig
  sp_consumers :: "'w SlotConsumer list"
  sp_running :: bool
  sp_codelets_loaded :: bool
  sp_worker_joinable :: bool
  sp_queue :: "QueueEntry spsc_ring"
  sp_dropped :: u64
  sp_total_samples_received :: u32
  sp_shm_cfg_sent :: bool

definition SlotIqPipeline :: "SlotConfig \<Rightarrow> 'w slot_pipeline" where
  "SlotIqPipeline cfg =
     \<lparr>sp_config = cfg, sp_consumers = [], sp_running = False, sp_codelets_loaded = False,
      sp_worker_joinable = False, sp_queue = ring_init slot_QUEUE_CAPACITY zero_entry,
      sp_dropped = 0, sp_total_samples_received = 0, sp_shm_cfg_sent = False\<rparr>"

definition slot_register_consumer :: "'w SlotConsumer \<Rightarrow> 'w slot_pipeline \<Rightarrow> 'w slot_pipeline" where
  "slot_register_consumer c p = p\<lparr>sp_consumers := sp_consumers p @ [c]\<rparr>"

section \<open>Codelet loading\<close>

definition slot_load_req :: "lcm_limits \<Rightarrow> SlotConfig \<Rightarrow> lcm_request" where
  "slot_load_req L c =
     LoadReq (strncpy_field (address_len L) (sc_lcm_socket_path c))
       (strncpy_field (codeletset_name_len L) ''uplink_slot_samples'')
       [\<lparr>codelet_name = strncpy_field (codelet_name_len L) ''collector'',
         hook_name = strncpy_field (hook_name_len L) ''capture_uplink_slot'',
         codelet_path = strncpy_field (path_len L)
           (sc_codelet_base_path c @ ''/uplink_slot_samples/uplink_slot_collect.o''),
         priority = 1, runtime_threshold = 0, num_linked_maps = 0,
         in_io_channel =
           [\<lparr>ch_name = strncpy_field (channel_name_len L) ''shm_in'',
             ch_stream_id = shm_cfg_stream_id, ch_has_serde = False\<rparr>,
            \<lparr>ch_name = strncpy_field (channel_name_len L) ''sel_in'',
             ch_stream_id = slot_sel_stream_id, ch_has_serde = False\<rparr>],
         out_io_channel =
           [\<lparr>ch_name = strncpy_field (channel_name_len L) ''output_map'',
             ch_stream_id = slot_iq_stream_id, ch_has_serde = False\<rparr>]\<rparr>]"

definition slot_load_codelets ::
    "lcm_limits \<Rightarrow> i32 \<Rightarrow> SlotConfig \<Rightarrow> jbpf_env \<Rightarrow> bool \<times> jbpf_env" where
  "slot_load_codelets L rc c env = (rc = 0, lcm_send (slot_load_req L c) env)"

definition slot_unload_codelets :: "lcm_limits \<Rightarrow> SlotConfig \<Rightarrow> jbpf_env \<Rightarrow> jbpf_env" where
  "slot_unload_codelets L c env =
     lcm_send (UnloadReq (strncpy_field (address_len L) (sc_lcm_socket_path c))
       (strncpy_field (codeletset_name_len L) ''uplink_slot_samples'')) env"

section \<open>Start and stop\<close>

definition slot_start ::
    "lcm_limits \<Rightarrow> i32 \<Rightarrow> 's BufferHandler \<Rightarrow> 'w slot_pipeline \<Rightarrow> 's handlers \<Rightarrow> jbpf_env
      \<Rightarrow> start_outcome \<times> 'w slot_pipeline \<times> 's handlers \<times> jbpf_env" where
  "slot_start L load_rc callback p hs env =
     (if sp_running p then (Returned SUCCESS, p, hs, env)
      else
        let needs_load = sc_codelet_base_path (sp_config p) \<noteq> [];
            (loaded, env1) = (if needs_load then slot_load_codelets L load_rc (sp_config p) env
                              else (True, env))
        in if \<not> loaded then (Returned INTERNAL_ERROR, p, hs, env1)
           else
             let p1 = (if needs_load then p\<lparr>sp_codelets_loaded := True\<rparr> else p);
                 p2 = p1\<lparr>sp_shm_cfg_sent := False, sp_running := True\<rparr>
             in if sp_worker_joinable p2 then (Terminated, p2, hs, env1)
                else (Returned SUCCESS, p2\<lparr>sp_worker_joinable := True\<rparr>,
                      register_stream slot_iq_stream_id (Some callback) True hs, env1))"

text \<open>The loop of \<^verbatim>\<open>stop()\<close> that releases what the worker did not reach.\<close>

definition slot_release_queued :: "'w slot_pipeline \<Rightarrow> jbpf_env \<Rightarrow> 'w slot_pipeline \<times> jbpf_env" where
  "slot_release_queued p env =
     (let q = sp_queue p
      in (p\<lparr>sp_queue := ring_reset q\<rparr>,
          fold (\<lambda>e. release_buf (q_buf e))
            (ring_drain slot_QUEUE_CAPACITY (queue_slots q) (queue_tail q) (queue_head q)) env))"

definition slot_stop ::
    "lcm_limits \<Rightarrow> 'w slot_pipeline \<Rightarrow> 's handlers \<Rightarrow> jbpf_env
      \<Rightarrow> 'w slot_pipeline \<times> 's handlers \<times> jbpf_env" where
  "slot_stop L p hs env =
     (if \<not> sp_running p then (p, hs, env)
      else
        let hs1 = unregister_stream slot_iq_stream_id hs;
            p1 = p\<lparr>sp_running := False, sp_worker_joinable := False\<rparr>;
            (p2, env1) = slot_release_queued p1 env
        in if sp_codelets_loaded p2
           then (p2\<lparr>sp_codelets_loaded := False\<rparr>, hs1, slot_unload_codelets L (sp_config p2) env1)
           else (p2, hs1, env1))"

section \<open>The dispatcher callback\<close>

definition shm_cfg_of :: "SlotConfig \<Rightarrow> e3_shm_cfg" where
  "shm_cfg_of c =
     \<lparr>cfg_version = E3_SHM_CFG_VERSION, cfg_epoch = sc_shm_epoch c,
      cfg_name = take (shm_cfg_name_size - 1) (sc_shm_name c),
      cfg_nof_symbols = nof_symbols (sc_radio c),
      cfg_nof_subcarriers = ucast (nof_subcarriers (sc_radio c)),
      cfg_scale = sc_cbf16_scale c\<rparr>"

definition default_sel_of :: "SlotConfig \<Rightarrow> e3_slot_sel" where
  "default_sel_of c =
     \<lparr>sel_version = E3_SLOT_SEL_VERSION,
      sel_nof_slots_per_frame = ucast (slots_per_frame (sc_radio c)),
      sel_slot_mask = 0, sel_sfn_mod = 0, sel_sfn_offset = 0\<rparr>"

text \<open>\<open>rc\<close> and \<open>src\<close> are the codes of the two \<^verbatim>\<open>jbpf_io_channel_send_msg\<close> calls.\<close>

definition maybe_send_shm_cfg ::
    "i32 \<Rightarrow> i32 \<Rightarrow> 'w slot_pipeline \<times> jbpf_env \<Rightarrow> 'w slot_pipeline \<times> jbpf_env" where
  "maybe_send_shm_cfg rc src = (\<lambda>(p, env).
     if sp_shm_cfg_sent p \<or> sc_writer (sp_config p) \<noteq> Gnb then (p, env)
     else
       let env1 = send_msg shm_cfg_stream_id (ShmCfgMsg (shm_cfg_of (sp_config p))) env
       in if rc = 0 then
            let env2 = send_msg slot_sel_stream_id (SlotSelMsg (default_sel_of (sp_config p))) env1
            in if src = 0 then (p\<lparr>sp_shm_cfg_sent := True\<rparr>, env2) else (p, env2)
          else (p, env1))"

definition slot_entry :: "(buf \<Rightarrow> e3_slot_desc) \<Rightarrow> u64 \<Rightarrow> u32 \<Rightarrow> buf \<Rightarrow> QueueEntry" where
  "slot_entry heap dispatch_ts_ns sample_id b =
     \<lparr>q_buf = b, q_dispatch_ts_ns = dispatch_ts_ns,
      q_recv_us = recv_us_of (us31 dispatch_ts_ns) (us31 (d_codelet_ts_ns (heap b))),
      q_sample_id = sample_id\<rparr>"

text \<open>One iteration of the loop over the batch.\<close>

definition slot_enqueue ::
    "(buf \<Rightarrow> e3_slot_desc) \<Rightarrow> u64 \<Rightarrow> buf \<Rightarrow> 'w slot_pipeline \<times> jbpf_env \<Rightarrow> 'w slot_pipeline \<times> jbpf_env"
    where
  "slot_enqueue heap dispatch_ts_ns b = (\<lambda>(p, env).
     if ring_full slot_QUEUE_CAPACITY (sp_queue p)
     then (p\<lparr>sp_dropped := sp_dropped p + 1\<rparr>, release_buf b env)
     else
       let n = sp_total_samples_received p + 1
       in (p\<lparr>sp_queue := ring_push slot_QUEUE_CAPACITY
                (slot_entry heap dispatch_ts_ns n b) (sp_queue p),
             sp_total_samples_received := n\<rparr>, env))"

definition slot_process_buffers ::
    "(buf \<Rightarrow> e3_slot_desc) \<Rightarrow> i32 \<Rightarrow> i32 \<Rightarrow> u64 \<Rightarrow> u64 \<Rightarrow> buf list
      \<Rightarrow> 'w slot_pipeline \<times> jbpf_env \<Rightarrow> 'w slot_pipeline \<times> jbpf_env" where
  "slot_process_buffers heap rc src tv_sec tv_nsec bufs st =
     fold (slot_enqueue heap (timespec_ns tv_sec tv_nsec)) bufs (maybe_send_shm_cfg rc src st)"

text \<open>
  The lambda that \<^verbatim>\<open>start()\<close> registers.  What the callback reads from outside (the ring buffers, the
  two return codes and the clock) is part of the state the dispatcher passes.
\<close>

record slot_inputs =
  in_heap :: "buf \<Rightarrow> e3_slot_desc"
  in_rc :: i32
  in_src :: i32
  in_tv_sec :: u64
  in_tv_nsec :: u64

definition slot_callback :: "(slot_inputs, 'w slot_pipeline) cb_state BufferHandler" where
  "slot_callback sid bufs = (\<lambda>(i, st).
     (i, slot_process_buffers (in_heap i) (in_rc i) (in_src i) (in_tv_sec i) (in_tv_nsec i) bufs st))"

section \<open>The worker\<close>

definition slot_sample_of :: "(buf \<Rightarrow> e3_slot_desc) \<Rightarrow> QueueEntry \<Rightarrow> SlotSample" where
  "slot_sample_of heap e =
     (let s = heap (q_buf e)
      in \<lparr>s_sfn = d_sfn s, s_subframe_id = d_subframe_id s, s_slot_id = d_slot_id s,
          s_sector_id = d_sector_id s, s_nof_ports = d_nof_ports s,
          s_nof_symbols = d_nof_symbols s, s_nof_subcarriers = d_nof_subcarriers s,
          s_iq = None, s_iq_size_bytes = 0, s_fh_buffer_index = d_fh_buffer_index s,
          s_fh_write_index = d_fh_write_index s, s_bytes_written = d_bytes_written s,
          s_flags = d_flags s, s_gnb_ts_ns = d_gnb_ts_ns s,
          s_codelet_entry_ts_ns = d_codelet_entry_ts_ns s, s_codelet_ts_ns = d_codelet_ts_ns s,
          s_dispatch_ts_ns = q_dispatch_ts_ns e, s_recv_us = q_recv_us e,
          s_sample_id = q_sample_id e\<rparr>)"

definition slot_dispatch_sample ::
    "(buf \<Rightarrow> e3_slot_desc) \<Rightarrow> 'w SlotConsumer list \<Rightarrow> QueueEntry \<Rightarrow> 'w \<Rightarrow> 'w" where
  "slot_dispatch_sample heap consumers e w = fold (\<lambda>c. c (slot_sample_of heap e)) consumers w"

text \<open>
  One iteration of \<^verbatim>\<open>worker_loop\<close>; \<open>None\<close> when the loop condition is false and the thread returns.
\<close>

definition slot_worker_step ::
    "(buf \<Rightarrow> e3_slot_desc) \<Rightarrow> 'w slot_pipeline \<times> jbpf_env \<times> 'w
      \<Rightarrow> ('w slot_pipeline \<times> jbpf_env \<times> 'w) option" where
  "slot_worker_step heap = (\<lambda>(p, env, w).
     if \<not> sp_running p then None
     else if ring_empty (sp_queue p) then Some (p, env, w)
     else
       let e = ring_front slot_QUEUE_CAPACITY (sp_queue p);
           w' = slot_dispatch_sample heap (sp_consumers p) e w
       in Some (p\<lparr>sp_queue := ring_pop (sp_queue p)\<rparr>, release_buf (q_buf e) env, w'))"

text \<open>\<open>n\<close> iterations with no producer in between; the flag keeps its value.\<close>

fun slot_worker_loop ::
    "nat \<Rightarrow> (buf \<Rightarrow> e3_slot_desc) \<Rightarrow> 'w slot_pipeline \<times> jbpf_env \<times> 'w
      \<Rightarrow> 'w slot_pipeline \<times> jbpf_env \<times> 'w" where
  "slot_worker_loop 0 heap st = st"
| "slot_worker_loop (Suc n) heap st =
     (case slot_worker_step heap st of None \<Rightarrow> st | Some st' \<Rightarrow> slot_worker_loop n heap st')"

section \<open>The queue of owned buffers\<close>

abbreviation slot_queued :: "'w slot_pipeline \<Rightarrow> QueueEntry list" where
  "slot_queued p \<equiv> ring_contents slot_QUEUE_CAPACITY (sp_queue p)"

abbreviation slot_queue_ok :: "'w slot_pipeline \<Rightarrow> bool" where
  "slot_queue_ok p \<equiv> ring_ok slot_QUEUE_CAPACITY (sp_queue p)"

lemma slot_capacity: "unat slot_QUEUE_CAPACITY = 32"
  by (simp add: slot_QUEUE_CAPACITY_def)

lemmas slot_fifo =
  slot_ring.ring.bounded[folded slot_QUEUE_CAPACITY_def]
  slot_ring.ring.full_iff[folded slot_QUEUE_CAPACITY_def]
  slot_ring.ring.push_ok[folded slot_QUEUE_CAPACITY_def]
  slot_ring.ring.push_contents[folded slot_QUEUE_CAPACITY_def]
  slot_ring.ring.pop_ok[folded slot_QUEUE_CAPACITY_def]
  slot_ring.ring.pop_contents[folded slot_QUEUE_CAPACITY_def]
  slot_ring.ring.front_hd[folded slot_QUEUE_CAPACITY_def]
  slot_ring.ring.empty_iff[folded slot_QUEUE_CAPACITY_def]

text \<open>The entries the loop stores for a batch, numbered on from \<open>n\<close>.\<close>

fun slot_entries :: "(buf \<Rightarrow> e3_slot_desc) \<Rightarrow> u64 \<Rightarrow> u32 \<Rightarrow> buf list \<Rightarrow> QueueEntry list" where
  "slot_entries heap ts n [] = []"
| "slot_entries heap ts n (b # bs) = slot_entry heap ts (n + 1) b # slot_entries heap ts (n + 1) bs"

lemma slot_entries_buf [simp]: "map q_buf (slot_entries heap ts n bs) = bs"
  by (induction bs arbitrary: n) (simp_all add: slot_entry_def)

lemma slot_entries_length [simp]: "length (slot_entries heap ts n bs) = length bs"
  by (induction bs arbitrary: n) simp_all

lemma maybe_send_frame:
  assumes "maybe_send_shm_cfg rc src (p, env) = (p', env')"
  shows "sp_queue p' = sp_queue p" "sp_dropped p' = sp_dropped p"
    "sp_total_samples_received p' = sp_total_samples_received p" "sp_running p' = sp_running p"
    "sp_consumers p' = sp_consumers p" "sp_config p' = sp_config p"
    "sp_codelets_loaded p' = sp_codelets_loaded p" "sp_worker_joinable p' = sp_worker_joinable p"
    "released env' = released env"
  using assms by (auto simp: maybe_send_shm_cfg_def Let_def split: if_splits)

lemma slot_enqueue_room:
  "\<not> ring_full slot_QUEUE_CAPACITY (sp_queue p) \<Longrightarrow>
     slot_enqueue heap ts b (p, env) =
       (p\<lparr>sp_queue := ring_push slot_QUEUE_CAPACITY
            (slot_entry heap ts (sp_total_samples_received p + 1) b) (sp_queue p),
          sp_total_samples_received := sp_total_samples_received p + 1\<rparr>, env)"
  by (simp add: slot_enqueue_def Let_def)

lemma enqueue_frame:
  assumes "fold (slot_enqueue heap ts) bs (p, env) = (p', env')"
  shows "sp_running p' = sp_running p \<and> sp_consumers p' = sp_consumers p \<and> sp_config p' = sp_config p
    \<and> sp_codelets_loaded p' = sp_codelets_loaded p \<and> sp_worker_joinable p' = sp_worker_joinable p
    \<and> sp_shm_cfg_sent p' = sp_shm_cfg_sent p \<and> sent env' = sent env"
  using assms
proof (induction bs arbitrary: p env)
  case (Cons b bs)
  obtain p1 env1 where 1: "slot_enqueue heap ts b (p, env) = (p1, env1)" by fastforce
  then show ?case
    using Cons.IH[of p1 env1] Cons.prems by (auto simp: slot_enqueue_def Let_def split: if_splits)
qed simp

lemma enqueue_full:
  "ring_full slot_QUEUE_CAPACITY (sp_queue p) \<Longrightarrow>
     fold (slot_enqueue heap ts) bs (p, env)
       = (p\<lparr>sp_dropped := sp_dropped p + of_nat (length bs)\<rparr>, env @ map Release bs)"
  by (induction bs arbitrary: p env)
    (simp_all add: slot_enqueue_def release_buf_def algebra_simps)

lemma enqueue_batch:
  assumes "slot_queue_ok p" and "fold (slot_enqueue heap ts) bs (p, env) = (p', env')"
    and "room = 32 - length (slot_queued p)"
  shows "slot_queue_ok p'
    \<and> slot_queued p' = slot_queued p @ slot_entries heap ts (sp_total_samples_received p) (take room bs)
    \<and> env' = env @ map Release (drop room bs)
    \<and> sp_dropped p' = sp_dropped p + of_nat (length bs - room)
    \<and> sp_total_samples_received p' = sp_total_samples_received p + of_nat (min room (length bs))"
  using assms
proof (induction bs arbitrary: p env room)
  case (Cons b bs)
  have len: "length (slot_queued p) \<le> 32" using slot_fifo(1)[OF Cons.prems(1)] slot_capacity by simp
  show ?case
  proof (cases "ring_full slot_QUEUE_CAPACITY (sp_queue p)")
    case True
    then have "room = 0"
      using slot_fifo(2)[OF Cons.prems(1)] Cons.prems(3) slot_capacity by simp
    then show ?thesis
      using Cons.prems(1,2) enqueue_full[OF True, of heap ts "b # bs" env] by auto
  next
    case False
    let ?n = "sp_total_samples_received p + 1"
    let ?p = "p\<lparr>sp_queue := ring_push slot_QUEUE_CAPACITY (slot_entry heap ts ?n b) (sp_queue p),
      sp_total_samples_received := ?n\<rparr>"
    have push: "slot_queue_ok ?p" "slot_queued ?p = slot_queued p @ [slot_entry heap ts ?n b]"
      using slot_fifo(3,4)[OF Cons.prems(1) False] by simp_all
    have "length (slot_queued p) \<noteq> 32"
      using slot_fifo(2)[OF Cons.prems(1)] False slot_capacity by simp
    then have "0 < room" using len Cons.prems(3) by simp
    then obtain r where r: "room = Suc r" by (auto dest: gr0_implies_Suc)
    have "fold (slot_enqueue heap ts) bs (?p, env) = (p', env')"
      using Cons.prems(2) slot_enqueue_room[OF False] by simp
    moreover have "r = 32 - length (slot_queued ?p)" using push(2) r Cons.prems(3) by simp
    ultimately show ?thesis
      using Cons.IH[OF push(1), of env r] push(2) r by (simp add: algebra_simps)
  qed
qed simp

lemma process_batch:
  assumes "slot_queue_ok p" and "slot_process_buffers heap rc src sec nsec bs (p, env) = (p', env')"
  shows "slot_queue_ok p' \<and>
    (let room = 32 - length (slot_queued p) in
       slot_queued p' = slot_queued p
         @ slot_entries heap (timespec_ns sec nsec) (sp_total_samples_received p) (take room bs)
       \<and> released env' = released env @ drop room bs
       \<and> sp_dropped p' = sp_dropped p + of_nat (length bs - room)
       \<and> sp_total_samples_received p' = sp_total_samples_received p + of_nat (min room (length bs)))"
proof -
  obtain p1 env1 where 1: "maybe_send_shm_cfg rc src (p, env) = (p1, env1)" by fastforce
  then have "fold (slot_enqueue heap (timespec_ns sec nsec)) bs (p1, env1) = (p', env')"
    using assms(2) by (simp add: slot_process_buffers_def)
  from enqueue_batch[OF _ this refl] maybe_send_frame[OF 1] assms(1) show ?thesis
    by (simp add: Let_def)
qed

lemma process_frame:
  assumes "slot_process_buffers heap rc src sec nsec bs (p, env) = (p', env')"
  shows "sp_running p' = sp_running p" "sp_consumers p' = sp_consumers p" "sp_config p' = sp_config p"
    "sp_codelets_loaded p' = sp_codelets_loaded p" "sp_worker_joinable p' = sp_worker_joinable p"
proof -
  obtain p1 env1 where 1: "maybe_send_shm_cfg rc src (p, env) = (p1, env1)" by fastforce
  then have "fold (slot_enqueue heap (timespec_ns sec nsec)) bs (p1, env1) = (p', env')"
    using assms by (simp add: slot_process_buffers_def)
  from enqueue_frame[OF this] maybe_send_frame[OF 1]
  show "sp_running p' = sp_running p" "sp_consumers p' = sp_consumers p" "sp_config p' = sp_config p"
    "sp_codelets_loaded p' = sp_codelets_loaded p" "sp_worker_joinable p' = sp_worker_joinable p"
    by simp_all
qed

definition slot_held :: "slot_inputs \<times> 'w slot_pipeline \<times> jbpf_env \<Rightarrow> buf multiset" where
  "slot_held s = mset (map q_buf (slot_queued (fst (snd s))))"

definition slot_returned :: "slot_inputs \<times> 'w slot_pipeline \<times> jbpf_env \<Rightarrow> buf multiset" where
  "slot_returned s = mset (released (snd (snd s)))"

definition slot_state_ok :: "slot_inputs \<times> 'w slot_pipeline \<times> jbpf_env \<Rightarrow> bool" where
  "slot_state_ok s \<longleftrightarrow> slot_queue_ok (fst (snd s))"

lemma callback_conserves:
  assumes "slot_state_ok s"
  shows "slot_state_ok (slot_callback sid bs s)
    \<and> slot_held (slot_callback sid bs s) + slot_returned (slot_callback sid bs s)
      = slot_held s + slot_returned s + mset bs"
proof -
  obtain i p env where s: "s = (i, p, env)" by (cases s)
  obtain p' env' where r: "slot_process_buffers (in_heap i) (in_rc i) (in_src i) (in_tv_sec i)
      (in_tv_nsec i) bs (p, env) = (p', env')" by fastforce
  have split: "mset bs = mset (take n bs) + mset (drop n bs)" for n
    by (metis append_take_drop_id mset_append)
  from process_batch[OF _ r] assms s r show ?thesis
    by (auto simp: slot_state_ok_def slot_held_def slot_returned_def slot_callback_def Let_def
        split[of "32 - length (slot_queued p)"])
qed

interpretation slot_owner: buffer_owner slot_state_ok slot_held slot_returned release_into slot_callback
proof
  fix s :: "slot_inputs \<times> 'a slot_pipeline \<times> jbpf_env" and b sid bs
  show "slot_state_ok s \<Longrightarrow> slot_state_ok (release_into b s)"
    and "slot_state_ok s \<Longrightarrow> slot_held (release_into b s) = slot_held s"
    and "slot_state_ok s \<Longrightarrow> slot_returned (release_into b s) = slot_returned s + {#b#}"
    by (auto simp: slot_state_ok_def slot_held_def slot_returned_def release_into_def
        split: prod.splits)
  show "slot_state_ok s \<Longrightarrow> slot_state_ok (slot_callback sid bs s)"
    and "slot_state_ok s \<Longrightarrow> slot_held (slot_callback sid bs s) + slot_returned (slot_callback sid bs s)
      = slot_held s + slot_returned s + mset bs"
    using callback_conserves by blast+
qed

text \<open>C10.
  A batch delivered to the slot pipeline is split at the room left in the 32-entry ring: the first
  buffers are queued in order, each with the next sample number and the batch's time stamp, and every
  other buffer is released at once, in order, and counted in \<^verbatim>\<open>dropped_\<close>.  Nothing already queued is
  overwritten, whatever the values of the wrapping head and tail counters.\<close>

theorem slot_batch_split:
  assumes "slot_queue_ok p" and "slot_process_buffers heap rc src sec nsec bs (p, env) = (p', env')"
    and "room = 32 - length (slot_queued p)"
  shows "slot_queued p' = slot_queued p
        @ slot_entries heap (timespec_ns sec nsec) (sp_total_samples_received p) (take room bs)
    \<and> released env' = released env @ drop room bs
    \<and> sp_dropped p' = sp_dropped p + of_nat (length bs - room)"
  using process_batch[OF assms(1,2)] assms(3) by (simp add: Let_def)

text \<open>A slot descriptor and a running pipeline whose counters are about to wrap, for the witnesses.\<close>

definition sample_desc :: e3_slot_desc where
  "sample_desc =
     \<lparr>d_gnb_ts_ns = 1000, d_codelet_entry_ts_ns = 2000, d_codelet_ts_ns = 5000, d_bytes_written = 733824,
      d_fh_write_index = 3, d_fh_buffer_index = 0, d_flags = 0, d_sfn = 1, d_subframe_id = 2,
      d_slot_id = 4, d_sector_id = 0, d_nof_ports = 4, d_nof_symbols = 14, d_nof_subcarriers = 3276\<rparr>"

definition wrapping_pipeline :: "unit slot_pipeline" where
  "wrapping_pipeline = (SlotIqPipeline (default_SlotConfig\<lparr>sc_writer := Gnb\<rparr>))
     \<lparr>sp_running := True, sp_worker_joinable := True,
      sp_queue := (ring_init slot_QUEUE_CAPACITY zero_entry)\<lparr>queue_head := -1, queue_tail := -1\<rparr>\<rparr>"

lemma wrapping_pipeline_queue:
  "slot_queue_ok wrapping_pipeline" "slot_queued wrapping_pipeline = []" "sp_running wrapping_pipeline"
  by (simp_all add: wrapping_pipeline_def ring_ok_def ring_contents_def ring_init_def)

theorem slot_batch_split_witness:
  "let (p', env') = slot_process_buffers (\<lambda>_. sample_desc) 0 0 1 0 [7, 8, 9] (wrapping_pipeline, [])
   in map q_buf (slot_queued p') = [7, 8, 9] \<and> released env' = []"
proof -
  obtain p' env' where r: "slot_process_buffers (\<lambda>_. sample_desc) 0 0 1 0 [7, 8, 9]
    (wrapping_pipeline, []) = (p', env')" by fastforce
  from slot_batch_split[OF wrapping_pipeline_queue(1) r refl] show ?thesis
    by (simp add: r wrapping_pipeline_queue slot_entry_def)
qed

section \<open>Draining\<close>

lemma drain_releases:
  "fold (\<lambda>e. release_buf (q_buf e)) es env = env @ map (Release \<circ> q_buf) es"
  by (induction es arbitrary: env) (simp_all add: release_buf_def)

lemma stop_effect:
  assumes "sp_running p" and "slot_stop L p hs env = (p', hs', env')"
  shows "p' = p\<lparr>sp_running := False, sp_worker_joinable := False, sp_queue := ring_reset (sp_queue p),
      sp_codelets_loaded := False\<rparr>"
    and "hs' = unregister_stream slot_iq_stream_id hs"
    and "env' = env @ map (Release \<circ> q_buf) (slot_queued p)
      @ (if sp_codelets_loaded p then slot_unload_codelets L (sp_config p) [] else [])"
  using assms
  by (auto simp: slot_stop_def slot_release_queued_def Let_def ring_drain_is_contents drain_releases
      slot_unload_codelets_def lcm_send_def split: if_splits)

text \<open>C12.
  Stopping a running slot pipeline unregisters its stream, releases every buffer still queued exactly
  once and in order, and only then sends the unload request; afterwards the queue is empty, the worker
  is joined and the pipeline can be started again.\<close>

theorem slot_stop_releases_queue:
  assumes "sp_running p" and "slot_stop L p hs env = (p', hs', env')"
  shows "env' = env @ map Release (map q_buf (slot_queued p))
        @ (if sp_codelets_loaded p then slot_unload_codelets L (sp_config p) [] else [])
    \<and> slot_queued p' = [] \<and> \<not> sp_running p' \<and> \<not> sp_codelets_loaded p' \<and> \<not> sp_worker_joinable p'
    \<and> lookup_handler hs' slot_iq_stream_id = (None, False)"
  using stop_effect[OF assms] by simp

definition sample_limits :: lcm_limits where
  "sample_limits = \<lparr>address_len = 108, codeletset_name_len = 32, codelet_name_len = 32,
     hook_name_len = 32, path_len = 256, channel_name_len = 32\<rparr>"

theorem slot_stop_releases_queue_witness:
  "let p = wrapping_pipeline\<lparr>sp_queue := ring_push slot_QUEUE_CAPACITY (zero_entry\<lparr>q_buf := 4\<rparr>) (sp_queue wrapping_pipeline)\<rparr>;
       (p', hs', env') = slot_stop sample_limits p (Map.empty :: unit handlers) []
   in slot_queued p = [zero_entry\<lparr>q_buf := 4\<rparr>] \<and> slot_queued p' = [] \<and> env' = [Release 4]"
proof -
  let ?p = "wrapping_pipeline\<lparr>sp_queue := ring_push slot_QUEUE_CAPACITY (zero_entry\<lparr>q_buf := 4\<rparr>) (sp_queue wrapping_pipeline)\<rparr>"
  obtain p' hs' env' where r: "slot_stop sample_limits ?p (Map.empty :: unit handlers) [] = (p', hs', env')"
    by (metis prod_cases3)
  have "\<not> ring_full slot_QUEUE_CAPACITY (sp_queue wrapping_pipeline)"
    by (simp add: wrapping_pipeline_def ring_full_def ring_init_def slot_QUEUE_CAPACITY_def)
  from slot_fifo(4)[OF wrapping_pipeline_queue(1) this, of "zero_entry\<lparr>q_buf := 4\<rparr>"]
  have q: "slot_queued ?p = [zero_entry\<lparr>q_buf := 4\<rparr>]" by (simp add: wrapping_pipeline_queue(2))
  have p: "sp_running ?p" "\<not> sp_codelets_loaded ?p" by (simp_all add: wrapping_pipeline_def SlotIqPipeline_def)
  from slot_stop_releases_queue[OF p(1) r] show ?thesis using p(2) q by (simp add: Let_def r)
qed

lemma worker_step_nonempty:
  assumes "slot_queue_ok p" "sp_running p" "slot_queued p = e # es"
  shows "\<exists>p'. slot_worker_step heap (p, env, w) =
      Some (p', env @ [Release (q_buf e)], slot_dispatch_sample heap (sp_consumers p) e w)
    \<and> slot_queue_ok p' \<and> slot_queued p' = es \<and> p' = p\<lparr>sp_queue := sp_queue p'\<rparr>"
proof -
  have ne: "\<not> ring_empty (sp_queue p)"
    using assms(1,3) slot_fifo(8) by fastforce
  show ?thesis
    using assms ne slot_fifo(5,6,7)[OF assms(1) ne]
    by (simp add: slot_worker_step_def Let_def release_buf_def)
qed

text \<open>C11.
  The worker makes progress: from any state of a running pipeline, as many iterations as there are
  queued entries deliver every queued slot to every consumer in registration order, oldest slot first,
  release each buffer once after its slot's fan-out, and leave the queue empty.\<close>

theorem slot_worker_drains:
  assumes "slot_queue_ok p" and "sp_running p"
  shows "\<exists>p'. slot_worker_loop (length (slot_queued p)) heap (p, env, w) =
      (p', env @ map Release (map q_buf (slot_queued p)),
       fold (slot_dispatch_sample heap (sp_consumers p)) (slot_queued p) w)
    \<and> slot_queued p' = [] \<and> slot_queue_ok p'"
  using assms
proof (induction "slot_queued p" arbitrary: p env w)
  case (Cons e es)
  from worker_step_nonempty[OF Cons.prems Cons.hyps(2)[symmetric], of heap env w] obtain p1 where
    step: "slot_worker_step heap (p, env, w) =
      Some (p1, env @ [Release (q_buf e)], slot_dispatch_sample heap (sp_consumers p) e w)"
    and p1: "slot_queue_ok p1" "slot_queued p1 = es" "p1 = p\<lparr>sp_queue := sp_queue p1\<rparr>" by blast
  have same: "sp_running p1 = sp_running p" "sp_consumers p1 = sp_consumers p"
    by (subst p1(3), simp)+
  show ?case
    using Cons.hyps(1)[OF p1(2)[symmetric] p1(1), of "env @ [Release (q_buf e)]"
        "slot_dispatch_sample heap (sp_consumers p) e w"] same Cons.prems(2)
    by (simp add: Cons.hyps(2)[symmetric] step p1(2))
next
  case Nil
  then show ?case by simp
qed

definition counting_pipeline :: "nat slot_pipeline" where
  "counting_pipeline = (SlotIqPipeline default_SlotConfig)
     \<lparr>sp_running := True, sp_consumers := [\<lambda>s n. n + unat (s_sfn s)],
      sp_queue := ring_push slot_QUEUE_CAPACITY (zero_entry\<lparr>q_buf := 5\<rparr>)
        (ring_init slot_QUEUE_CAPACITY zero_entry)\<rparr>"

lemma ring_init_room: "\<not> ring_full slot_QUEUE_CAPACITY (ring_init slot_QUEUE_CAPACITY zero_entry)"
  by (simp add: ring_full_def ring_init_def slot_QUEUE_CAPACITY_def)

lemma counting_pipeline_queue:
  "slot_queue_ok counting_pipeline" "slot_queued counting_pipeline = [zero_entry\<lparr>q_buf := 5\<rparr>]"
  "sp_running counting_pipeline"
  using slot_fifo(3,4)[OF ring_init_ok ring_init_room] by (simp_all add: counting_pipeline_def)

theorem slot_worker_drains_witness:
  "\<exists>p'. slot_worker_loop 1 (\<lambda>_. sample_desc) (counting_pipeline, [], 0) = (p', [Release 5], 1)
     \<and> slot_queued p' = [] \<and> slot_queue_ok p'"
  using slot_worker_drains[OF counting_pipeline_queue(1,3), of "\<lambda>_. sample_desc" "[]" 0]
  unfolding counting_pipeline_queue(2)
  by (simp add: counting_pipeline_def slot_dispatch_sample_def slot_sample_of_def sample_desc_def
      Let_def)

section \<open>Lifecycle\<close>

text \<open>
  What holds between calls: the stream is registered exactly while the pipeline runs, the worker is
  joinable exactly then, a loaded codelet set belongs to a running pipeline, and a stopped pipeline
  holds no buffer.
\<close>

definition slot_core :: "'w slot_pipeline \<Rightarrow> bool" where
  "slot_core p \<longleftrightarrow>
     slot_queue_ok p \<and> sp_worker_joinable p = sp_running p \<and> (sp_codelets_loaded p \<longrightarrow> sp_running p)
     \<and> (\<not> sp_running p \<longrightarrow> slot_queued p = [])"

definition slot_inv ::
    "'w slot_pipeline \<times> (slot_inputs, 'w slot_pipeline) cb_state handlers \<times> jbpf_env \<Rightarrow> bool" where
  "slot_inv = (\<lambda>(p, hs, env). slot_core p
     \<and> lookup_handler hs slot_iq_stream_id = (if sp_running p then (Some slot_callback, True) else (None, False)))"

lemma slot_new_core: "slot_core (SlotIqPipeline cfg)" "\<not> sp_running (SlotIqPipeline cfg)"
  by (simp_all add: slot_core_def SlotIqPipeline_def)

lemma slot_start_effect:
  assumes "slot_core p" and "slot_start L rc cb p hs env = (out, p', hs', env')"
  shows "slot_core p' \<and> out \<noteq> Terminated \<and> (out = Returned SUCCESS \<longleftrightarrow> sp_running p')
    \<and> slot_queued p' = slot_queued p \<and> released env' = released env
    \<and> hs' = (if sp_running p' \<and> \<not> sp_running p then register_stream slot_iq_stream_id (Some cb) True hs else hs)
    \<and> (sp_running p \<longrightarrow> sp_running p')"
  using assms
  by (auto simp: slot_start_def slot_core_def slot_load_codelets_def Let_def split: if_splits)

lemma slot_stop_effect:
  assumes "slot_core p" and "slot_stop L p hs env = (p', hs', env')"
  shows "slot_core p' \<and> \<not> sp_running p' \<and> slot_queued p' = []
    \<and> released env' = released env @ map q_buf (slot_queued p)
    \<and> hs' = (if sp_running p then unregister_stream slot_iq_stream_id hs else hs)"
proof (cases "sp_running p")
  case True
  then show ?thesis
    using assms(1) stop_effect[OF True assms(2)]
    by (simp add: slot_core_def slot_unload_codelets_def lcm_send_def flip: map_map)
next
  case False
  then show ?thesis using assms by (simp add: slot_stop_def slot_core_def)
qed

lemma slot_start_call:
  assumes "slot_inv (p, hs, env)"
  shows "slot_inv (snd (slot_start L rc slot_callback p hs env))"
    and "fst (slot_start L rc slot_callback p hs env) \<noteq> Terminated"
    and "fst (slot_start L rc slot_callback p hs env) = Returned SUCCESS
      \<longleftrightarrow> sp_running (fst (snd (slot_start L rc slot_callback p hs env)))"
proof -
  obtain out p' hs' env' where r: "slot_start L rc slot_callback p hs env = (out, p', hs', env')"
    by (metis prod_cases4)
  have "slot_core p" using assms by (simp add: slot_inv_def)
  from slot_start_effect[OF this r] assms
  have "slot_inv (p', hs', env')" "out \<noteq> Terminated" "out = Returned SUCCESS \<longleftrightarrow> sp_running p'"
    by (auto simp: slot_inv_def)
  then show "slot_inv (snd (slot_start L rc slot_callback p hs env))"
    and "fst (slot_start L rc slot_callback p hs env) \<noteq> Terminated"
    and "fst (slot_start L rc slot_callback p hs env) = Returned SUCCESS
      \<longleftrightarrow> sp_running (fst (snd (slot_start L rc slot_callback p hs env)))"
    by (simp_all add: r)
qed

lemma slot_stop_call:
  "slot_inv (p, hs, env) \<Longrightarrow> slot_inv (slot_stop L p hs env)"
  "\<not> sp_running (fst (slot_stop L p hs env))"
proof -
  obtain p' hs' env' where r: "slot_stop L p hs env = (p', hs', env')" by (metis prod_cases3)
  show "slot_inv (slot_stop L p hs env)" if "slot_inv (p, hs, env)"
  proof -
    have "slot_core p" using that by (simp add: slot_inv_def)
    from slot_stop_effect[OF this r] that show ?thesis by (auto simp: slot_inv_def r)
  qed
  show "\<not> sp_running (fst (slot_stop L p hs env))"
    by (simp add: slot_stop_def slot_release_queued_def Let_def)
qed

interpretation slot_life: lifecycle slot_inv "\<lambda>s. sp_running (fst s)"
  "\<lambda>a s. slot_start (fst a) (snd a) slot_callback (fst s) (fst (snd s)) (snd (snd s))"
  "\<lambda>a s. slot_stop (fst a) (fst s) (fst (snd s)) (snd (snd s))"
proof (unfold_locales, goal_cases)
  case (2 s a)
  then show ?case by (simp add: slot_start_def)
next
  case (7 s a)
  then show ?case by (simp add: slot_stop_def)
qed (simp_all add: slot_start_call slot_stop_call)

section \<open>The pipeline and its dispatcher\<close>

definition slot_ops ::
    "lcm_limits \<Rightarrow> (slot_inputs, 'w slot_pipeline, 'w, buf \<Rightarrow> e3_slot_desc, 'w SlotConsumer) pipe_ops" where
  "slot_ops L =
     \<lparr>op_sid = slot_iq_stream_id, op_callback = slot_callback,
      op_start = (\<lambda>rc. slot_start L rc slot_callback), op_stop = slot_stop L,
      op_register = slot_register_consumer, op_running = sp_running, op_worker = slot_worker_step\<rparr>"

lemma slot_ops_sel [simp]:
  "op_sid (slot_ops L) = slot_iq_stream_id" "op_callback (slot_ops L) = slot_callback"
  "op_start (slot_ops L) rc = slot_start L rc slot_callback" "op_stop (slot_ops L) = slot_stop L"
  "op_register (slot_ops L) = slot_register_consumer" "op_running (slot_ops L) = sp_running"
  "op_worker (slot_ops L) = slot_worker_step"
  by (simp_all add: slot_ops_def)

lemma slot_callback_core:
  assumes "slot_core p" "sp_running p" "slot_callback sid bs (i, p, env) = (i', p', env')"
  shows "slot_core p' \<and> sp_running p'"
proof -
  have r: "slot_process_buffers (in_heap i) (in_rc i) (in_src i) (in_tv_sec i) (in_tv_nsec i) bs (p, env)
      = (p', env')" using assms(3) by (auto simp: slot_callback_def)
  then show ?thesis
    using process_frame[OF r] process_batch[OF _ r] assms(1,2) by (simp add: slot_core_def)
qed

lemma slot_worker_core:
  assumes "slot_core p" "slot_worker_step heap (p, env, w) = Some (p', env', w')"
  shows "slot_core p' \<and> sp_running p' = sp_running p
    \<and> mset (released env') + mset (map q_buf (slot_queued p'))
      = mset (released env) + mset (map q_buf (slot_queued p))"
proof (cases "slot_queued p")
  case Nil
  then have "p' = p" "env' = env"
    using assms slot_fifo(8) by (auto simp: slot_worker_step_def slot_core_def Let_def split: if_splits)
  then show ?thesis using assms(1) by simp
next
  case (Cons e es)
  have run: "sp_running p" using assms(2) by (auto simp: slot_worker_step_def split: if_splits)
  have "slot_queue_ok p" using assms(1) by (simp add: slot_core_def)
  from worker_step_nonempty[OF this run Cons, of heap env w] assms(2)
  have "env' = env @ [Release (q_buf e)]" "slot_queue_ok p'" "slot_queued p' = es"
    and p: "p' = p\<lparr>sp_queue := sp_queue p'\<rparr>" by auto
  moreover have "sp_running p' = sp_running p" "sp_worker_joinable p' = sp_worker_joinable p"
    by (subst p, simp)+
  ultimately show ?thesis using assms(1) Cons run by (simp add: slot_core_def)
qed

interpretation slot_system: owning_pipeline "slot_ops L" slot_core
  "\<lambda>p. mset (map q_buf (slot_queued p))" for L
proof (unfold_locales, goal_cases)
  case (1 p rc hs env out p' hs' env')
  then show ?case using slot_start_effect[OF 1(1) 1(2)[simplified]] by simp
next
  case (2 p hs env p' hs' env')
  then show ?case using slot_stop_effect[OF 2(1) 2(2)[simplified]] by simp
next
  case (3 p c)
  then show ?case by (simp add: slot_core_def slot_register_consumer_def)
next
  case (4 p sid bs i env i' p' env')
  then have "slot_state_ok (i, p, env)" "slot_callback sid bs (i, p, env) = (i', p', env')"
    by (simp_all add: slot_state_ok_def slot_core_def)
  then show ?case
    using slot_owner.handle_conserves[of "(i, p, env)" sid bs] slot_callback_core[of p sid bs i env] 4
    by (simp add: slot_held_def slot_returned_def ac_simps)
next
  case (5 p h env w p' env' w')
  then show ?case using slot_worker_core[OF 5(1) 5(2)[simplified]] by simp
next
  case (6 p)
  then show ?case by (simp add: slot_core_def)
qed

text \<open>C6.
  Over every sequence of calls on a freshly built slot pipeline (starts that fail or succeed, stops,
  batches on its own or on unknown streams, worker iterations), the process is never terminated by a
  second thread assignment, and every buffer jbpf ever delivered is either released, exactly once, or
  waiting in the queue; a stopped pipeline has released them all.\<close>

theorem slot_buffers_accounted:
  assumes "(pipe_step (slot_ops L))\<^sup>*\<^sup>* (sys_init (SlotIqPipeline cfg) w) s"
  shows "\<not> y_terminated s
    \<and> y_delivered s = mset (released (y_env s)) + mset (map q_buf (slot_queued (y_pipe s)))
    \<and> (\<not> sp_running (y_pipe s) \<longrightarrow> y_delivered s = mset (released (y_env s)))"
  using slot_system.buffers_accounted[OF assms slot_new_core(1)] slot_new_core(2)[of cfg] by simp

theorem slot_buffers_accounted_witness:
  "\<exists>s. (pipe_step (slot_ops sample_limits))\<^sup>*\<^sup>* (sys_init (SlotIqPipeline default_SlotConfig) ()) s
     \<and> y_delivered s = {#3#} \<and> mset (released (y_env s)) = {#3#}"
proof -
  let ?s = "sys_init (SlotIqPipeline default_SlotConfig) () :: (slot_inputs, unit slot_pipeline, unit) pipe_sys"
  let ?t = "?s\<lparr>y_pipe := y_pipe ?s, y_env := [Release 3], y_delivered := y_delivered ?s + {#3#}\<rparr>"
  have "dispatch release_into (y_handlers ?s) (Some slot_sel_stream_id) [3] 1 (undefined, y_pipe ?s, y_env ?s)
      = (undefined, y_pipe ?s, [Release 3])"
    by (simp add: dispatch_unknown sys_init_def lookup_handler_def)
  from step_batch[OF this, of "slot_ops sample_limits"]
  have reach: "(pipe_step (slot_ops sample_limits))\<^sup>*\<^sup>* ?s ?t" by (simp add: r_into_rtranclp)
  from slot_buffers_accounted[OF reach]
  have "y_delivered ?t = mset (released (y_env ?t))" by (simp add: sys_init_def SlotIqPipeline_def)
  with reach show ?thesis by (intro exI[of _ ?t]) (simp add: sys_init_def)
qed

section \<open>Configuring the gNB-side helper\<close>

lemma maybe_send_active:
  assumes "\<not> sp_shm_cfg_sent p" "sc_writer (sp_config p) = Gnb"
  shows "maybe_send_shm_cfg rc src (p, env) =
    (if rc = 0 \<and> src = 0 then p\<lparr>sp_shm_cfg_sent := True\<rparr> else p,
     env @ Send shm_cfg_stream_id (ShmCfgMsg (shm_cfg_of (sp_config p)))
       # (if rc = 0 then [Send slot_sel_stream_id (SlotSelMsg (default_sel_of (sp_config p)))] else []))"
  using assms by (simp add: maybe_send_shm_cfg_def send_msg_def)

lemma process_sends:
  assumes "slot_process_buffers heap rc src sec nsec bs (p, env) = (p', env')"
    and "maybe_send_shm_cfg rc src (p, env) = (p1, env1)"
  shows "sent env' = sent env1" "sp_shm_cfg_sent p' = sp_shm_cfg_sent p1"
proof -
  have "fold (slot_enqueue heap (timespec_ns sec nsec)) bs (p1, env1) = (p', env')"
    using assms by (simp add: slot_process_buffers_def)
  from enqueue_frame[OF this]
  show "sent env' = sent env1" "sp_shm_cfg_sent p' = sp_shm_cfg_sent p1" by simp_all
qed

text \<open>C13.
  In \<^verbatim>\<open>writer: gnb\<close> mode every successful start, the first one and any restart, makes the next batch
  send the attach configuration and then, if that was accepted, the publish-everything selector; the
  handshake counts as done only when both were accepted and is retried otherwise.  For a validated
  geometry the 16-bit message fields hold the exact subcarrier and slot counts.  The region name is
  the configured one exactly when it fits the 63 characters of the message.\<close>

theorem slot_start_reconfigures_helper:
  assumes "\<not> sp_running p" and "sc_writer (sp_config p) = Gnb" and "validate (sc_radio (sp_config p)) = None"
    and "slot_start L load_rc callback p hs env = (Returned SUCCESS, p1, hs1, env1)"
    and "slot_process_buffers heap rc src sec nsec bs (p1, env1) = (p2, env2)"
  shows "sent env2 = sent env1 @ (shm_cfg_stream_id, ShmCfgMsg (shm_cfg_of (sp_config p)))
      # (if rc = 0 then [(slot_sel_stream_id, SlotSelMsg (default_sel_of (sp_config p)))] else [])
    \<and> (sp_shm_cfg_sent p2 \<longleftrightarrow> rc = 0 \<and> src = 0)
    \<and> unat (cfg_nof_subcarriers (shm_cfg_of (sp_config p))) = unat (nof_prbs (sc_radio (sp_config p))) * 12
    \<and> unat (sel_nof_slots_per_frame (default_sel_of (sp_config p)))
      = 10 * (unat (scs_khz (sc_radio (sp_config p))) div 15)
    \<and> (cfg_name (shm_cfg_of (sp_config p)) = sc_shm_name (sp_config p)
      \<longleftrightarrow> length (sc_shm_name (sp_config p)) < 64)"
proof -
  have p1: "\<not> sp_shm_cfg_sent p1" "sp_config p1 = sp_config p"
    using assms(1,4) by (auto simp: slot_start_def slot_load_codelets_def Let_def split: if_splits)
  obtain q env' where q: "maybe_send_shm_cfg rc src (p1, env1) = (q, env')" by fastforce
  have "sent env' = sent env1 @ (shm_cfg_stream_id, ShmCfgMsg (shm_cfg_of (sp_config p)))
      # (if rc = 0 then [(slot_sel_stream_id, SlotSelMsg (default_sel_of (sp_config p)))] else [])"
    and "sp_shm_cfg_sent q \<longleftrightarrow> rc = 0 \<and> src = 0"
    using q maybe_send_active[OF p1(1), of rc src env1] p1 assms(2) by (auto split: if_splits)
  moreover have "unat (nof_subcarriers (sc_radio (sp_config p))) = unat (nof_prbs (sc_radio (sp_config p))) * 12"
      "unat (nof_prbs (sc_radio (sp_config p))) \<le> 275"
    using validate_sizes[OF assms(3)] validate_geometry[OF assms(3)] by auto
  moreover have "unat (slots_per_frame (sc_radio (sp_config p))) =
      10 * (unat (scs_khz (sc_radio (sp_config p))) div 15)"
      "unat (slots_per_frame (sc_radio (sp_config p))) \<le> 80"
    using validate_geometry(6)[OF assms(3)] by (auto simp: slots_per_frame_def)
  ultimately show ?thesis
    using process_sends[OF assms(5) q]
    by (auto simp: shm_cfg_of_def default_sel_of_def shm_cfg_name_size_def unsigned_ucast_eq
        take_bit_nat_eq_self_iff)
qed

theorem slot_start_reconfigures_helper_witness:
  "let p = (SlotIqPipeline (default_SlotConfig\<lparr>sc_writer := Gnb\<rparr>) :: unit slot_pipeline);
       (out, p1, hs1, env1) = slot_start sample_limits 0 (\<lambda>_ _ s. s) p (Map.empty :: unit handlers) [];
       (p2, env2) = slot_process_buffers (\<lambda>_. sample_desc) 0 0 1 0 [] (p1, env1)
   in sp_shm_cfg_sent p2"
proof -
  let ?p = "SlotIqPipeline (default_SlotConfig\<lparr>sc_writer := Gnb\<rparr>) :: unit slot_pipeline"
  obtain out p1 hs1 env1 where st: "slot_start sample_limits 0 (\<lambda>_ _ s. s) ?p (Map.empty :: unit handlers) []
      = (out, p1, hs1, env1)" by (metis prod_cases4)
  then have out: "out = Returned SUCCESS"
    by (auto simp: slot_start_def SlotIqPipeline_def default_SlotConfig_def)
  obtain p2 env2 where pb: "slot_process_buffers (\<lambda>_. sample_desc) 0 0 1 0 [] (p1, env1) = (p2, env2)"
    by fastforce
  have "validate (sc_radio (sp_config ?p)) = None"
    by (simp add: SlotIqPipeline_def default_SlotConfig_def default_RadioGeometry_def validate_def
        u16_per_ant_def nof_subcarriers_def kScPerPrb_def)
  from slot_start_reconfigures_helper[OF _ _ this st[unfolded out] pb] st pb show ?thesis
    by (simp add: SlotIqPipeline_def)
qed

end
