(* ===== verification/Bfp_Decompress.thy ===== *)
theory Bfp_Decompress
  imports E3_Prelude
begin

text \<open>
  Block-floating-point decompression of O-RAN sections
  (\<^verbatim>\<open>src/e3sm/utils/bfp_decompress.cpp\<close>).  A read outside the byte array and a shift by 32 or more are
  undefined behaviour and give \<open>BfpUndefined\<close>.  The reference is the bit stream itself, most significant
  bit first, and a packer that produces it.
\<close>

definition BFP_PRB_SIZE :: nat where
  "BFP_PRB_SIZE = 28"

definition INT16_PER_PRB :: nat where
  "INT16_PER_PRB = 12 * 2"

text \<open>\<open>data\<close> is the array from the pointer to its end.\<close>

definition extract_9bit :: "u8 list \<Rightarrow> nat \<Rightarrow> i16 option" where
  "extract_9bit data bit_offset =
     (let byte_idx = bit_offset div 8;
          bit_pos = bit_offset mod 8
      in if length data \<le> byte_idx + 2 then None
         else
           let window = push_bit 16 (ucast (data ! byte_idx)) OR push_bit 8 (ucast (data ! (byte_idx + 1)))
                 OR ucast (data ! (byte_idx + 2)) :: u32;
               shift = 24 - bit_pos - 9;
               raw = ucast (drop_bit shift window AND 0x1FF) :: u16
           in Some (if raw AND 0x100 \<noteq> 0 then raw OR 0xFE00 else raw))"

text \<open>
  \<^verbatim>\<open>int16_t value = mantissa << exponent\<close>: the shift is done on \<^verbatim>\<open>int\<close> and the result keeps the low
  sixteen bits.  A negative mantissa is shifted as GCC and clang do it, as a multiplication by a power of two
  modulo \<open>2 ^ 32\<close>; C++17 leaves that shift undefined, and C++20 defines it so.
\<close>

definition shift_mantissa :: "i16 \<Rightarrow> u8 \<Rightarrow> i16 option" where
  "shift_mantissa m e = (if 32 \<le> unat e then None else Some (ucast (push_bit (unat e) (scast m :: i32))))"

definition decompress_value :: "u8 list \<Rightarrow> nat \<Rightarrow> nat \<Rightarrow> i16 option" where
  "decompress_value data prb i =
     (let prb_data = drop (prb * BFP_PRB_SIZE) data
      in case prb_data of
           [] \<Rightarrow> None
         | exponent # iq_bytes \<Rightarrow>
             Option.bind (extract_9bit iq_bytes (i * 9)) (\<lambda>m. shift_mantissa m exponent))"

datatype bfp_result =
    BfpFalse
  | BfpTrue "i16 list"
  | BfpUndefined

definition sequence_option :: "'a option list \<Rightarrow> 'a list option" where
  "sequence_option xs = (if None \<in> set xs then None else Some (map the xs))"

definition decompress_bfp_9bit :: "u8 list \<Rightarrow> size_t \<Rightarrow> u16 \<Rightarrow> bfp_result" where
  "decompress_bfp_9bit data data_len num_prbu =
     (let expected_len = ucast num_prbu * of_nat BFP_PRB_SIZE
      in if data_len < expected_len then BfpFalse
         else case sequence_option
             (concat (map (\<lambda>prb. map (decompress_value data prb) [0..<INT16_PER_PRB]) [0..<unat num_prbu])) of
             None \<Rightarrow> BfpUndefined
           | Some out_iq \<Rightarrow> BfpTrue out_iq)"

section \<open>The bit stream\<close>

definition stream_bit :: "u8 list \<Rightarrow> nat \<Rightarrow> bool" where
  "stream_bit data n = bit (data ! (n div 8)) (7 - n mod 8)"

lemma window_bit:
  fixes a b c :: u8 and w :: u32
  assumes "pos < 8" "j < 9" and w: "w = push_bit 16 (ucast a) OR push_bit 8 (ucast b) OR ucast c"
  shows "bit (drop_bit (24 - pos - 9) w) j
    = (let n = pos + 8 - j in bit ([a, b, c] ! (n div 8)) (7 - n mod 8))"
proof -
  define k where "k = j + (24 - pos - 9)"
  have k: "k < 24" "pos + 8 - j = 23 - k" using assms(1,2) by (simp_all add: k_def)
  have "bit w k
      = (if 16 \<le> k then bit a (k - 16) else if 8 \<le> k then bit b (k - 8) else bit c k)"
    using k(1) bit_imp_le_length[of a] bit_imp_le_length[of b] bit_imp_le_length[of c]
    by (auto simp: w bit_or_iff bit_push_bit_iff bit_ucast_iff dest: bit_imp_le_length)
  moreover have "bit (drop_bit (24 - pos - 9) w) j = bit w k"
    by (simp add: bit_drop_bit_eq k_def add.commute)
  moreover consider "16 \<le> k" | "8 \<le> k" "k < 16" | "k < 8" by linarith
  then have "bit ([a, b, c] ! ((23 - k) div 8)) (7 - (23 - k) mod 8)
      = (if 16 \<le> k then bit a (k - 16) else if 8 \<le> k then bit b (k - 8) else bit c k)"
  proof cases
    case 1
    then have "(23 - k) div 8 = 0" "7 - (23 - k) mod 8 = k - 16" using k(1) by simp_all
    then show ?thesis using 1 by simp
  next
    case 2
    then have "23 - k = (15 - k) + 1 * 8" "15 - k < 8" by simp_all
    then have "(23 - k) div 8 = 1" "7 - (23 - k) mod 8 = k - 8"
      unfolding \<open>23 - k = _\<close> div_mult_self1 mod_mult_self1 using 2 by simp_all
    then show ?thesis using 2 by simp
  next
    case 3
    then have "23 - k = (7 - k) + 2 * 8" "7 - k < 8" by simp_all
    then have "(23 - k) div 8 = 2" "7 - (23 - k) mod 8 = k"
      unfolding \<open>23 - k = _\<close> div_mult_self1 mod_mult_self1 using 3 by simp_all
    then show ?thesis using 3 by simp
  qed
  ultimately show ?thesis
    by (simp only: k(2) Let_def)
qed

text \<open>The value is the nine stream bits from the offset on, the first of them the sign.\<close>

lemma mask9: "(0x1FF :: u32) = mask 9"
  by (simp add: mask_eq_exp_minus_1)

text \<open>The nine bits cut out of the three-byte window, and their sign extension.\<close>

lemma raw_bits:
  fixes window :: u32 and raw :: u16
  assumes "bit_offset = 8 * q + pos" "pos < 8"
    and "window = push_bit 16 (ucast (data ! q)) OR push_bit 8 (ucast (data ! (q + 1))) OR ucast (data ! (q + 2))"
    and "raw = ucast (drop_bit (24 - pos - 9) window AND 0x1FF)"
  shows "bit raw j \<longleftrightarrow> j < 9 \<and> stream_bit data (bit_offset + 8 - j)"
proof (cases "j < 9")
  case True
  let ?n = "pos + 8 - j"
  have "bit raw j = bit ([data ! q, data ! (q + 1), data ! (q + 2)] ! (?n div 8)) (7 - ?n mod 8)"
    using window_bit[OF assms(2) True assms(3)] True
    by (simp add: assms(4) mask9 bit_ucast_iff bit_and_iff bit_mask_iff Let_def)
  moreover have "[data ! q, data ! (q + 1), data ! (q + 2)] ! (?n div 8) = data ! (q + ?n div 8)"
  proof -
    have "?n div 8 \<le> 1" using assms(2) div_le_mono[of ?n 15 8] by simp
    then consider "?n div 8 = 0" | "?n div 8 = 1" by linarith
    then show ?thesis by cases simp_all
  qed
  moreover have "stream_bit data (bit_offset + 8 - j) = bit (data ! (q + ?n div 8)) (7 - ?n mod 8)"
  proof -
    have "bit_offset + 8 - j = ?n + q * 8" using True assms(1) by simp
    then show ?thesis by (simp only: stream_bit_def div_mult_self1[OF numeral_neq_zero] mod_mult_self1)
  qed
  ultimately show ?thesis using True by simp
next
  case False
  then show ?thesis by (simp add: assms(4) mask9 bit_ucast_iff bit_and_iff bit_mask_iff)
qed

lemma sign_extended_bits:
  fixes raw :: u16
  assumes "\<And>j. bit raw j \<Longrightarrow> j < 9" "j < 16"
  shows "bit (if raw AND 0x100 \<noteq> 0 then raw OR 0xFE00 else raw) j \<longleftrightarrow> bit raw (min j 8)"
proof -
  have w: "(0x100 :: u16) = push_bit 8 1" "(0xFE00 :: u16) = NOT (mask 9)" by (simp_all add: mask_eq_exp_minus_1)
  have "raw AND 0x100 \<noteq> 0 \<longleftrightarrow> bit raw 8" unfolding w(1) by (simp only: bit_iff_and_push_bit_not_eq_0)
  moreover have "bit (0xFE00 :: u16) j \<longleftrightarrow> 9 \<le> j" unfolding w(2) using assms(2) by (auto simp: bit_not_iff bit_mask_iff)
  ultimately show ?thesis using assms(1)[of j] by (cases "j \<le> 8") (auto simp: bit_or_iff min_def)
qed

lemma extract_bits:
  assumes "bit_offset div 8 + 2 < length data"
  shows "\<exists>v. extract_9bit data bit_offset = Some v
    \<and> (\<forall>j < 16. bit v j = stream_bit data (bit_offset + 8 - min j 8))"
proof -
  define q where "q = bit_offset div 8"
  define pos where "pos = bit_offset mod 8"
  have pos: "bit_offset = 8 * q + pos" "pos < 8" by (simp_all add: pos_def q_def)
  define window :: u32 where "window = push_bit 16 (ucast (data ! q)) OR push_bit 8 (ucast (data ! (q + 1)))
      OR ucast (data ! (q + 2))"
  define raw :: u16 where "raw = ucast (drop_bit (24 - pos - 9) window AND 0x1FF)"
  define v where "v = (if raw AND 0x100 \<noteq> 0 then raw OR 0xFE00 else raw)"
  note raw = raw_bits[OF pos window_def raw_def]
  have "bit v j = stream_bit data (bit_offset + 8 - min j 8)" if "j < 16" for j
    unfolding v_def using sign_extended_bits[of raw j] raw that by (simp add: min_def)
  moreover have "extract_9bit data bit_offset = Some v"
    using assms by (simp add: extract_9bit_def v_def raw_def window_def q_def pos_def Let_def)
  ultimately show ?thesis by blast
qed

lemma extract_short: "length data \<le> bit_offset div 8 + 2 \<Longrightarrow> extract_9bit data bit_offset = None"
  by (simp add: extract_9bit_def)

section \<open>A reference packer\<close>

definition byte_of_bits :: "(nat \<Rightarrow> bool) \<Rightarrow> nat \<Rightarrow> u8" where
  "byte_of_bits f b = horner_sum of_bool 2 (map (\<lambda>k. f (8 * b + 7 - k)) [0..<8])"

definition bfp_pack :: "int list \<Rightarrow> u8 list" where
  "bfp_pack ms = map (byte_of_bits (\<lambda>n. bit (ms ! (n div 9)) (8 - n mod 9))) [0..<27]"

definition bfp_compress :: "(u8 \<times> int list) list \<Rightarrow> u8 list" where
  "bfp_compress blocks = concat (map (\<lambda>(e, ms). e # bfp_pack ms) blocks)"

definition bfp_block_ok :: "u8 \<times> int list \<Rightarrow> bool" where
  "bfp_block_ok b \<longleftrightarrow> length (snd b) = 24 \<and> (\<forall>m \<in> set (snd b). -256 \<le> m \<and> m < 256) \<and> unat (fst b) < 32"

lemma bit_byte_of_bits: "k < 8 \<Longrightarrow> bit (byte_of_bits f b) k = f (8 * b + 7 - k)"
  by (simp add: byte_of_bits_def bit_horner_sum_bit_word_iff)

lemma bfp_pack_length [simp]: "length (bfp_pack ms) = 27"
  by (simp add: bfp_pack_def)

lemma bfp_compress_length: "length (bfp_compress blocks) = 28 * length blocks"
  by (induction blocks) (auto simp: bfp_compress_def)

lemma stream_bit_pack:
  assumes "n < 216"
  shows "stream_bit (bfp_pack ms @ rest) n = bit (ms ! (n div 9)) (8 - n mod 9)"
proof -
  have "n div 8 < 27" using assms div_le_mono[of n 215 8] by simp
  then have "(bfp_pack ms @ rest) ! (n div 8)
      = byte_of_bits (\<lambda>n. bit (ms ! (n div 9)) (8 - n mod 9)) (n div 8)"
    by (simp add: nth_append bfp_pack_def)
  moreover have "8 * (n div 8) + 7 - (7 - n mod 8) = n"
  proof -
    have "n mod 8 \<le> 7" using mod_less_divisor[of 8 n] by linarith
    then show ?thesis using mult_div_mod_eq[of 8 n] by linarith
  qed
  ultimately show ?thesis by (simp add: stream_bit_def bit_byte_of_bits)
qed

lemma extract_packed:
  assumes "i < 24" "length ms = 24" "-256 \<le> ms ! i" "ms ! i < 256" "rest \<noteq> []"
  shows "extract_9bit (bfp_pack ms @ rest) (i * 9) = Some (word_of_int (ms ! i))"
proof -
  let ?d = "bfp_pack ms @ rest"
  have "i * 9 div 8 \<le> 25" using assms(1) div_le_mono[of "i * 9" 207 8] by simp
  then have "i * 9 div 8 + 2 < length ?d" using assms(5) by (cases rest) simp_all
  from extract_bits[OF this] obtain v where v: "extract_9bit ?d (i * 9) = Some v"
    and bits: "\<And>j. j < 16 \<Longrightarrow> bit v j = stream_bit ?d (i * 9 + 8 - min j 8)" by blast
  have m: "signed_take_bit 8 (ms ! i) = ms ! i"
    using assms(3,4) by (simp add: signed_take_bit_int_eq_self_iff)
  have "v = word_of_int (ms ! i)"
  proof (rule bit_word_eqI)
    fix j assume "j < LENGTH(16)"
    then have j: "j < 16" by simp
    define k where "k = min j 8"
    have k: "k \<le> 8" by (simp add: k_def)
    have idx: "i * 9 + 8 - k = (8 - k) + i * 9" "i * 9 + 8 - k < 216" using k assms(1) by simp_all
    have "(i * 9 + 8 - k) div 9 = i" "8 - (i * 9 + 8 - k) mod 9 = k"
      unfolding idx(1) div_mult_self1[of 9 "8 - k" i, simplified] mod_mult_self1 using k by simp_all
    then have "bit v j = bit (ms ! i) k"
      using bits[OF j] stream_bit_pack[OF idx(2)] by (simp add: k_def)
    also have "\<dots> = bit (signed_take_bit 8 (ms ! i)) j"
      by (simp add: bit_signed_take_bit_iff k_def min.commute)
    finally show "bit v j = bit (word_of_int (ms ! i) :: i16) j"
      using j by (simp add: m bit_word_of_int_iff)
  qed
  with v show ?thesis by simp
qed

lemma scast_word_of_int:
  assumes "-256 \<le> m" "m < 256"
  shows "(scast (word_of_int m :: i16) :: i32) = word_of_int m"
proof -
  have "sint (word_of_int m :: i16) = m"
    using assms by (simp add: signed_of_int signed_take_bit_int_eq_self_iff)
  then show ?thesis by (simp add: scast_eq)
qed

lemma shift_word_of_int:
  assumes "unat e < 32" "-256 \<le> m" "m < 256"
  shows "shift_mantissa (word_of_int m) e = Some (word_of_int (m * 2 ^ unat e))"
proof -
  have "push_bit (unat e) (word_of_int m :: i32) = word_of_int (m * 2 ^ unat e)"
    by (simp add: push_bit_eq_mult)
  moreover have "(ucast (word_of_int k :: i32) :: i16) = word_of_int k" for k
    by (rule bit_word_eqI) (simp add: bit_ucast_iff bit_word_of_int_iff)
  ultimately show ?thesis
    using scast_word_of_int[OF assms(2,3)]
    by (simp only: shift_mantissa_def if_not_P[OF assms(1)[unfolded not_le[symmetric]]])
qed

lemma drop_blocks:
  "(\<forall>x \<in> set xs. length x = n) \<Longrightarrow> i \<le> length xs \<Longrightarrow>
     drop (i * n) (concat xs @ rest) = concat (drop i xs) @ rest"
proof (induction xs arbitrary: i)
  case (Cons x xs)
  then show ?case by (cases i) (simp_all add: add.commute[of n])
qed simp

lemma drop_compress:
  assumes "prb < length blocks"
  shows "\<exists>rest'. drop (prb * BFP_PRB_SIZE) (bfp_compress blocks @ rest)
    = fst (blocks ! prb) # bfp_pack (snd (blocks ! prb)) @ rest' @ rest"
proof -
  let ?f = "\<lambda>(e, ms). e # bfp_pack ms"
  have "drop (prb * 28) (concat (map ?f blocks) @ rest) = concat (drop prb (map ?f blocks)) @ rest"
    using assms by (intro drop_blocks) auto
  also have "drop prb (map ?f blocks) = ?f (blocks ! prb) # drop (Suc prb) (map ?f blocks)"
    using assms by (simp add: Cons_nth_drop_Suc[symmetric])
  finally show ?thesis
    by (auto simp: bfp_compress_def BFP_PRB_SIZE_def split: prod.splits)
qed

lemma decompress_packed_value:
  assumes "prb < length blocks" "bfp_block_ok (blocks ! prb)" "i < 24" "rest \<noteq> []"
  shows "decompress_value (bfp_compress blocks @ rest) prb i
    = Some (word_of_int (snd (blocks ! prb) ! i * 2 ^ unat (fst (blocks ! prb))))"
proof -
  obtain rest' where d: "drop (prb * BFP_PRB_SIZE) (bfp_compress blocks @ rest)
      = fst (blocks ! prb) # bfp_pack (snd (blocks ! prb)) @ rest' @ rest"
    using drop_compress[OF assms(1)] by blast
  have m: "-256 \<le> snd (blocks ! prb) ! i" "snd (blocks ! prb) ! i < 256"
    using assms(2,3) by (simp_all add: bfp_block_ok_def)
  show ?thesis
    using extract_packed[of i "snd (blocks ! prb)" "rest' @ rest"] assms m
      shift_word_of_int[of "fst (blocks ! prb)" "snd (blocks ! prb) ! i"]
    by (simp add: decompress_value_def d bfp_block_ok_def del: drop_append)
qed

section \<open>Theorems\<close>

lemma concat_values:
  assumes "length blocks = n" "\<And>prb i. prb < n \<Longrightarrow> i < 24 \<Longrightarrow> length (snd (blocks ! prb)) = 24
      \<and> f prb i = Some (g (fst (blocks ! prb)) (snd (blocks ! prb) ! i))"
  shows "sequence_option (concat (map (\<lambda>prb. map (f prb) [0..<24]) [0..<n]))
    = Some (concat (map (\<lambda>(e, ms). map (g e) ms) blocks))"
proof -
  have row: "map (f prb) [0..<24] = map (Some \<circ> g (fst (blocks ! prb))) (snd (blocks ! prb))"
    if "prb < n" for prb
    by (rule nth_equalityI) (use assms(2)[OF that] assms(2)[OF that, of 0] in auto)
  have "concat (map (\<lambda>prb. map (f prb) [0..<24]) [0..<n])
      = concat (map (\<lambda>prb. map (Some \<circ> g (fst (blocks ! prb))) (snd (blocks ! prb))) [0..<n])"
    using row by (intro arg_cong[where f = concat] map_cong) simp_all
  also have "\<dots> = map Some (concat (map (\<lambda>prb. map (g (fst (blocks ! prb))) (snd (blocks ! prb))) [0..<n]))"
    by (simp add: map_concat comp_def)
  also have "map (\<lambda>prb. map (g (fst (blocks ! prb))) (snd (blocks ! prb))) [0..<n]
      = map (\<lambda>(e, ms). map (g e) ms) blocks"
    using assms(1) by (intro nth_equalityI) (auto split: prod.splits)
  finally show ?thesis by (auto simp: sequence_option_def)
qed

lemma expected_len_exact: "unat (ucast num_prbu * of_nat BFP_PRB_SIZE :: size_t) = unat num_prbu * 28"
  for num_prbu :: u16
proof -
  have "unat num_prbu < 65536" using unat_word_less[of num_prbu] by simp
  then show ?thesis by (subst unat_mult_no_wrap) (simp_all add: BFP_PRB_SIZE_def)
qed

lemma decompress_packed:
  assumes "\<forall>b \<in> set blocks. bfp_block_ok b" and "length blocks = unat num_prbu" and "rest \<noteq> []"
    and "unat num_prbu * 28 \<le> unat data_len"
  shows "decompress_bfp_9bit (bfp_compress blocks @ rest) data_len num_prbu
    = BfpTrue (concat (map (\<lambda>(e, ms). map (\<lambda>m. word_of_int (m * 2 ^ unat e)) ms) blocks))"
proof -
  have "\<not> data_len < ucast num_prbu * of_nat BFP_PRB_SIZE"
    using assms(4) by (simp only: word_less_nat_alt expected_len_exact not_less)
  moreover have "sequence_option (concat (map (\<lambda>prb. map (decompress_value (bfp_compress blocks @ rest) prb)
      [0..<24]) [0..<unat num_prbu]))
    = Some (concat (map (\<lambda>(e, ms). map (\<lambda>m. word_of_int (m * 2 ^ unat e)) ms) blocks))"
  proof (rule concat_values[OF assms(2)], goal_cases)
    case (1 prb i)
    then have "bfp_block_ok (blocks ! prb)" using assms(1,2) by simp
    then show ?case
      using decompress_packed_value[of prb blocks i rest] 1 assms(2,3)
      by (simp only: bfp_block_ok_def) blast
  qed
  ultimately show ?thesis
    by (simp only: decompress_bfp_9bit_def Let_def if_False option.case INT16_PER_PRB_def) simp
qed

text \<open>C16.
  Decompression inverts packing: for blocks of 24 nine-bit mantissas packed most significant bit first
  behind an exponent byte below 32, followed by at least one more readable byte, the result is every
  mantissa times two to its block's exponent, reduced to sixteen bits, in order.  The byte read past
  the end of a block never influences a value.\<close>

theorem bfp_roundtrip:
  assumes "\<forall>b \<in> set blocks. bfp_block_ok b" and "length blocks = unat num_prbu" and "rest \<noteq> []"
    and "unat num_prbu * 28 \<le> unat data_len"
  shows "decompress_bfp_9bit (bfp_compress blocks @ rest) data_len num_prbu
    = BfpTrue (concat (map (\<lambda>(e, ms). map (\<lambda>m. word_of_int (m * 2 ^ unat e)) ms) blocks))"
  by (rule decompress_packed[OF assms])

theorem bfp_roundtrip_witness:
  "decompress_bfp_9bit (bfp_compress [(3, replicate 24 (-5))] @ [7]) 28 1
     = BfpTrue (replicate 24 (word_of_int (-40)))"
proof -
  have "decompress_bfp_9bit (bfp_compress [(3, replicate 24 (-5))] @ [7]) 28 1
      = BfpTrue (concat (map (\<lambda>(e, ms). map (\<lambda>m. word_of_int (m * 2 ^ unat e)) ms)
          [(3 :: u8, replicate 24 (-5))]))"
    by (rule bfp_roundtrip) (simp_all add: bfp_block_ok_def)
  then show ?thesis by simp
qed

lemma extract_defined:
  "i < 24 \<Longrightarrow> 28 \<le> length data \<Longrightarrow> extract_9bit data (i * 9) \<noteq> None"
proof -
  assume "i < 24" "28 \<le> length data"
  then have "i * 9 div 8 + 2 < length data" using div_le_mono[of "i * 9" 207 8] by simp
  from extract_bits[OF this] show ?thesis by auto
qed

lemma decompress_value_defined:
  assumes "prb * 28 + 29 \<le> length data" "i < 24" "unat (data ! (prb * 28)) < 32"
  shows "decompress_value data prb i \<noteq> None"
proof -
  have "drop (prb * BFP_PRB_SIZE) data = data ! (prb * 28) # drop (prb * 28 + 1) data"
    using assms(1) by (simp add: BFP_PRB_SIZE_def Cons_nth_drop_Suc)
  moreover obtain m where "extract_9bit (drop (prb * 28 + 1) data) (i * 9) = Some m"
    using extract_defined[OF assms(2), of "drop (prb * 28 + 1) data"] assms(1) by force
  ultimately show ?thesis
    using assms(3) by (simp add: decompress_value_def shift_mantissa_def)
qed

lemma payload_value_defined:
  assumes "length payload = 8192" "unat payload_size \<le> 8192" "\<not> unat payload_size < unat num_prbu * 28"
    and "\<forall>prb < unat num_prbu. unat (payload ! (prb * 28)) < 32" and "prb < unat num_prbu" "i < 24"
  shows "decompress_value payload prb i \<noteq> None"
proof (rule decompress_value_defined)
  have "unat num_prbu \<le> 292" using assms(2,3) by simp
  then show "prb * 28 + 29 \<le> length payload" using assms(1,5) by simp
qed (use assms(4-6) in simp_all)

text \<open>C17.
  Inside the pipeline the decoder is memory safe: with the 8192-byte payload array of a codelet sample,
  a payload size within it and exponent bytes below 32, decompression of any PRB count either reports
  a short payload or succeeds with 24 values per PRB; the one-byte over-read of the last value stays
  inside the array.\<close>

theorem bfp_payload_safe:
  assumes "length payload = 8192" and "unat payload_size \<le> 8192"
    and "\<forall>prb < unat num_prbu. unat (payload ! (prb * 28)) < 32"
  shows "decompress_bfp_9bit payload payload_size num_prbu =
      (if unat payload_size < unat num_prbu * 28 then BfpFalse
       else BfpTrue (concat (map (\<lambda>prb. map (the \<circ> decompress_value payload prb) [0..<24])
         [0..<unat num_prbu])))"
proof (cases "unat payload_size < unat num_prbu * 28")
  case True
  then show ?thesis
    by (simp add: decompress_bfp_9bit_def word_less_nat_alt[of payload_size] expected_len_exact Let_def)
next
  case False
  have "decompress_value payload prb i \<noteq> None" if "prb < unat num_prbu" "i < 24" for prb i
    using payload_value_defined[OF assms(1,2) False assms(3) that] .
  then have "None \<notin> set (concat (map (\<lambda>prb. map (decompress_value payload prb) [0..<24]) [0..<unat num_prbu]))"
    by force
  then show ?thesis using False
    by (simp add: decompress_bfp_9bit_def word_less_nat_alt[of payload_size] expected_len_exact Let_def
        sequence_option_def INT16_PER_PRB_def map_concat comp_def)
qed

theorem bfp_payload_safe_witness:
  "decompress_bfp_9bit (replicate 8192 1) 20 1 = BfpFalse
     \<and> (\<exists>iq. decompress_bfp_9bit (replicate 8192 1) 28 1 = BfpTrue iq \<and> length iq = 24)"
proof -
  have "\<forall>prb < unat (1 :: u16). unat (replicate 8192 (1 :: u8) ! (prb * 28)) < 32" by simp
  from bfp_payload_safe[OF length_replicate _ this, of 20] bfp_payload_safe[OF length_replicate _ this, of 28]
  show ?thesis by simp
qed

text \<open>Without the condition on the exponents: decoding is undefined exactly when it starts and an exponent byte
  is 32 or more.\<close>

lemma exponent_undefined:
  assumes "prb * 28 < length data" "32 \<le> unat (data ! (prb * 28))"
  shows "decompress_value data prb i = None"
proof -
  have "drop (prb * BFP_PRB_SIZE) data = data ! (prb * 28) # drop (Suc (prb * 28)) data"
    using assms(1) by (simp add: BFP_PRB_SIZE_def Cons_nth_drop_Suc)
  then show ?thesis using assms(2) by (cases "extract_9bit (drop (Suc (prb * 28)) data) (i * 9)")
    (simp_all add: decompress_value_def shift_mantissa_def)
qed

lemma payload_defined_iff:
  assumes "length data = 8192" "unat n \<le> 8192"
  shows "decompress_bfp_9bit data n num_prbu \<noteq> BfpUndefined
    \<longleftrightarrow> unat n < unat num_prbu * 28 \<or> (\<forall>prb < unat num_prbu. unat (data ! (prb * 28)) < 32)"
proof (cases "unat n < unat num_prbu * 28")
  case True
  then show ?thesis
    by (simp add: decompress_bfp_9bit_def word_less_nat_alt[of n] expected_len_exact Let_def)
next
  case False
  let ?all = "concat (map (\<lambda>prb. map (decompress_value data prb) [0..<24]) [0..<unat num_prbu])"
  have "None \<notin> set ?all \<longleftrightarrow> (\<forall>prb < unat num_prbu. unat (data ! (prb * 28)) < 32)"
  proof
    assume none: "None \<notin> set ?all"
    show "\<forall>prb < unat num_prbu. unat (data ! (prb * 28)) < 32"
    proof (intro allI impI)
      fix prb assume prb: "prb < unat num_prbu"
      then have "decompress_value data prb 0 \<noteq> None" using none by force
      then show "unat (data ! (prb * 28)) < 32"
        using exponent_undefined[of prb data 0] prb False assms by (fastforce simp: not_less)
    qed
  next
    assume "\<forall>prb < unat num_prbu. unat (data ! (prb * 28)) < 32"
    then have "decompress_value data prb i \<noteq> None" if "prb < unat num_prbu" "i < 24" for prb i
      using payload_value_defined[OF assms False _ that] by blast
    then show "None \<notin> set ?all" by force
  qed
  moreover have "decompress_bfp_9bit data n num_prbu \<noteq> BfpUndefined \<longleftrightarrow> None \<notin> set ?all"
    using False by (simp add: decompress_bfp_9bit_def word_less_nat_alt[of n] expected_len_exact Let_def sequence_option_def
        INT16_PER_PRB_def)
  ultimately show ?thesis using False by blast
qed

text \<open>Given exactly the documented 28 bytes per PRB and nothing behind them, the decoder reads one byte
  beyond the end of its input.\<close>

theorem bfp_exact_input_overread:
  assumes "length data = unat num_prbu * 28" and "0 < unat num_prbu"
  shows "decompress_bfp_9bit data (of_nat (length data)) num_prbu = BfpUndefined"
proof -
  let ?last = "unat num_prbu - 1"
  have "unat num_prbu < 65536" using unat_word_less[of num_prbu] by simp
  then have len: "unat (of_nat (length data) :: size_t) = unat num_prbu * 28"
    unfolding assms(1) unat_of_nat_mod by simp
  have start: "?last * 28 < length data" using assms by simp
  have "length (drop (Suc (?last * 28)) data) = 27" using assms by (simp add: diff_mult_distrib)
  then have "extract_9bit (drop (Suc (?last * 28)) data) (23 * 9) = None" by (intro extract_short) simp
  then have "decompress_value data ?last 23 = None"
    using Cons_nth_drop_Suc[OF start, symmetric] by (simp add: decompress_value_def BFP_PRB_SIZE_def)
  moreover have "?last < unat num_prbu" using assms(2) by simp
  ultimately have "None \<in> set (concat (map (\<lambda>prb. map (decompress_value data prb) [0..<INT16_PER_PRB])
      [0..<unat num_prbu]))"
    by (auto simp: INT16_PER_PRB_def intro!: bexI[of _ ?last] image_eqI[of _ _ 23])
  then show ?thesis
    by (simp add: decompress_bfp_9bit_def word_less_nat_alt[of "of_nat _"] expected_len_exact len Let_def
        sequence_option_def)
qed

theorem bfp_exact_input_overread_witness:
  "decompress_bfp_9bit (replicate 28 0) 28 1 = BfpUndefined"
  using bfp_exact_input_overread[of "replicate 28 0" 1] by simp

end
