(* ===== verification/Iq_Pipeline.thy ===== *)
theory Iq_Pipeline
  imports Slot_Iq_Pipeline Bfp_Decompress
begin

text \<open>
  The eCPRI pipeline (\<^verbatim>\<open>src/e3sm/iq_pipeline.h\<close>, \<^verbatim>\<open>iq_pipeline.cpp\<close>): like the slot pipeline it queues
  the pointers of owned buffers, but it filters by direction and PRB count first and its worker
  decompresses a section before the fan-out.  A decompression that reads outside its array is undefined
  behaviour and ends the model's run.
\<close>

section \<open>State\<close>

record DecompressedSample =
  ds_raw :: iq_sample_data
  ds_decompressed_iq :: "i16 list"
  ds_recv_us :: u32
  ds_sample_id :: u32
  ds_gnb_ts_ns :: u64
  ds_codelet_ts_ns :: u64
  ds_dispatch_ts_ns :: u64
  ds_decompress_ns :: u64

type_synonym 'w IqConsumer = "DecompressedSample \<Rightarrow> 'w \<Rightarrow> 'w"

record IqConfig =
  ic_lcm_socket_path :: string
  ic_codelet_base_path :: string
  ic_expected_num_prbu :: u16
  ic_worker_core :: i32

definition default_IqConfig :: IqConfig where
  "default_IqConfig =
     \<lparr>ic_lcm_socket_path = ''/tmp/jbpf/jbpf_lcm_ipc'', ic_codelet_base_path = [],
      ic_expected_num_prbu = 106, ic_worker_core = -1\<rparr>"

definition iq_QUEUE_CAPACITY :: u64 where
  "iq_QUEUE_CAPACITY = 64"

definition ecpri_iq_stream_id :: stream_id where
  "ecpri_iq_stream_id =
     [0xF1, 0xF2, 0x29, 0x0F, 0xD2, 0x68, 0x5D, 0x17, 0xEC, 0xC9, 0x90, 0x2C, 0x4C, 0x9F, 0x05, 0xFE]"

definition prb_config_stream_id :: stream_id where
  "prb_config_stream_id =
     [0xA1, 0xB2, 0xC3, 0xD4, 0xE5, 0xF6, 0x07, 0x18, 0x29, 0x3A, 0x4B, 0x5C, 0x6D, 0x7E, 0x8F, 0x90]"

record 'w iq_pipeline =
  ip_config :: IqConfig
  ip_consumers :: "'w IqConsumer list"
  ip_running :: bool
  ip_codelets_loaded :: bool
  ip_prb_config_sent :: bool
  ip_worker_joinable :: bool
  ip_queue :: "QueueEntry spsc_ring"
  ip_dropped :: u64
  ip_total_samples_received :: u32
  ip_decompressed_buf :: "i16 list"

definition IqPipeline :: "IqConfig \<Rightarrow> 'w iq_pipeline" where
  "IqPipeline cfg =
     \<lparr>ip_config = cfg, ip_consumers = [], ip_running = False, ip_codelets_loaded = False,
      ip_prb_config_sent = False, ip_worker_joinable = False,
      ip_queue = ring_init iq_QUEUE_CAPACITY zero_entry, ip_dropped = 0,
      ip_total_samples_received = 0, ip_decompressed_buf = []\<rparr>"

definition iq_register_consumer :: "'w IqConsumer \<Rightarrow> 'w iq_pipeline \<Rightarrow> 'w iq_pipeline" where
  "iq_register_consumer c p = p\<lparr>ip_consumers := ip_consumers p @ [c]\<rparr>"

section \<open>Codelet loading\<close>

definition iq_load_req :: "lcm_limits \<Rightarrow> IqConfig \<Rightarrow> lcm_request" where
  "iq_load_req L c =
     LoadReq (strncpy_field (address_len L) (ic_lcm_socket_path c))
       (strncpy_field (codeletset_name_len L) ''ecpri_iq_samples'')
       [\<lparr>codelet_name = strncpy_field (codelet_name_len L) ''collector'',
         hook_name = strncpy_field (hook_name_len L) ''capture_xran_packet'',
         codelet_path = strncpy_field (path_len L)
           (ic_codelet_base_path c @ ''/ecpri_iq_samples/ecpri_iq_collect.o''),
         priority = 1, runtime_threshold = 0, num_linked_maps = 0,
         in_io_channel =
           [\<lparr>ch_name = strncpy_field (channel_name_len L) ''prb_config_map'',
             ch_stream_id = prb_config_stream_id, ch_has_serde = False\<rparr>],
         out_io_channel =
           [\<lparr>ch_name = strncpy_field (channel_name_len L) ''output_map'',
             ch_stream_id = ecpri_iq_stream_id, ch_has_serde = False\<rparr>]\<rparr>]"

definition iq_load_codelets ::
    "lcm_limits \<Rightarrow> i32 \<Rightarrow> IqConfig \<Rightarrow> jbpf_env \<Rightarrow> bool \<times> jbpf_env" where
  "iq_load_codelets L rc c env = (rc = 0, lcm_send (iq_load_req L c) env)"

definition iq_unload_codelets :: "lcm_limits \<Rightarrow> IqConfig \<Rightarrow> jbpf_env \<Rightarrow> jbpf_env" where
  "iq_unload_codelets L c env =
     lcm_send (UnloadReq (strncpy_field (address_len L) (ic_lcm_socket_path c))
       (strncpy_field (codeletset_name_len L) ''ecpri_iq_samples'')) env"

section \<open>Start and stop\<close>

definition iq_start ::
    "lcm_limits \<Rightarrow> i32 \<Rightarrow> 's BufferHandler \<Rightarrow> 'w iq_pipeline \<Rightarrow> 's handlers \<Rightarrow> jbpf_env
      \<Rightarrow> start_outcome \<times> 'w iq_pipeline \<times> 's handlers \<times> jbpf_env" where
  "iq_start L load_rc callback p hs env =
     (if ip_running p then (Returned SUCCESS, p, hs, env)
      else
        let needs_load = ic_codelet_base_path (ip_config p) \<noteq> [];
            (loaded, env1) = (if needs_load then iq_load_codelets L load_rc (ip_config p) env
                              else (True, env))
        in if \<not> loaded then (Returned INTERNAL_ERROR, p, hs, env1)
           else
             let p1 = (if needs_load then p\<lparr>ip_codelets_loaded := True\<rparr> else p);
                 p2 = p1\<lparr>ip_prb_config_sent := False, ip_running := True\<rparr>
             in if ip_worker_joinable p2 then (Terminated, p2, hs, env1)
                else (Returned SUCCESS, p2\<lparr>ip_worker_joinable := True\<rparr>,
                      register_stream ecpri_iq_stream_id (Some callback) True hs, env1))"

definition iq_release_queued :: "'w iq_pipeline \<Rightarrow> jbpf_env \<Rightarrow> 'w iq_pipeline \<times> jbpf_env" where
  "iq_release_queued p env =
     (let q = ip_queue p
      in (p\<lparr>ip_queue := ring_reset q\<rparr>,
          fold (\<lambda>e. release_buf (q_buf e))
            (ring_drain iq_QUEUE_CAPACITY (queue_slots q) (queue_tail q) (queue_head q)) env))"

definition iq_stop ::
    "lcm_limits \<Rightarrow> 'w iq_pipeline \<Rightarrow> 's handlers \<Rightarrow> jbpf_env
      \<Rightarrow> 'w iq_pipeline \<times> 's handlers \<times> jbpf_env" where
  "iq_stop L p hs env =
     (if \<not> ip_running p then (p, hs, env)
      else
        let hs1 = unregister_stream ecpri_iq_stream_id hs;
            p1 = p\<lparr>ip_running := False, ip_worker_joinable := False\<rparr>;
            (p2, env1) = iq_release_queued p1 env
        in if ip_codelets_loaded p2
           then (p2\<lparr>ip_codelets_loaded := False\<rparr>, hs1, iq_unload_codelets L (ip_config p2) env1)
           else (p2, hs1, env1))"

section \<open>The dispatcher callback\<close>

definition iq_send_prb_config ::
    "i32 \<Rightarrow> 'w iq_pipeline \<times> jbpf_env \<Rightarrow> 'w iq_pipeline \<times> jbpf_env" where
  "iq_send_prb_config rc = (\<lambda>(p, env).
     if ip_prb_config_sent p then (p, env)
     else
       let env1 = send_msg prb_config_stream_id
             (PrbFilterMsg \<lparr>expected_num_prbu = ic_expected_num_prbu (ip_config p)\<rparr>) env
       in (if rc = 0 then p\<lparr>ip_prb_config_sent := True\<rparr> else p, env1))"

definition iq_filtered :: "IqConfig \<Rightarrow> iq_sample_data \<Rightarrow> bool" where
  "iq_filtered c sample \<longleftrightarrow>
     iq_direction sample \<noteq> 1
     \<or> (ic_expected_num_prbu c > 0 \<and> iq_num_prbu sample \<noteq> ic_expected_num_prbu c)"

definition iq_entry :: "(buf \<Rightarrow> iq_sample_data) \<Rightarrow> u64 \<Rightarrow> u32 \<Rightarrow> buf \<Rightarrow> QueueEntry" where
  "iq_entry heap dispatch_ts_ns sample_id b =
     \<lparr>q_buf = b, q_dispatch_ts_ns = dispatch_ts_ns,
      q_recv_us = recv_us_of (us31 dispatch_ts_ns) (ucast (iq_timestamp (heap b))),
      q_sample_id = sample_id\<rparr>"

definition iq_enqueue ::
    "(buf \<Rightarrow> iq_sample_data) \<Rightarrow> u64 \<Rightarrow> buf \<Rightarrow> 'w iq_pipeline \<times> jbpf_env \<Rightarrow> 'w iq_pipeline \<times> jbpf_env"
    where
  "iq_enqueue heap dispatch_ts_ns b = (\<lambda>(p, env).
     if iq_filtered (ip_config p) (heap b) then (p, release_buf b env)
     else if ring_full iq_QUEUE_CAPACITY (ip_queue p)
     then (p\<lparr>ip_dropped := ip_dropped p + 1\<rparr>, release_buf b env)
     else
       let n = ip_total_samples_received p + 1
       in (p\<lparr>ip_queue := ring_push iq_QUEUE_CAPACITY
                (iq_entry heap dispatch_ts_ns n b) (ip_queue p),
             ip_total_samples_received := n\<rparr>, env))"

definition iq_process_buffers ::
    "(buf \<Rightarrow> iq_sample_data) \<Rightarrow> i32 \<Rightarrow> u64 \<Rightarrow> u64 \<Rightarrow> buf list
      \<Rightarrow> 'w iq_pipeline \<times> jbpf_env \<Rightarrow> 'w iq_pipeline \<times> jbpf_env" where
  "iq_process_buffers heap rc tv_sec tv_nsec bufs st =
     fold (iq_enqueue heap (timespec_ns tv_sec tv_nsec)) bufs (iq_send_prb_config rc st)"

record iq_inputs =
  iin_heap :: "buf \<Rightarrow> iq_sample_data"
  iin_rc :: i32
  iin_tv_sec :: u64
  iin_tv_nsec :: u64

definition iq_callback :: "(iq_inputs, 'w iq_pipeline) cb_state BufferHandler" where
  "iq_callback sid bufs = (\<lambda>(i, st).
     (i, iq_process_buffers (iin_heap i) (iin_rc i) (iin_tv_sec i) (iin_tv_nsec i) bufs st))"

section \<open>The worker\<close>

text \<open>
  \<open>None\<close> is undefined behaviour in the decoder.  \<open>decompress_ns\<close> is the measured duration.
\<close>

definition iq_dispatch_sample ::
    "(buf \<Rightarrow> iq_sample_data) \<Rightarrow> u64 \<Rightarrow> QueueEntry \<Rightarrow> 'w iq_pipeline \<times> 'w \<Rightarrow> ('w iq_pipeline \<times> 'w) option" where
  "iq_dispatch_sample heap decompress_ns e = (\<lambda>(p, w).
     let sample = heap (q_buf e)
     in case decompress_bfp_9bit (iq_payload sample) (ucast (iq_payload_size sample)) (iq_num_prbu sample) of
          BfpUndefined \<Rightarrow> None
        | BfpFalse \<Rightarrow> Some (p, w)
        | BfpTrue iq \<Rightarrow>
            let dec = \<lparr>ds_raw = sample, ds_decompressed_iq = iq, ds_recv_us = q_recv_us e,
                  ds_sample_id = q_sample_id e, ds_gnb_ts_ns = iq_gnb_ts_ns sample,
                  ds_codelet_ts_ns = iq_codelet_ts_ns sample, ds_dispatch_ts_ns = q_dispatch_ts_ns e,
                  ds_decompress_ns = decompress_ns\<rparr>
            in Some (p\<lparr>ip_decompressed_buf := iq\<rparr>, fold (\<lambda>c. c dec) (ip_consumers p) w))"

definition iq_worker_step ::
    "(buf \<Rightarrow> iq_sample_data) \<times> u64 \<Rightarrow> 'w iq_pipeline \<times> jbpf_env \<times> 'w
      \<Rightarrow> ('w iq_pipeline \<times> jbpf_env \<times> 'w) option" where
  "iq_worker_step h = (\<lambda>(p, env, w).
     if \<not> ip_running p then None
     else if ring_empty (ip_queue p) then Some (p, env, w)
     else
       let e = ring_front iq_QUEUE_CAPACITY (ip_queue p)
       in case iq_dispatch_sample (fst h) (snd h) e (p, w) of
            None \<Rightarrow> None
          | Some (p', w') \<Rightarrow>
              Some (p'\<lparr>ip_queue := ring_pop (ip_queue p')\<rparr>, release_buf (q_buf e) env, w'))"

text \<open>
  \<open>n\<close> iterations with no producer in between; \<open>None\<close> when one of them is undefined or the loop exits.
\<close>

fun iq_worker_loop ::
    "nat \<Rightarrow> (buf \<Rightarrow> iq_sample_data) \<times> u64 \<Rightarrow> 'w iq_pipeline \<times> jbpf_env \<times> 'w
      \<Rightarrow> ('w iq_pipeline \<times> jbpf_env \<times> 'w) option" where
  "iq_worker_loop 0 h st = Some st"
| "iq_worker_loop (Suc n) h st = Option.bind (iq_worker_step h st) (iq_worker_loop n h)"

section \<open>The queue of owned buffers\<close>

abbreviation iq_queued :: "'w iq_pipeline \<Rightarrow> QueueEntry list" where
  "iq_queued p \<equiv> ring_contents iq_QUEUE_CAPACITY (ip_queue p)"

abbreviation iq_queue_ok :: "'w iq_pipeline \<Rightarrow> bool" where
  "iq_queue_ok p \<equiv> ring_ok iq_QUEUE_CAPACITY (ip_queue p)"

lemma iq_capacity: "unat iq_QUEUE_CAPACITY = 64"
  by (simp add: iq_QUEUE_CAPACITY_def)

lemmas iq_fifo =
  iq_ring.ring.bounded[folded iq_QUEUE_CAPACITY_def]
  iq_ring.ring.full_iff[folded iq_QUEUE_CAPACITY_def]
  iq_ring.ring.push_ok[folded iq_QUEUE_CAPACITY_def]
  iq_ring.ring.push_contents[folded iq_QUEUE_CAPACITY_def]
  iq_ring.ring.pop_ok[folded iq_QUEUE_CAPACITY_def]
  iq_ring.ring.pop_contents[folded iq_QUEUE_CAPACITY_def]
  iq_ring.ring.front_hd[folded iq_QUEUE_CAPACITY_def]
  iq_ring.ring.empty_iff[folded iq_QUEUE_CAPACITY_def]

fun iq_entries :: "(buf \<Rightarrow> iq_sample_data) \<Rightarrow> u64 \<Rightarrow> u32 \<Rightarrow> buf list \<Rightarrow> QueueEntry list" where
  "iq_entries heap ts n [] = []"
| "iq_entries heap ts n (b # bs) = iq_entry heap ts (n + 1) b # iq_entries heap ts (n + 1) bs"

lemma iq_entries_buf [simp]: "map q_buf (iq_entries heap ts n bs) = bs"
  by (induction bs arbitrary: n) (simp_all add: iq_entry_def)

lemma iq_enqueue_cases:
  "iq_filtered (ip_config p) (heap b) \<Longrightarrow> iq_enqueue heap ts b (p, env) = (p, env @ [Release b])"
  "\<not> iq_filtered (ip_config p) (heap b) \<Longrightarrow> ring_full iq_QUEUE_CAPACITY (ip_queue p) \<Longrightarrow>
     iq_enqueue heap ts b (p, env) = (p\<lparr>ip_dropped := ip_dropped p + 1\<rparr>, env @ [Release b])"
  "\<not> iq_filtered (ip_config p) (heap b) \<Longrightarrow> \<not> ring_full iq_QUEUE_CAPACITY (ip_queue p) \<Longrightarrow>
     iq_enqueue heap ts b (p, env) =
       (p\<lparr>ip_queue := ring_push iq_QUEUE_CAPACITY
            (iq_entry heap ts (ip_total_samples_received p + 1) b) (ip_queue p),
          ip_total_samples_received := ip_total_samples_received p + 1\<rparr>, env)"
  by (simp_all add: iq_enqueue_def release_buf_def Let_def)

text \<open>What one batch does, given how many entries still fit.\<close>

definition iq_batch_effect ::
    "(buf \<Rightarrow> iq_sample_data) \<Rightarrow> u64 \<Rightarrow> buf list \<Rightarrow> 'w iq_pipeline \<Rightarrow> jbpf_env \<Rightarrow> 'w iq_pipeline \<Rightarrow> jbpf_env \<Rightarrow> bool"
    where
  "iq_batch_effect heap ts bs p env p' env' \<longleftrightarrow>
     (let room = 64 - length (iq_queued p);
          passing = filter (\<lambda>b. \<not> iq_filtered (ip_config p) (heap b)) bs
      in iq_queued p' = iq_queued p @ iq_entries heap ts (ip_total_samples_received p) (take room passing)
         \<and> mset (released env') = mset (released env)
             + mset (filter (\<lambda>b. iq_filtered (ip_config p) (heap b)) bs) + mset (drop room passing)
         \<and> ip_dropped p' = ip_dropped p + of_nat (length passing - room))"

lemma iq_enqueue_batch:
  assumes "iq_queue_ok p" and "fold (iq_enqueue heap ts) bs (p, env) = (p', env')"
  shows "iq_queue_ok p' \<and> iq_batch_effect heap ts bs p env p' env'"
  using assms
proof (induction bs arbitrary: p env)
  case Nil
  then show ?case by (simp add: iq_batch_effect_def)
next
  case (Cons b bs)
  have len: "length (iq_queued p) \<le> 64" using iq_fifo(1)[OF Cons.prems(1)] iq_capacity by simp
  consider (filtered) "iq_filtered (ip_config p) (heap b)"
    | (full) "\<not> iq_filtered (ip_config p) (heap b)" "ring_full iq_QUEUE_CAPACITY (ip_queue p)"
    | (room) "\<not> iq_filtered (ip_config p) (heap b)" "\<not> ring_full iq_QUEUE_CAPACITY (ip_queue p)" by blast
  then show ?case
  proof cases
    case filtered
    then show ?thesis
      using Cons.IH[OF Cons.prems(1), of "env @ [Release b]"] Cons.prems(2)
      by (simp add: iq_enqueue_cases iq_batch_effect_def Let_def)
  next
    case full
    then have "length (iq_queued p) = 64" using iq_fifo(2)[OF Cons.prems(1)] iq_capacity by simp
    then show ?thesis
      using full Cons.IH[of "p\<lparr>ip_dropped := ip_dropped p + 1\<rparr>" "env @ [Release b]"] Cons.prems
      by (simp add: iq_enqueue_cases iq_batch_effect_def Let_def algebra_simps)
  next
    case room
    let ?n = "ip_total_samples_received p + 1"
    let ?p = "p\<lparr>ip_queue := ring_push iq_QUEUE_CAPACITY (iq_entry heap ts ?n b) (ip_queue p),
      ip_total_samples_received := ?n\<rparr>"
    have push: "iq_queue_ok ?p" "iq_queued ?p = iq_queued p @ [iq_entry heap ts ?n b]"
      using iq_fifo(3,4)[OF Cons.prems(1) room(2)] by simp_all
    have "length (iq_queued p) \<noteq> 64" using iq_fifo(2)[OF Cons.prems(1)] room(2) iq_capacity by simp
    then obtain r where r: "64 - length (iq_queued p) = Suc r" "64 - length (iq_queued ?p) = r"
      using len push(2) by (cases "64 - length (iq_queued p)") auto
    have "fold (iq_enqueue heap ts) bs (?p, env) = (p', env')"
      using Cons.prems(2) room by (simp add: iq_enqueue_cases)
    moreover have "n + length (iq_queued p) - 63 = n - r" for n using r(1) by linarith
    ultimately show ?thesis using Cons.IH[OF push(1), of env] r push(2) room(1)
      by (simp add: iq_batch_effect_def Let_def)
  qed
qed

lemma iq_send_frame:
  assumes "iq_send_prb_config rc (p, env) = (p', env')"
  shows "p' = p\<lparr>ip_prb_config_sent := ip_prb_config_sent p'\<rparr>" "released env' = released env"
  using assms by (auto simp: iq_send_prb_config_def Let_def split: if_splits)

lemma iq_enqueue_frame:
  assumes "fold (iq_enqueue heap ts) bs (p, env) = (p', env')"
  shows "ip_running p' = ip_running p \<and> ip_consumers p' = ip_consumers p \<and> ip_config p' = ip_config p
    \<and> ip_codelets_loaded p' = ip_codelets_loaded p \<and> ip_worker_joinable p' = ip_worker_joinable p"
  using assms
proof (induction bs arbitrary: p env)
  case (Cons b bs)
  obtain p1 env1 where 1: "iq_enqueue heap ts b (p, env) = (p1, env1)" by fastforce
  then show ?case
    using Cons.IH[of p1 env1] Cons.prems by (auto simp: iq_enqueue_def Let_def split: if_splits)
qed simp

lemma iq_process_batch:
  assumes "iq_queue_ok p" and "iq_process_buffers heap rc sec nsec bs (p, env) = (p', env')"
  shows "iq_queue_ok p' \<and> iq_batch_effect heap (timespec_ns sec nsec) bs p env p' env'"
    and "ip_running p' = ip_running p" "ip_codelets_loaded p' = ip_codelets_loaded p"
      "ip_worker_joinable p' = ip_worker_joinable p"
proof -
  obtain p1 env1 where 1: "iq_send_prb_config rc (p, env) = (p1, env1)" by fastforce
  then have f: "fold (iq_enqueue heap (timespec_ns sec nsec)) bs (p1, env1) = (p', env')"
    using assms(2) by (simp add: iq_process_buffers_def)
  obtain x where p1: "p1 = p\<lparr>ip_prb_config_sent := x\<rparr>" using iq_send_frame(1)[OF 1] by blast
  show "iq_queue_ok p' \<and> iq_batch_effect heap (timespec_ns sec nsec) bs p env p' env'"
    using iq_enqueue_batch[OF _ f] assms(1) iq_send_frame(2)[OF 1]
    by (simp add: p1 iq_batch_effect_def)
  show "ip_running p' = ip_running p" "ip_codelets_loaded p' = ip_codelets_loaded p"
      "ip_worker_joinable p' = ip_worker_joinable p"
    using iq_enqueue_frame[OF f] by (simp_all add: p1)
qed

section \<open>Conservation, lifecycle and system\<close>

lemma iq_stop_effect:
  assumes "ip_running p" and "iq_stop L p hs env = (p', hs', env')"
  shows "p' = p\<lparr>ip_running := False, ip_worker_joinable := False, ip_queue := ring_reset (ip_queue p),
      ip_codelets_loaded := False\<rparr>"
    and "hs' = unregister_stream ecpri_iq_stream_id hs"
    and "env' = env @ map (Release \<circ> q_buf) (iq_queued p)
      @ (if ip_codelets_loaded p then iq_unload_codelets L (ip_config p) [] else [])"
  using assms
  by (auto simp: iq_stop_def iq_release_queued_def Let_def ring_drain_is_contents drain_releases
      iq_unload_codelets_def lcm_send_def split: if_splits)

definition iq_core :: "'w iq_pipeline \<Rightarrow> bool" where
  "iq_core p \<longleftrightarrow>
     iq_queue_ok p \<and> ip_worker_joinable p = ip_running p \<and> (ip_codelets_loaded p \<longrightarrow> ip_running p)
     \<and> (\<not> ip_running p \<longrightarrow> iq_queued p = [])"

definition iq_inv ::
    "'w iq_pipeline \<times> (iq_inputs, 'w iq_pipeline) cb_state handlers \<times> jbpf_env \<Rightarrow> bool" where
  "iq_inv = (\<lambda>(p, hs, env). iq_core p
     \<and> lookup_handler hs ecpri_iq_stream_id = (if ip_running p then (Some iq_callback, True) else (None, False)))"

lemma iq_new_core: "iq_core (IqPipeline cfg)" "\<not> ip_running (IqPipeline cfg)"
  by (simp_all add: iq_core_def IqPipeline_def)

lemma iq_start_law:
  assumes "iq_core p" and "iq_start L rc cb p hs env = (out, p', hs', env')"
  shows "iq_core p' \<and> out \<noteq> Terminated \<and> (out = Returned SUCCESS \<longleftrightarrow> ip_running p')
    \<and> iq_queued p' = iq_queued p \<and> released env' = released env
    \<and> hs' = (if ip_running p' \<and> \<not> ip_running p then register_stream ecpri_iq_stream_id (Some cb) True hs else hs)
    \<and> (ip_running p \<longrightarrow> ip_running p')"
  using assms
  by (auto simp: iq_start_def iq_core_def iq_load_codelets_def Let_def split: if_splits)

lemma iq_stop_law:
  assumes "iq_core p" and "iq_stop L p hs env = (p', hs', env')"
  shows "iq_core p' \<and> \<not> ip_running p' \<and> iq_queued p' = []
    \<and> released env' = released env @ map q_buf (iq_queued p)
    \<and> hs' = (if ip_running p then unregister_stream ecpri_iq_stream_id hs else hs)"
proof (cases "ip_running p")
  case True
  then show ?thesis
    using assms(1) iq_stop_effect[OF True assms(2)]
    by (simp add: iq_core_def iq_unload_codelets_def lcm_send_def flip: map_map)
next
  case False
  then show ?thesis using assms by (simp add: iq_stop_def iq_core_def)
qed

lemma iq_start_call:
  assumes "iq_inv (p, hs, env)"
  shows "iq_inv (snd (iq_start L rc iq_callback p hs env))"
    and "fst (iq_start L rc iq_callback p hs env) \<noteq> Terminated"
    and "fst (iq_start L rc iq_callback p hs env) = Returned SUCCESS
      \<longleftrightarrow> ip_running (fst (snd (iq_start L rc iq_callback p hs env)))"
proof -
  obtain out p' hs' env' where r: "iq_start L rc iq_callback p hs env = (out, p', hs', env')"
    by (metis prod_cases4)
  have "iq_core p" using assms by (simp add: iq_inv_def)
  from iq_start_law[OF this r] assms
  have "iq_inv (p', hs', env')" "out \<noteq> Terminated" "out = Returned SUCCESS \<longleftrightarrow> ip_running p'"
    by (auto simp: iq_inv_def)
  then show "iq_inv (snd (iq_start L rc iq_callback p hs env))"
    and "fst (iq_start L rc iq_callback p hs env) \<noteq> Terminated"
    and "fst (iq_start L rc iq_callback p hs env) = Returned SUCCESS
      \<longleftrightarrow> ip_running (fst (snd (iq_start L rc iq_callback p hs env)))"
    by (simp_all add: r)
qed

lemma iq_stop_call: "iq_inv (p, hs, env) \<Longrightarrow> iq_inv (iq_stop L p hs env)"
proof -
  assume inv: "iq_inv (p, hs, env)"
  obtain p' hs' env' where r: "iq_stop L p hs env = (p', hs', env')" by (metis prod_cases3)
  have "iq_core p" using inv by (simp add: iq_inv_def)
  from iq_stop_law[OF this r] inv show ?thesis by (auto simp: iq_inv_def r)
qed

interpretation iq_life: lifecycle iq_inv "\<lambda>s. ip_running (fst s)"
  "\<lambda>a s. iq_start (fst a) (snd a) iq_callback (fst s) (fst (snd s)) (snd (snd s))"
  "\<lambda>a s. iq_stop (fst a) (fst s) (fst (snd s)) (snd (snd s))"
proof (unfold_locales, goal_cases)
  case (2 s a)
  then show ?case by (simp add: iq_start_def)
next
  case (6 a s)
  then show ?case by (simp add: iq_stop_def iq_release_queued_def Let_def)
next
  case (7 s a)
  then show ?case by (simp add: iq_stop_def)
qed (simp_all add: iq_start_call iq_stop_call)

lemma mset_filter_split: "mset xs = mset (filter (\<lambda>x. \<not> P x) xs) + mset (filter P xs)"
  by (induction xs) simp_all

lemma iq_callback_law:
  assumes "iq_queue_ok p" "iq_callback sid bs (i, p, env) = (i', p', env')"
  shows "iq_queue_ok p' \<and> mset (released env') + mset (map q_buf (iq_queued p'))
      = mset (released env) + mset (map q_buf (iq_queued p)) + mset bs"
    and "ip_running p' = ip_running p" "ip_codelets_loaded p' = ip_codelets_loaded p"
      "ip_worker_joinable p' = ip_worker_joinable p"
proof -
  have r: "iq_process_buffers (iin_heap i) (iin_rc i) (iin_tv_sec i) (iin_tv_nsec i) bs (p, env) = (p', env')"
    using assms(2) by (auto simp: iq_callback_def)
  let ?pass = "filter (\<lambda>b. \<not> iq_filtered (ip_config p) (iin_heap i b)) bs"
  let ?drop = "filter (\<lambda>b. iq_filtered (ip_config p) (iin_heap i b)) bs"
  define room where "room = 64 - length (iq_queued p)"
  have "mset ?pass = mset (take room ?pass) + mset (drop room ?pass)"
    by (metis append_take_drop_id mset_append)
  moreover have "mset bs = mset ?pass + mset ?drop" by (rule mset_filter_split)
  ultimately show "iq_queue_ok p' \<and> mset (released env') + mset (map q_buf (iq_queued p'))
      = mset (released env) + mset (map q_buf (iq_queued p)) + mset bs"
    using iq_process_batch(1)[OF assms(1) r]
    by (simp only: iq_batch_effect_def Let_def room_def[symmetric] map_append mset_append iq_entries_buf)
      (simp only: ac_simps)
  show "ip_running p' = ip_running p" "ip_codelets_loaded p' = ip_codelets_loaded p"
      "ip_worker_joinable p' = ip_worker_joinable p"
    using iq_process_batch(2-4)[OF assms(1) r] .
qed

interpretation iq_owner: buffer_owner "\<lambda>s. iq_queue_ok (fst (snd s))"
  "\<lambda>s. mset (map q_buf (iq_queued (fst (snd s))))" "\<lambda>s. mset (released (snd (snd s)))"
  release_into iq_callback
proof (unfold_locales, goal_cases)
  case (4 s sid bs)
  then show ?case by (metis iq_callback_law(1) prod.collapse)
next
  case (5 s sid bs)
  obtain i p env where s: "s = (i, p, env)" by (cases s)
  obtain i' p' env' where r: "iq_callback sid bs (i, p, env) = (i', p', env')" by (metis prod_cases3)
  show ?case using iq_callback_law(1)[OF _ r] 5 by (simp add: s r ac_simps)
qed (auto simp: release_into_def split: prod.splits)

text \<open>What the consumers see of one entry.\<close>

definition iq_deliver ::
    "(buf \<Rightarrow> iq_sample_data) \<Rightarrow> u64 \<Rightarrow> 'w IqConsumer list \<Rightarrow> QueueEntry \<Rightarrow> 'w \<Rightarrow> 'w" where
  "iq_deliver heap ns consumers e w =
     (let sample = heap (q_buf e)
      in case decompress_bfp_9bit (iq_payload sample) (ucast (iq_payload_size sample)) (iq_num_prbu sample) of
           BfpTrue iq \<Rightarrow>
             fold (\<lambda>c. c \<lparr>ds_raw = sample, ds_decompressed_iq = iq, ds_recv_us = q_recv_us e,
               ds_sample_id = q_sample_id e, ds_gnb_ts_ns = iq_gnb_ts_ns sample,
               ds_codelet_ts_ns = iq_codelet_ts_ns sample, ds_dispatch_ts_ns = q_dispatch_ts_ns e,
               ds_decompress_ns = ns\<rparr>) consumers w
         | _ \<Rightarrow> w)"

text \<open>
  What the codelet guarantees of a sample: the payload array has its declared size and the payload fits it.
\<close>

definition iq_array_ok :: "iq_sample_data \<Rightarrow> bool" where
  "iq_array_ok sample \<longleftrightarrow> length (iq_payload sample) = 8192 \<and> unat (iq_payload_size sample) \<le> 8192"

text \<open>
  What it does not guarantee, since it copies the bytes of the packet as they are: that the first byte of every
  PRB, which the decoder takes as a shift amount, is below 32.  A payload that is too short for its PRB count is
  refused before any byte of it is read.
\<close>

definition iq_exponents_ok :: "iq_sample_data \<Rightarrow> bool" where
  "iq_exponents_ok sample \<longleftrightarrow> unat (iq_payload_size sample) < unat (iq_num_prbu sample) * 28
     \<or> (\<forall>prb < unat (iq_num_prbu sample). unat (iq_payload sample ! (prb * 28)) < 32)"

lemma iq_dispatch_undefined:
  assumes "iq_array_ok (heap (q_buf e))"
  shows "iq_dispatch_sample heap ns e (p, w) = None \<longleftrightarrow> \<not> iq_exponents_ok (heap (q_buf e))"
proof -
  let ?s = "heap (q_buf e)"
  have "decompress_bfp_9bit (iq_payload ?s) (ucast (iq_payload_size ?s)) (iq_num_prbu ?s) \<noteq> BfpUndefined
      \<longleftrightarrow> iq_exponents_ok ?s"
    using assms payload_defined_iff[of "iq_payload ?s" "ucast (iq_payload_size ?s)" "iq_num_prbu ?s"]
    by (simp add: iq_array_ok_def iq_exponents_ok_def)
  then show ?thesis by (auto simp: iq_dispatch_sample_def Let_def split: bfp_result.splits)
qed

lemma buf_unchanged: "\<exists>buf. p = p\<lparr>ip_decompressed_buf := buf\<rparr>"
  by (rule exI[of _ "ip_decompressed_buf p"]) simp

lemma iq_dispatch_effect:
  assumes "iq_array_ok (heap (q_buf e))" "iq_exponents_ok (heap (q_buf e))"
  shows "\<exists>buf. iq_dispatch_sample heap ns e (p, w)
    = Some (p\<lparr>ip_decompressed_buf := buf\<rparr>, iq_deliver heap ns (ip_consumers p) e w)"
proof -
  have "iq_dispatch_sample heap ns e (p, w) \<noteq> None" using iq_dispatch_undefined[of heap e ns p w, OF assms(1)] assms(2) by simp
  then show ?thesis
    by (auto simp: iq_dispatch_sample_def iq_deliver_def Let_def buf_unchanged split: bfp_result.splits)
qed

lemma iq_dispatch_frame:
  assumes "iq_dispatch_sample heap ns e (p, w) = Some (p', w')"
  shows "\<exists>buf. p' = p\<lparr>ip_decompressed_buf := buf\<rparr>"
  using assms by (auto simp: iq_dispatch_sample_def Let_def buf_unchanged split: bfp_result.splits)

lemma iq_worker_nonempty:
  assumes "iq_queue_ok p" "ip_running p" "iq_queued p = e # es"
    and "iq_array_ok (fst h (q_buf e))" "iq_exponents_ok (fst h (q_buf e))"
  shows "\<exists>p'. iq_worker_step h (p, env, w) =
      Some (p', env @ [Release (q_buf e)], iq_deliver (fst h) (snd h) (ip_consumers p) e w)
    \<and> iq_queue_ok p' \<and> iq_queued p' = es \<and> ip_running p' \<and> ip_consumers p' = ip_consumers p"
proof -
  have ne: "\<not> ring_empty (ip_queue p)" using assms(1,3) iq_fifo(8) by fastforce
  have front: "ring_front iq_QUEUE_CAPACITY (ip_queue p) = e"
    using iq_fifo(7)[OF assms(1) ne] assms(3) by simp
  obtain buf where "iq_dispatch_sample (fst h) (snd h) e (p, w)
      = Some (p\<lparr>ip_decompressed_buf := buf\<rparr>, iq_deliver (fst h) (snd h) (ip_consumers p) e w)"
    using iq_dispatch_effect[of "fst h" e "snd h" p w, OF assms(4,5)] by (elim exE)
  then show ?thesis
    using assms ne iq_fifo(5,6)[OF assms(1) ne] by (simp add: iq_worker_step_def Let_def front release_buf_def)
qed

lemma iq_worker_undefined:
  assumes "iq_queue_ok p" "iq_queued p = e # es" "iq_array_ok (fst h (q_buf e))" "\<not> iq_exponents_ok (fst h (q_buf e))"
  shows "iq_worker_step h (p, env, w) = None"
proof -
  have ne: "\<not> ring_empty (ip_queue p)" using assms(1,2) iq_fifo(8) by fastforce
  have "ring_front iq_QUEUE_CAPACITY (ip_queue p) = e" using iq_fifo(7)[OF assms(1) ne] assms(2) by simp
  then show ?thesis
    using iq_dispatch_undefined[of "fst h" e "snd h" p w, OF assms(3)] assms(4) ne by (simp add: iq_worker_step_def Let_def)
qed

lemma iq_worker_law:
  assumes "iq_core p" "iq_worker_step h (p, env, w) = Some (p', env', w')"
  shows "iq_core p' \<and> ip_running p' = ip_running p
    \<and> mset (released env') + mset (map q_buf (iq_queued p'))
      = mset (released env) + mset (map q_buf (iq_queued p))"
proof (cases "ring_empty (ip_queue p)")
  case True
  then show ?thesis using assms by (auto simp: iq_worker_step_def split: if_splits)
next
  case False
  have run: "ip_running p" using assms(2) by (auto simp: iq_worker_step_def split: if_splits)
  have ok: "iq_queue_ok p" using assms(1) by (simp add: iq_core_def)
  let ?e = "ring_front iq_QUEUE_CAPACITY (ip_queue p)"
  obtain p1 where d: "iq_dispatch_sample (fst h) (snd h) ?e (p, w) = Some (p1, w')"
    and p': "p' = p1\<lparr>ip_queue := ring_pop (ip_queue p1)\<rparr>" "env' = release_buf (q_buf ?e) env"
    using assms(2) False run by (auto simp: iq_worker_step_def Let_def split: option.splits)
  obtain buf where p1: "p1 = p\<lparr>ip_decompressed_buf := buf\<rparr>" using iq_dispatch_frame[OF d] by blast
  show ?thesis
    using assms(1) run iq_fifo(5)[OF ok False]
      iq_ring.ring.take_conserves[folded iq_QUEUE_CAPACITY_def, OF ok False, of q_buf]
    by (simp add: p' p1 iq_core_def)
qed

definition iq_ops ::
    "lcm_limits \<Rightarrow> (iq_inputs, 'w iq_pipeline, 'w, (buf \<Rightarrow> iq_sample_data) \<times> u64, 'w IqConsumer) pipe_ops" where
  "iq_ops L =
     \<lparr>op_sid = ecpri_iq_stream_id, op_callback = iq_callback,
      op_start = (\<lambda>rc. iq_start L rc iq_callback), op_stop = iq_stop L,
      op_register = iq_register_consumer, op_running = ip_running, op_worker = iq_worker_step\<rparr>"

lemma iq_ops_sel [simp]:
  "op_sid (iq_ops L) = ecpri_iq_stream_id" "op_callback (iq_ops L) = iq_callback"
  "op_start (iq_ops L) rc = iq_start L rc iq_callback" "op_stop (iq_ops L) = iq_stop L"
  "op_register (iq_ops L) = iq_register_consumer" "op_running (iq_ops L) = ip_running"
  "op_worker (iq_ops L) = iq_worker_step"
  by (simp_all add: iq_ops_def)

interpretation iq_system: owning_pipeline "iq_ops L" iq_core
  "\<lambda>p. mset (map q_buf (iq_queued p))" for L
proof (unfold_locales, goal_cases)
  case (1 p rc hs env out p' hs' env')
  then show ?case using iq_start_law[OF 1(1) 1(2)[simplified]] by simp
next
  case (2 p hs env p' hs' env')
  then show ?case using iq_stop_law[OF 2(1) 2(2)[simplified]] by simp
next
  case (3 p c)
  then show ?case by (simp add: iq_core_def iq_register_consumer_def)
next
  case (4 p sid bs i env i' p' env')
  then have r: "iq_callback sid bs (i, p, env) = (i', p', env')" and ok: "iq_queue_ok p"
    by (simp_all add: iq_core_def)
  from iq_callback_law[OF ok r] 4(1,2) show ?case by (simp add: iq_core_def)
next
  case (5 p h env w p' env' w')
  then show ?case using iq_worker_law[OF 5(1) 5(2)[simplified]] by simp
next
  case (6 p)
  then show ?case by (simp add: iq_core_def)
qed

text \<open>The same accounting for the eCPRI pipeline: over every sequence of calls nothing terminates the
  process, and every delivered buffer, including those dropped by the direction and PRB filters and
  those whose decompression fails, is released exactly once or still queued; a stopped pipeline has
  released them all.\<close>

theorem iq_buffers_accounted:
  assumes "(pipe_step (iq_ops L))\<^sup>*\<^sup>* (sys_init (IqPipeline cfg) w) s"
  shows "\<not> y_terminated s
    \<and> y_delivered s = mset (released (y_env s)) + mset (map q_buf (iq_queued (y_pipe s)))
    \<and> (\<not> ip_running (y_pipe s) \<longrightarrow> y_delivered s = mset (released (y_env s)))"
  using iq_system.buffers_accounted[OF assms iq_new_core(1)] iq_new_core(2)[of cfg] by simp

definition sample_iq :: iq_sample_data where
  "sample_iq =
     \<lparr>iq_gnb_ts_ns = 1, iq_codelet_ts_ns = 2, iq_timestamp = 3, iq_direction = 1, iq_frame_id = 0,
      iq_comp_method = 1, iq_iq_width = 9, iq_subframe_id = 0, iq_slot_id = 0, iq_symbol_id = 5,
      iq_section_id = 0, iq_start_prbu = 0, iq_num_prbu = 0, iq_payload_size = 0,
      iq_payload = replicate 8192 0\<rparr>"

theorem iq_buffers_accounted_witness:
  "\<exists>s. (pipe_step (iq_ops sample_limits))\<^sup>*\<^sup>* (sys_init (IqPipeline default_IqConfig) ()) s
     \<and> y_delivered s = {#4#} \<and> mset (released (y_env s)) = {#4#}"
proof -
  let ?s = "sys_init (IqPipeline default_IqConfig) () :: (iq_inputs, unit iq_pipeline, unit) pipe_sys"
  let ?t = "?s\<lparr>y_pipe := y_pipe ?s, y_env := [Release 4], y_delivered := y_delivered ?s + {#4#}\<rparr>"
  have "dispatch release_into (y_handlers ?s) (Some prb_config_stream_id) [4] 1 (undefined, y_pipe ?s, y_env ?s)
      = (undefined, y_pipe ?s, [Release 4])"
    by (simp add: dispatch_unknown sys_init_def lookup_handler_def)
  from step_batch[OF this, of "iq_ops sample_limits"]
  have reach: "(pipe_step (iq_ops sample_limits))\<^sup>*\<^sup>* ?s ?t" by (simp add: r_into_rtranclp)
  from iq_buffers_accounted[OF reach]
  have "y_delivered ?t = mset (released (y_env ?t))" by (simp add: sys_init_def IqPipeline_def)
  with reach show ?thesis by (intro exI[of _ ?t]) (simp add: sys_init_def)
qed

text \<open>C14.
  A batch on the eCPRI stream: sections that are not uplink or have another PRB count than the
  configured one are released without being counted, the others are queued in order while the 64-entry
  ring has room, and the rest is released and counted in \<^verbatim>\<open>dropped_\<close>.\<close>

theorem iq_batch_filter:
  assumes "iq_queue_ok p" and "iq_process_buffers heap rc sec nsec bs (p, env) = (p', env')"
    and "passing = filter (\<lambda>b. iq_direction (heap b) = 1 \<and> (ic_expected_num_prbu (ip_config p) = 0
      \<or> iq_num_prbu (heap b) = ic_expected_num_prbu (ip_config p))) bs"
    and "room = 64 - length (iq_queued p)"
  shows "iq_queued p' = iq_queued p
      @ iq_entries heap (timespec_ns sec nsec) (ip_total_samples_received p) (take room passing)
    \<and> mset (released env') + mset (take room passing) = mset (released env) + mset bs
    \<and> ip_dropped p' = ip_dropped p + of_nat (length passing - room)"
proof -
  have pass: "passing = filter (\<lambda>b. \<not> iq_filtered (ip_config p) (heap b)) bs"
    unfolding assms(3) iq_filtered_def by (rule filter_cong) (auto simp: word_gt_0)
  have "mset passing = mset (take room passing) + mset (drop room passing)"
    by (metis append_take_drop_id mset_append)
  moreover have "mset bs = mset passing + mset (filter (\<lambda>b. iq_filtered (ip_config p) (heap b)) bs)"
    unfolding pass by (rule mset_filter_split)
  ultimately show ?thesis
    using iq_process_batch(1)[OF assms(1,2)] unfolding iq_batch_effect_def Let_def pass[symmetric] assms(4)[symmetric]
    by (simp only: ac_simps)
qed

theorem iq_batch_filter_witness:
  "let (p', env') = iq_process_buffers (\<lambda>b. sample_iq\<lparr>iq_direction := of_nat b\<rparr>) 0 1 0 [0, 1, 1]
         (IqPipeline (default_IqConfig\<lparr>ic_expected_num_prbu := 0\<rparr>) :: unit iq_pipeline, [])
   in map q_buf (iq_queued p') = [1, 1]"
proof -
  let ?p = "IqPipeline (default_IqConfig\<lparr>ic_expected_num_prbu := 0\<rparr>) :: unit iq_pipeline"
  obtain p' env' where r: "iq_process_buffers (\<lambda>b. sample_iq\<lparr>iq_direction := of_nat b\<rparr>) 0 1 0 [0, 1, 1]
    (?p, []) = (p', env')" by fastforce
  have "iq_queue_ok ?p" "iq_queued ?p = []" by (simp_all add: IqPipeline_def)
  from iq_batch_filter[OF this(1) r refl refl] this(2) have "map q_buf (iq_queued p') = [1, 1]"
    by (simp add: IqPipeline_def iq_entry_def)
  then show ?thesis unfolding r by simp
qed

text \<open>C15.
  The eCPRI worker makes progress exactly as long as the decoder is defined.  Take any queue of samples whose
  payload fits the array, which is all the codelet ensures of the bytes it copies.  When no section is both
  long enough for its PRB count and headed by an exponent byte of 32 or more, as many iterations as
  there are queued sections hand each decompressed section to every consumer in order, release each buffer
  once and empty the queue; when one is, these iterations run into the undefined shift of the decoder.\<close>

theorem iq_worker_drains:
  assumes "iq_queue_ok p" and "ip_running p" and "\<forall>e \<in> set (iq_queued p). iq_array_ok (heap (q_buf e))"
  shows "if \<forall>e \<in> set (iq_queued p). iq_exponents_ok (heap (q_buf e))
    then \<exists>p'. iq_worker_loop (length (iq_queued p)) (heap, ns) (p, env, w) =
        Some (p', env @ map Release (map q_buf (iq_queued p)),
          fold (iq_deliver heap ns (ip_consumers p)) (iq_queued p) w)
      \<and> iq_queued p' = []
    else iq_worker_loop (length (iq_queued p)) (heap, ns) (p, env, w) = None"
  using assms
proof (induction "iq_queued p" arbitrary: p env w)
  case Nil
  then show ?case by simp
next
  case (Cons e es)
  note q = Cons.hyps(2)[symmetric]
  have arr: "iq_array_ok (fst (heap, ns) (q_buf e))" using Cons.prems(3) q by simp
  show ?case
  proof (cases "iq_exponents_ok (heap (q_buf e))")
    case False
    then show ?thesis using iq_worker_undefined[OF Cons.prems(1) q arr, of env w] by (simp add: q)
  next
    case True
    from iq_worker_nonempty[OF Cons.prems(1,2) q arr, of env w] True obtain p1 where
      step: "iq_worker_step (heap, ns) (p, env, w) =
        Some (p1, env @ [Release (q_buf e)], iq_deliver heap ns (ip_consumers p) e w)"
      and p1: "iq_queue_ok p1" "iq_queued p1 = es" "ip_running p1" "ip_consumers p1 = ip_consumers p"
      by auto
    have "\<forall>e \<in> set (iq_queued p1). iq_array_ok (heap (q_buf e))" using Cons.prems(3) q p1(2) by simp
    from Cons.hyps(1)[OF p1(2)[symmetric] p1(1,3) this, of "env @ [Release (q_buf e)]"
        "iq_deliver heap ns (ip_consumers p) e w"]
    show ?thesis using True by (simp add: q step p1 split: if_splits)
  qed
qed

text \<open>
  Two queued sections of one PRB each, the mantissas \<open>-5\<close> at exponent 3 and 7 at exponent 0; then the first of
  them with the exponent byte \<open>0x30\<close>, a 3 in its upper half.
\<close>

definition demo_payload :: "u8 \<Rightarrow> int \<Rightarrow> u8 list" where
  "demo_payload e m = bfp_compress [(e, replicate 24 m)] @ replicate 8164 0"

definition demo_iq :: "u8 \<Rightarrow> int \<Rightarrow> iq_sample_data" where
  "demo_iq e m = sample_iq\<lparr>iq_num_prbu := 1, iq_payload_size := 28, iq_payload := demo_payload e m\<rparr>"

lemma demo_payload_bytes: "length (demo_payload e m) = 8192" "demo_payload e m ! 0 = e"
  by (simp_all add: demo_payload_def bfp_compress_length nth_append bfp_compress_def)

definition demo_queue :: "QueueEntry spsc_ring" where
  "demo_queue = ring_push iq_QUEUE_CAPACITY (zero_entry\<lparr>q_buf := 7\<rparr>) (ring_push iq_QUEUE_CAPACITY (zero_entry\<lparr>q_buf := 6\<rparr>)
     (ring_init iq_QUEUE_CAPACITY zero_entry))"

text \<open>A consumer that collects the first value of every section.\<close>

definition demo_collector :: "i16 list iq_pipeline" where
  "demo_collector = (IqPipeline default_IqConfig)\<lparr>ip_running := True,
     ip_consumers := [\<lambda>s n. n @ [hd (ds_decompressed_iq s)]], ip_queue := demo_queue\<rparr>"

lemma demo_queue_contents: "ring_ok iq_QUEUE_CAPACITY demo_queue"
    "ring_contents iq_QUEUE_CAPACITY demo_queue = [zero_entry\<lparr>q_buf := 6\<rparr>, zero_entry\<lparr>q_buf := 7\<rparr>]"
proof -
  let ?q = "ring_push iq_QUEUE_CAPACITY (zero_entry\<lparr>q_buf := 6\<rparr>) (ring_init iq_QUEUE_CAPACITY zero_entry)"
  have room: "\<not> ring_full iq_QUEUE_CAPACITY (ring_init iq_QUEUE_CAPACITY zero_entry)" "\<not> ring_full iq_QUEUE_CAPACITY ?q"
    by (simp_all add: ring_full_def ring_init_def ring_push_def iq_QUEUE_CAPACITY_def word_le_nat_alt)
  have q: "ring_ok iq_QUEUE_CAPACITY ?q" "ring_contents iq_QUEUE_CAPACITY ?q = [zero_entry\<lparr>q_buf := 6\<rparr>]"
    using iq_fifo(3,4)[OF ring_init_ok room(1)] by simp_all
  show "ring_ok iq_QUEUE_CAPACITY demo_queue"
    "ring_contents iq_QUEUE_CAPACITY demo_queue = [zero_entry\<lparr>q_buf := 6\<rparr>, zero_entry\<lparr>q_buf := 7\<rparr>]"
    using iq_fifo(3,4)[OF q(1) room(2)] q(2) by (simp_all add: demo_queue_def)
qed

lemma demo_decoded:
  assumes "unat e < 32" "-256 \<le> m" "m < 256"
  shows "decompress_bfp_9bit (demo_payload e m) 28 1 = BfpTrue (replicate 24 (word_of_int (m * 2 ^ unat e)))"
  using decompress_packed[of "[(e, replicate 24 m)]" 1 "replicate 8164 0" 28] assms
  by (simp add: bfp_block_ok_def demo_payload_def)

theorem iq_worker_drains_witness:
  "(\<exists>p'. iq_worker_loop 2 (\<lambda>b. if b = 6 then demo_iq 3 (-5) else demo_iq 0 7, 0) (demo_collector, [], [])
       = Some (p', [Release 6, Release 7], [-40, 7]))
     \<and> iq_worker_loop 2 (\<lambda>b. if b = 6 then demo_iq 0x30 (-5) else demo_iq 0 7, 0) (demo_collector, [], []) = None"
proof -
  let ?h = "\<lambda>e b. if b = 6 then demo_iq e (-5) else demo_iq 0 7"
  have p: "iq_queued demo_collector = [zero_entry\<lparr>q_buf := 6\<rparr>, zero_entry\<lparr>q_buf := 7\<rparr>]" "iq_queue_ok demo_collector"
      "ip_running demo_collector" "ip_consumers demo_collector = [\<lambda>s n. n @ [hd (ds_decompressed_iq s)]]"
    by (simp_all add: demo_collector_def demo_queue_contents)
  have arr: "\<forall>x \<in> set (iq_queued demo_collector). iq_array_ok (?h e (q_buf x))" for e
    by (simp add: p iq_array_ok_def demo_iq_def demo_payload_bytes)
  note run = iq_worker_drains[OF p(2,3) arr, where ns = 0 and env = "[]" and w = "[]", unfolded p(1,4)]
  have two: "length [zero_entry\<lparr>q_buf := 6\<rparr>, zero_entry\<lparr>q_buf := 7\<rparr>] = 2" by simp
  have exps: "iq_exponents_ok (demo_iq 3 (-5))" "iq_exponents_ok (demo_iq 0 7)" "\<not> iq_exponents_ok (demo_iq 0x30 (-5))"
    by (simp_all add: iq_exponents_ok_def demo_iq_def demo_payload_bytes)
  have del: "fold (iq_deliver (?h 3) 0 [\<lambda>s n. n @ [hd (ds_decompressed_iq s)]])
      [zero_entry\<lparr>q_buf := 6\<rparr>, zero_entry\<lparr>q_buf := 7\<rparr>] [] = [-40, 7]"
    using demo_decoded[of 3 "-5"] demo_decoded[of 0 7] by (simp add: iq_deliver_def demo_iq_def)
  have "\<exists>p'. iq_worker_loop 2 (?h 3, 0) (demo_collector, [], []) = Some (p', [Release 6, Release 7], [-40, 7])"
    using run[of 3] exps unfolding two del by auto
  moreover have "iq_worker_loop 2 (?h 0x30, 0) (demo_collector, [], []) = None"
    using run[of "0x30"] exps unfolding two by auto
  ultimately show ?thesis by blast
qed

end
