(* ===== verification/Sample_Convert.thy ===== *)
theory Sample_Convert
  imports Float_Bits
begin

text \<open>
  The sample conversions: \<^verbatim>\<open>int16_to_fp16\<close> and \<^verbatim>\<open>bf16_to_fp16\<close> of
  \<^verbatim>\<open>src/e3sm/utils/e3sm_shm_writer.cpp\<close>, and the helper-side conversion of
  \<^verbatim>\<open>codelets/include/e3_slot_convert.h\<close>.  The builds with F16C and the portable fallbacks are both
  modelled; the NEON build, whose NaN propagation follows another architecture manual, is not.
  A shift by a negative amount is undefined behaviour and gives \<open>None\<close>.
\<close>

section \<open>Fixed point to binary16\<close>

definition int16_to_fp16 :: "i16 \<Rightarrow> f16 option" where
  "int16_to_fp16 v =
     (if v = 0 then Some 0
      else
        let sign = (if sint v < 0 then 0x8000 else 0) :: u32;
            mag = (if sint v < 0 then of_int (- sint v) else ucast v) :: u32;
            msb = int (nbits (unat mag)) - 1;
            exp_biased = msb - 11 + 15
        in if 10 \<le> msb then
             let shift = msb - 10
             in if shift - 1 < 0 then None
                else
                  let mantissa = drop_bit (nat shift) mag AND 0x3FF;
                      round_bit = drop_bit (nat (shift - 1)) mag AND 1;
                      sticky = mag AND (push_bit (nat (shift - 1)) 1 - 1);
                      half = ucast (sign OR push_bit 10 (of_int exp_biased) OR mantissa) :: f16
                  in Some (if round_bit \<noteq> 0 \<and> (sticky \<noteq> 0 \<or> mantissa AND 1 \<noteq> 0) then half + 1 else half)
           else
             let mantissa = push_bit (nat (10 - msb)) mag AND 0x3FF
             in Some (ucast (sign OR push_bit 10 (of_int exp_biased) OR mantissa)))"

section \<open>bfloat16 to binary16\<close>

text \<open>A bfloat16 is the top half of a binary32.\<close>

definition bf16_widen :: "bf16 \<Rightarrow> f32" where
  "bf16_widen b = push_bit 16 (ucast b)"

text \<open>The controller's fallback: subnormal results are flushed and the mantissa is truncated.\<close>

definition fp16_truncate :: "f32 \<Rightarrow> f16" where
  "fp16_truncate v =
     (let sign = drop_bit 31 v AND 1;
          exp8 = int (unat (drop_bit 23 v AND 0xFF));
          man23 = v AND 0x7FFFFF
      in if exp8 = 0 then ucast (push_bit 15 sign)
         else if exp8 = 0xFF then ucast (push_bit 15 sign OR push_bit 10 0x1F OR (if man23 \<noteq> 0 then 1 else 0))
         else
           let exp5_signed = exp8 - 127 + 15
           in if exp5_signed \<le> 0 then ucast (push_bit 15 sign)
              else if 0x1F \<le> exp5_signed then ucast (push_bit 15 sign OR push_bit 10 0x1F)
              else ucast (push_bit 15 sign OR push_bit 10 (of_int exp5_signed) OR drop_bit 13 man23))"

definition bf16_to_fp16 :: "bool \<Rightarrow> bf16 \<Rightarrow> f32 \<Rightarrow> f16" where
  "bf16_to_fp16 f16c b scale =
     (let v = f32_mul (bf16_widen b) scale in if f16c then cvtps_ph v else fp16_truncate v)"

text \<open>The helper's fallback: subnormal results are flushed, the mantissa is rounded to nearest even.\<close>

definition fp16_round :: "f32 \<Rightarrow> f16" where
  "fp16_round v =
     (let sign = drop_bit 31 v AND 1;
          exp8 = int (unat (drop_bit 23 v AND 0xFF));
          man23 = v AND 0x7FFFFF
      in if exp8 = 0 then ucast (push_bit 15 sign)
         else if exp8 = 0xFF then ucast (push_bit 15 sign OR push_bit 10 0x1F OR (if man23 \<noteq> 0 then 0x200 else 0))
         else
           let exp5 = exp8 - 127 + 15
           in if 0x1F \<le> exp5 then ucast (push_bit 15 sign OR push_bit 10 0x1F)
              else if exp5 \<le> 0 then ucast (push_bit 15 sign)
              else
                let man10 = drop_bit 13 man23;
                    remn = man23 AND 0x1FFF
                in if remn > 0x1000 \<or> (remn = 0x1000 \<and> man10 AND 1 \<noteq> 0) then
                     let man10' = man10 + 1
                     in if man10' = 0x400 then
                          if 0x1F \<le> exp5 + 1 then ucast (push_bit 15 sign OR push_bit 10 0x1F)
                          else ucast (push_bit 15 sign OR push_bit 10 (of_int (exp5 + 1)) OR 0)
                        else ucast (push_bit 15 sign OR push_bit 10 (of_int exp5) OR man10')
                   else ucast (push_bit 15 sign OR push_bit 10 (of_int exp5) OR man10))"

definition bf16_to_fp16_scalar :: "bool \<Rightarrow> bf16 \<Rightarrow> f32 \<Rightarrow> f16" where
  "bf16_to_fp16_scalar f16c b scale =
     (let v = f32_mul (bf16_widen b) scale in if f16c then cvtps_ph v else fp16_round v)"

section \<open>Whole antennas and slots\<close>

text \<open>One lane of the vector loop: zero-extend, shift left by 16, multiply, convert.\<close>

definition avx2_lane :: "f32 \<Rightarrow> bf16 \<Rightarrow> f16" where
  "avx2_lane scale b = cvtps_ph (f32_mul (push_bit 16 (ucast b)) scale)"

text \<open>
  The loop from index \<open>i\<close> on: eight lanes at a time while they fit, then the scalar tail.  \<open>tail_conv\<close> is
  the scalar conversion of the file the loop is in.
\<close>

function vector_loop :: "(bf16 \<Rightarrow> f32 \<Rightarrow> f16) \<Rightarrow> f32 \<Rightarrow> bf16 list \<Rightarrow> nat \<Rightarrow> f16 list" where
  "vector_loop tail_conv scale src i =
     (if i + 8 \<le> length src
      then map (avx2_lane scale) (take 8 (drop i src)) @ vector_loop tail_conv scale src (i + 8)
      else map (\<lambda>b. tail_conv b scale) (drop i src))"
  by pat_completeness auto
termination by (relation "measure (\<lambda>(_, _, src, i). length src - i)") auto

declare vector_loop.simps [simp del]

text \<open>\<open>avx2\<close> is \<^verbatim>\<open>__AVX2__ && __F16C__\<close>; \<open>f16c\<close> is \<^verbatim>\<open>__F16C__\<close>.\<close>

definition convert_ant :: "bool \<Rightarrow> bool \<Rightarrow> bf16 list \<Rightarrow> f32 \<Rightarrow> f16 list" where
  "convert_ant avx2 f16c src scale =
     (if avx2 then vector_loop (bf16_to_fp16_scalar f16c) scale src 0
      else map (\<lambda>b. bf16_to_fp16_scalar f16c b scale) src)"

record RowGeometry =
  rg_nof_symbols :: u32
  rg_nof_subcarriers :: u32
  rg_nof_ants :: u32

definition rg_u16_per_ant :: "RowGeometry \<Rightarrow> size_t" where
  "rg_u16_per_ant g = ucast (rg_nof_symbols g) * ucast (rg_nof_subcarriers g) * 2"

definition rg_row_u16 :: "RowGeometry \<Rightarrow> size_t" where
  "rg_row_u16 g = rg_u16_per_ant g * ucast (rg_nof_ants g)"

definition rg_row_bytes :: "RowGeometry \<Rightarrow> size_t" where
  "rg_row_bytes g = rg_row_u16 g * 2"

text \<open>\<open>src\<close> and \<open>dst\<close> are the 16-bit words of the grid and of the row.\<close>

definition convert_slot ::
    "bool \<Rightarrow> bool \<Rightarrow> f16 list \<Rightarrow> bf16 list \<Rightarrow> RowGeometry \<Rightarrow> u32 \<Rightarrow> f32 \<Rightarrow> f16 list \<times> size_t" where
  "convert_slot avx2 f16c dst src geom nof_ports scale =
     (let ports0 = (if nof_ports \<noteq> 0 then nof_ports else 1);
          ports = (if ports0 > rg_nof_ants geom then rg_nof_ants geom else ports0);
          n = unat (rg_u16_per_ant geom)
      in (fold (\<lambda>a row. take (a * n) row @ convert_ant avx2 f16c (take n (drop (a * n) src)) scale
              @ drop (Suc a * n) row) [0..<unat ports] dst,
          ucast ports * rg_u16_per_ant geom * 2))"

section \<open>Fields joined and split\<close>

lemma take_bit_small: "unat m < 2 ^ k \<Longrightarrow> take_bit k m = m" for m :: "'a::len word"
  by (simp add: word_unat_eq_iff unsigned_take_bit_eq take_bit_nat_eq_self)

lemma unat_or_shift:
  fixes x m :: u32
  assumes "unat m < 2 ^ k" "unat x * 2 ^ k + unat m < 2 ^ 32"
  shows "unat (push_bit k x OR m) = unat x * 2 ^ k + unat m"
proof -
  have "push_bit k x AND m = 0"
  proof (rule bit_word_eqI)
    fix n
    have "\<not> bit m n" if "k \<le> n" using take_bit_small[OF assms(1)] that bit_take_bit_iff[of k m n] by simp
    then show "bit (push_bit k x AND m) n = bit 0 n" by (auto simp: bit_and_iff bit_push_bit_iff)
  qed
  then have "push_bit k x OR m = push_bit k x + m" by (simp add: disjunctive_add_eq_or)
  moreover have "unat (push_bit k x) = unat x * 2 ^ k"
  proof -
    have "unat (push_bit k x) = take_bit 32 (unat x * 2 ^ k)"
      unfolding unsigned_push_bit_eq by (simp add: push_bit_eq_mult)
    then show ?thesis using assms(2) by (simp add: take_bit_nat_eq_self)
  qed
  ultimately show ?thesis using assms(2) by (simp add: unat_add_no_wrap)
qed

lemma unat_fp16_fields:
  fixes s e m :: u32
  assumes "unat s < 2" "unat e < 32" "unat m < 1024"
  shows "unat (push_bit 15 s OR push_bit 10 e OR m) = unat s * 2 ^ 15 + unat e * 2 ^ 10 + unat m"
proof -
  have inner: "unat (push_bit 10 e OR m) = unat e * 2 ^ 10 + unat m"
    using assms by (intro unat_or_shift) simp_all
  then have "unat (push_bit 10 e OR m) < 2 ^ 15" using assms by simp
  then have "unat (push_bit 15 s OR (push_bit 10 e OR m)) = unat s * 2 ^ 15 + unat (push_bit 10 e OR m)"
    using assms by (intro unat_or_shift) simp_all
  then show ?thesis using inner by simp
qed

lemma fp16_fields:
  fixes s e m :: u32
  assumes "unat s < 2" "unat e < 32" "unat m < 1024"
  shows "(ucast (push_bit 15 s OR push_bit 10 e OR m) :: f16)
    = of_nat (unat s * 2 ^ 15) + of_nat (unat e * 2 ^ 10 + unat m)"
proof -
  have "unat (ucast (push_bit 15 s OR push_bit 10 e OR m) :: f16) = unat s * 2 ^ 15 + unat e * 2 ^ 10 + unat m"
    using assms by (simp add: unsigned_ucast_eq unat_fp16_fields take_bit_nat_eq_self)
  then have "(ucast (push_bit 15 s OR push_bit 10 e OR m) :: f16)
      = of_nat (unat s * 2 ^ 15 + unat e * 2 ^ 10 + unat m)"
    unfolding word_unat_eq_iff unat_of_nat_mod using assms by simp
  then show ?thesis by (simp only: of_nat_add add.assoc)
qed

text \<open>Round, sticky and parity bits decide as the rounding definition does.\<close>

lemma rne_bits:
  assumes "0 < k"
  shows "rne m (int k) = m div 2 ^ k +
    (if (m div 2 ^ (k - 1)) mod 2 = 1 \<and> (m mod 2 ^ (k - 1) \<noteq> 0 \<or> odd (m div 2 ^ k)) then 1 else 0)"
proof -
  obtain j where k: "k = Suc j" using assms by (cases k) auto
  let ?b = "m div 2 ^ j mod 2" and ?l = "m mod 2 ^ j"
  have r: "m mod 2 ^ k = 2 ^ j * ?b + ?l" by (simp add: k mod_mult2_eq mult.commute[of 2])
  have l: "?l < 2 ^ j" by simp
  consider "?b = 0" | "?b = 1" by linarith
  then have "(2 ^ j < m mod 2 ^ k \<or> m mod 2 ^ k = 2 ^ j \<and> odd (m div 2 ^ k))
      \<longleftrightarrow> ?b = 1 \<and> (?l \<noteq> 0 \<or> odd (m div 2 ^ k))"
  proof cases
    case 1
    then have "m mod 2 ^ k < 2 ^ j" using r l by simp
    then show ?thesis using 1 by simp
  next
    case 2
    then show ?thesis using r by auto
  qed
  moreover have "nat (int k) = k" "k - 1 = j" "\<not> int k \<le> 0" using k by simp_all
  ultimately show ?thesis by (simp only: rne_def Let_def if_False) simp
qed

text \<open>The encoding of a sign and the bits below it.\<close>

definition fp16_encode :: "bool \<Rightarrow> nat \<Rightarrow> f16" where
  "fp16_encode neg n = (if neg then 0x8000 else 0) + of_nat n"

lemma sign_as_shift: "(if b then 0x8000 else 0 :: u32) = push_bit 15 (if b then 1 else 0)"
  by simp

lemma fp16_fields_encode:
  fixes e m :: u32
  assumes "unat e < 32" "unat m < 1024"
  shows "(ucast ((if b then 0x8000 else 0) OR push_bit 10 e OR m) :: f16)
    = fp16_encode b (unat e * 2 ^ 10 + unat m)"
  unfolding sign_as_shift using assms by (subst fp16_fields) (auto simp: fp16_encode_def)

lemma unat_mask10: "unat (x AND 0x3FF) = unat x mod 1024" for x :: u32
  using unat_and_mask[of x 10] by (simp add: mask_eq_exp_minus_1)

lemma unat_and1: "unat (x AND 1) = unat x mod 2" for x :: u32
  using unat_and_mask[of x 1] by (simp add: mask_eq_exp_minus_1)

lemma unat_drop_bit: "unat (drop_bit k x) = unat x div 2 ^ k" for x :: u32
proof -
  have "unat (drop_bit k x) = drop_bit k (take_bit 32 (unat x))" by (simp only: unsigned_drop_bit_eq) simp
  moreover have "take_bit 32 (unat x) = unat x" using unat_word_less[of x] by (simp add: take_bit_nat_eq_self)
  ultimately show ?thesis by (simp only: drop_bit_eq_div)
qed

lemma unat_low_bits: "k < 32 \<Longrightarrow> unat (x AND (push_bit k 1 - 1)) = unat x mod 2 ^ k" for x :: u32
  using unat_and_mask[of x k] by (simp add: mask_eq_exp_minus_1 push_bit_eq_mult)

lemma uint_of_int_small: "0 \<le> k \<Longrightarrow> k < 2 ^ 32 \<Longrightarrow> uint (of_int k :: u32) = k"
  by (simp add: unsigned_of_int take_bit_int_eq_self)

text \<open>The magnitude as the code computes it.\<close>

lemma int16_magnitude:
  fixes v :: i16
  assumes "v \<noteq> 0"
  shows "unat ((if sint v < 0 then of_int (- sint v) else ucast v) :: u32) = nat \<bar>sint v\<bar>"
    and "0 < nat \<bar>sint v\<bar>" "nat \<bar>sint v\<bar> \<le> 32768"
proof -
  have range: "- 32768 \<le> sint v" "sint v < 32768"
    using sint_ge[of v] sint_lt[of v] by simp_all
  have nz: "sint v \<noteq> 0" using assms by (simp add: signed_eq_0_iff)
  show "0 < nat \<bar>sint v\<bar>" "nat \<bar>sint v\<bar> \<le> 32768" using range nz by simp_all
  show "unat ((if sint v < 0 then of_int (- sint v) else ucast v) :: u32) = nat \<bar>sint v\<bar>"
  proof (cases "sint v < 0")
    case True
    have "uint (of_int (- sint v) :: u32) = - sint v"
      by (rule uint_of_int_small) (use True range in simp_all)
    then show ?thesis using True by (simp only: unat_eq_nat_uint if_True abs_of_neg)
  next
    case False
    have "uint v = take_bit 16 (sint v)" using uint_sint[of v] by simp
    then have "uint v = sint v" using False range by (simp add: take_bit_int_eq_self)
    then show ?thesis
      using False range by (simp add: unat_eq_nat_uint unsigned_ucast_eq take_bit_int_eq_self)
  qed
qed

lemma fp16_encode_Suc: "fp16_encode b n + 1 = fp16_encode b (Suc n)"
  by (simp add: fp16_encode_def)

lemma round_pack_int16:
  assumes "nbits m = Suc b" "2 ^ b \<le> m" "m < 2 ^ Suc b" "b \<le> 15"
  shows "round_pack 11 (-24) 0x7C00 m (-11) = (b + 3) * 1024 + rne m (int b - 10)"
proof -
  have "m \<noteq> 0" using assms(1) by (cases m) simp_all
  have e': "max (-11 + int (nbits m) - int 11) (-24) = int b - 21" using assms(1) by simp
  have "rne m (int b - 10) \<le> 2048"
  proof (cases "b \<le> 10")
    case True
    have "m * 2 ^ (10 - b) \<le> 2 ^ Suc b * 2 ^ (10 - b)" using assms(3) by (intro mult_right_mono) simp_all
    also have "(2::nat) ^ Suc b * 2 ^ (10 - b) = 2 ^ 11" using True by (simp flip: power_add)
    finally show ?thesis using True by (simp add: rne_def nat_diff_distrib)
  next
    case False
    then have k: "int b - 10 = int (b - 10)" "0 < b - 10" by simp_all
    have "(2::nat) ^ Suc b = 2 ^ 11 * 2 ^ (b - 10)"
      using False power_add[of "2::nat" 11 "b - 10"] by simp
    then have "m < 2 ^ 11 * 2 ^ (b - 10)" using assms(3) by simp
    then have "m div 2 ^ (b - 10) < 2 ^ 11" by (simp only: less_mult_imp_div_less)
    then show ?thesis unfolding k(1) rne_bits[OF k(2)] by simp
  qed
  then have "(b + 3) * 1024 + rne m (int b - 10) < 0x7C00" using assms(4) by simp
  moreover have "nat (int b - 21 - -24) = b + 3" "int b - 21 - -11 = int b - 10" by simp_all
  ultimately show ?thesis unfolding round_pack_def Let_def e' using \<open>m \<noteq> 0\<close> by simp
qed

lemma int16_small:
  fixes mag :: u32
  assumes "2 ^ b \<le> unat mag" "unat mag < 2 ^ Suc b" "b < 10"
  shows "(ucast ((if neg then 0x8000 else 0) OR push_bit 10 (of_int (int b + 4))
      OR (push_bit (10 - b) mag AND 0x3FF)) :: f16)
    = fp16_encode neg ((b + 3) * 1024 + rne (unat mag) (int b - 10))"
proof -
  let ?s = "unat mag * 2 ^ (10 - b)"
  have "(2::nat) ^ b * 2 ^ (10 - b) = 1024" "(2::nat) ^ Suc b * 2 ^ (10 - b) = 2048"
    using assms(3) by (simp_all flip: power_add)
  moreover have "2 ^ b * 2 ^ (10 - b) \<le> ?s" by (rule mult_right_mono[OF assms(1)]) simp
  moreover have "?s < 2 ^ Suc b * 2 ^ (10 - b)" by (rule mult_strict_right_mono[OF assms(2)]) simp
  ultimately have s: "1024 \<le> ?s" "?s < 2048" by (simp_all only:)
  have "unat (push_bit (10 - b) mag) = ?s"
  proof -
    have "unat (push_bit (10 - b) mag) = take_bit 32 ?s"
      unfolding unsigned_push_bit_eq by (simp add: push_bit_eq_mult)
    then show ?thesis using s(2) by (simp add: take_bit_nat_eq_self)
  qed
  then have m: "unat (push_bit (10 - b) mag AND 0x3FF) = ?s - 1024"
    using s unfolding unat_mask10 by (simp add: mod_if)
  have e: "unat (of_int (int b + 4) :: u32) = b + 4"
    using uint_of_int_small[of "int b + 4"] assms(3) by (simp only: unat_eq_nat_uint) simp
  have "rne (unat mag) (int b - 10) = ?s" using assms(3) by (simp add: rne_def nat_diff_distrib)
  moreover have "(b + 4) * 2 ^ 10 + (?s - 1024) = (b + 3) * 1024 + ?s" using s(1) by simp
  ultimately show ?thesis
    using fp16_fields_encode[of "of_int (int b + 4)" "push_bit (10 - b) mag AND 0x3FF" neg] assms(3) s(2)
    by (simp only: e m)
qed

lemma int16_large:
  fixes mag :: u32
  assumes "2 ^ b \<le> unat mag" "unat mag < 2 ^ Suc b" "10 < b" "b \<le> 15"
    and half: "half = (ucast ((if neg then 0x8000 else 0) OR push_bit 10 (of_int (int b + 4))
      OR (drop_bit (b - 10) mag AND 0x3FF)) :: f16)"
  shows "(if drop_bit (b - 11) mag AND 1 \<noteq> 0
        \<and> (mag AND (push_bit (b - 11) 1 - 1) \<noteq> 0 \<or> (drop_bit (b - 10) mag AND 0x3FF) AND 1 \<noteq> 0)
      then half + 1 else half)
    = fp16_encode neg ((b + 3) * 1024 + rne (unat mag) (int b - 10))"
proof -
  let ?q = "unat mag div 2 ^ (b - 10)"
  have pow: "(1024::nat) * 2 ^ (b - 10) = 2 ^ b" "(2048::nat) * 2 ^ (b - 10) = 2 ^ Suc b"
    using assms(3) power_add[of "2::nat" 10 "b - 10"] power_add[of "2::nat" 11 "b - 10"] by simp_all
  have q: "1024 \<le> ?q" "?q < 2048"
    using assms(1,2) pow by (simp_all add: less_eq_div_iff_mult_less_eq less_mult_imp_div_less)
  have m: "unat (drop_bit (b - 10) mag AND 0x3FF) = ?q - 1024"
    using q unfolding unat_mask10 unat_drop_bit by (simp add: mod_if)
  have e: "unat (of_int (int b + 4) :: u32) = b + 4"
    using uint_of_int_small[of "int b + 4"] assms(4) by (simp only: unat_eq_nat_uint) simp
  have "(b + 4) * 2 ^ 10 + (?q - 1024) = (b + 3) * 1024 + ?q" using q(1) by simp
  then have h: "half = fp16_encode neg ((b + 3) * 1024 + ?q)"
    using fp16_fields_encode[of "of_int (int b + 4)" "drop_bit (b - 10) mag AND 0x3FF" neg] assms(4) q(2)
    unfolding half by (simp only: e m)
  have parity: "(drop_bit (b - 10) mag AND 0x3FF) AND 1 \<noteq> 0 \<longleftrightarrow> odd ?q"
  proof -
    have "unat ((drop_bit (b - 10) mag AND 0x3FF) AND 1) = (?q - 1024) mod 2"
      by (simp only: unat_and1 m)
    moreover have "?q = (?q - 1024) + 512 * 2" using q(1) by simp
    then have "?q mod 2 = (?q - 1024) mod 2" by (metis mod_mult_self1)
    ultimately have "unat ((drop_bit (b - 10) mag AND 0x3FF) AND 1) = ?q mod 2"
      by (simp only:)
    then show ?thesis by (metis mod2_eq_if unat_eq_zero one_neq_zero)
  qed
  have rb: "drop_bit (b - 11) mag AND 1 \<noteq> 0 \<longleftrightarrow> unat mag div 2 ^ (b - 11) mod 2 = 1"
    using unat_and1[of "drop_bit (b - 11) mag"] unfolding unat_drop_bit
    by (metis mod2_eq_if unat_eq_zero one_neq_zero)
  have st: "mag AND (push_bit (b - 11) 1 - 1) \<noteq> 0 \<longleftrightarrow> unat mag mod 2 ^ (b - 11) \<noteq> 0"
  proof -
    have "b - 11 < 32" using assms(4) by simp
    from unat_low_bits[OF this, of mag] show ?thesis by (metis unat_eq_zero)
  qed
  have k: "int b - 10 = int (b - 10)" "0 < b - 10" "b - 10 - 1 = b - 11" using assms(3) by simp_all
  show ?thesis
    unfolding parity rb st h k(1) rne_bits[OF k(2)] k(3) by (simp add: fp16_encode_Suc)
qed

text \<open>C27.
  The fixed-point conversion is \<^verbatim>\<open>v / 2048\<close> rounded to the nearest binary16 value, ties to even, for every
  16-bit input except magnitudes from 1024 to 2047: there the code shifts by minus one, which is undefined.
  No input needs a subnormal or overflows.\<close>

theorem int16_to_fp16_rounds:
  "int16_to_fp16 v =
     (if 1024 \<le> \<bar>sint v\<bar> \<and> \<bar>sint v\<bar> < 2048 then None
      else Some (fp16_encode (sint v < 0) (round_pack 11 (-24) 0x7C00 (nat \<bar>sint v\<bar>) (-11))))"
proof (cases "v = 0")
  case True
  then show ?thesis by (simp add: int16_to_fp16_def fp16_encode_def round_pack_def)
next
  case False
  define mag :: u32 where "mag = (if sint v < 0 then of_int (- sint v) else ucast v)"
  have M: "unat mag = nat \<bar>sint v\<bar>" "0 < unat mag" "unat mag \<le> 32768"
    using int16_magnitude[OF False] unfolding mag_def by (simp_all only:)
  then obtain b where b: "nbits (unat mag) = Suc b" "2 ^ b \<le> unat mag" "unat mag < 2 ^ Suc b"
    using nbits_bounds[of "unat mag"] by blast
  have "(2::nat) ^ b < 2 ^ 16" using b(2) M(3) by simp
  then have b15: "b \<le> 15" using power_less_imp_less_exp[of "2::nat" b 16] by simp
  have e: "int b - 11 + 15 = int b + 4" by simp
  have msb: "int (nbits (unat mag)) - 1 = int b" using b(1) by simp
  have spec: "round_pack 11 (-24) 0x7C00 (nat \<bar>sint v\<bar>) (-11) = (b + 3) * 1024 + rne (unat mag) (int b - 10)"
    using round_pack_int16[OF b b15] by (simp only: M(1))
  note unfolded = int16_to_fp16_def mag_def[symmetric] Let_def msb e spec
  consider "b < 10" | "b = 10" | "10 < b" by linarith
  then show ?thesis
  proof cases
    case 1
    have "(2::nat) ^ Suc b \<le> 2 ^ 10" using 1 by (intro power_increasing) simp_all
    then have "\<not> 1024 \<le> \<bar>sint v\<bar>" using b(3) M(1) by simp
    moreover have "\<not> 10 \<le> int b" "nat (10 - int b) = 10 - b" using 1 by simp_all
    ultimately show ?thesis
      using False int16_small[OF b(2,3) 1, of "sint v < 0"] by (simp only: unfolded if_False simp_thms)
  next
    case 2
    then have "1024 \<le> \<bar>sint v\<bar>" "\<bar>sint v\<bar> < 2048" using b(2,3) M(1) by simp_all
    then show ?thesis using False 2 unfolding unfolded by simp
  next
    case 3
    have "(2::nat) ^ 11 \<le> 2 ^ b" using 3 by (intro power_increasing) simp_all
    then have "2048 \<le> unat mag" using b(2) by simp
    then have "\<not> \<bar>sint v\<bar> < 2048" using M(1) by simp
    moreover have "10 \<le> int b" "\<not> int b - 10 - 1 < 0" "nat (int b - 10) = b - 10"
        "nat (int b - 10 - 1) = b - 11" using 3 by simp_all
    ultimately show ?thesis
      using False int16_large[OF b(2,3) 3 b15 refl, of "sint v < 0"]
      by (simp only: unfolded if_False if_True simp_thms)
  qed
qed

section \<open>Agreement of the converters\<close>

lemma f32_field_words:
  "unat (drop_bit 31 v AND 1) = (if f32_neg v then 1 else 0)"
  "int (unat (drop_bit 23 v AND 0xFF)) = int (f32_expo v)"
  "unat (v AND 0x7FFFFF) = f32_frac v"
proof -
  have "unat v < 2 ^ 32" using unat_word_less[of v] by simp
  then have "unat v div 2 ^ 31 = (if 2 ^ 31 \<le> unat v then 1 else 0)" by (auto simp: div_nat_eqI)
  then show "unat (drop_bit 31 v AND 1) = (if f32_neg v then 1 else 0)"
    unfolding unat_and1 unat_drop_bit f32_fields by simp
qed (simp_all add: f32_expo_def f32_frac_def)

lemma fp16_sign_fields:
  fixes e m :: u32
  assumes "unat e < 32" "unat m < 1024"
  shows "(ucast (push_bit 15 (drop_bit 31 v AND 1) OR push_bit 10 e OR m) :: f16)
    = fp16_encode (f32_neg v) (unat e * 2 ^ 10 + unat m)"
proof -
  have "unat (drop_bit 31 v AND 1) < 2" unfolding f32_field_words by simp
  from fp16_fields[OF this assms] show ?thesis
    unfolding f32_field_words by (simp add: fp16_encode_def)
qed

lemma fp16_sign_only: "(ucast (push_bit 15 (drop_bit 31 v AND 1)) :: f16) = fp16_encode (f32_neg v) 0"
  using fp16_sign_fields[of 0 0 v] by simp

lemma fp16_sign_inf:
  "(ucast (push_bit 15 (drop_bit 31 v AND 1) OR push_bit 10 0x1F) :: f16) = fp16_encode (f32_neg v) 0x7C00"
  using fp16_sign_fields[of 31 0 v] by simp

text \<open>What \<^verbatim>\<open>cvtps_ph\<close> gives on zero, on results in the normal range and beyond it.\<close>

lemma cvtps_ph_encode:
  "\<not> f32_is_nan v \<Longrightarrow> \<not> f32_is_inf v \<Longrightarrow>
     cvtps_ph v = fp16_encode (f32_neg v) (round_pack 11 (-24) 0x7C00 (f32_sig v) (f32_pow v))"
  by (simp add: cvtps_ph_def fp16_encode_def)

lemma cvtps_ph_tiny:
  assumes "f32_expo v = 0"
  shows "cvtps_ph v = fp16_encode (f32_neg v) 0"
proof -
  have sig: "f32_sig v < 2 ^ 23" using assms f32_frac_less[of v] by (simp add: f32_sig_def)
  have e': "max (-149 + int (nbits (f32_sig v)) - int 11) (-24) = -24"
    using nbits_le[OF sig] by simp
  have "f32_sig v < 2 ^ 124" using sig by simp
  then have "rne (f32_sig v) 125 = 0" by (simp add: rne_def)
  then have "round_pack 11 (-24) 0x7C00 (f32_sig v) (-149) = 0"
    unfolding round_pack_def Let_def e' by simp
  then show ?thesis
    using assms by (simp add: cvtps_ph_encode f32_is_nan_def f32_is_inf_def f32_pow_def)
qed

definition fp16_up :: "nat \<Rightarrow> nat" where
  "fp16_up f = (if 4096 < f mod 8192 \<or> (f mod 8192 = 4096 \<and> odd (f div 8192)) then 1 else 0)"

lemma cvtps_ph_large:
  assumes "113 \<le> f32_expo v" "f32_expo v < 255"
  shows "cvtps_ph v = fp16_encode (f32_neg v)
    (min 0x7C00 ((f32_expo v - 112) * 1024 + f32_frac v div 8192 + fp16_up (f32_frac v)))"
proof -
  have sig: "f32_sig v = f32_frac v + 1024 * 8192" using assms by (simp add: f32_sig_def)
  have q: "f32_sig v div 8192 = 1024 + f32_frac v div 8192" "f32_sig v mod 8192 = f32_frac v mod 8192"
    unfolding sig by (simp_all only: mod_mult_self1 div_mult_self1[OF numeral_neq_zero] add.commute)
  have "rne (f32_sig v) 13 = 1024 + f32_frac v div 8192 + fp16_up (f32_frac v)"
    by (simp add: rne_def q fp16_up_def Let_def)
  moreover have e': "max (f32_pow v + int (nbits (f32_sig v)) - int 11) (-24) = f32_pow v + 13"
    using assms f32_sig_normal[of v] by (simp add: f32_pow_def)
  moreover have "nat (f32_pow v + 13 - -24) = f32_expo v - 113" using assms by (simp add: f32_pow_def)
  moreover have "f32_sig v \<noteq> 0" by (simp add: sig)
  ultimately have "round_pack 11 (-24) 0x7C00 (f32_sig v) (f32_pow v)
      = min 0x7C00 ((f32_expo v - 113) * 1024 + (1024 + f32_frac v div 8192 + fp16_up (f32_frac v)))"
    unfolding round_pack_def Let_def e' by simp
  moreover have "(f32_expo v - 113) * 1024 + (1024 + x + y) = (f32_expo v - 112) * 1024 + x + y" for x y
    using assms(1) by (simp add: algebra_simps diff_mult_distrib)
  ultimately show ?thesis
    using assms by (simp add: cvtps_ph_encode f32_is_nan_def f32_is_inf_def)
qed

lemma unat_of_int_small: "0 \<le> k \<Longrightarrow> k < 2 ^ 32 \<Longrightarrow> unat (of_int k :: u32) = nat k"
  by (simp only: unat_eq_nat_uint uint_of_int_small)

lemma fp16_sign_normal:
  assumes "0 < k" "k < 31" "unat m < 1024"
  shows "(ucast (push_bit 15 (drop_bit 31 v AND 1) OR push_bit 10 (of_int k) OR m) :: f16)
    = fp16_encode (f32_neg v) (nat k * 1024 + unat m)"
proof -
  have "unat (of_int k :: u32) = nat k" using assms by (intro unat_of_int_small) simp_all
  then show ?thesis using fp16_sign_fields[of "of_int k" m v] assms by simp
qed

lemma unat_man10: "unat m = f32_frac v \<Longrightarrow> unat (drop_bit 13 m) = f32_frac v div 8192" for m :: u32
  by (simp only: unat_drop_bit) simp

lemma man10_less: "f32_frac v div 8192 < 1024"
  using f32_frac_less[of v] by simp

text \<open>The fallbacks, branch by branch, on the fields of the product.\<close>

lemma fp16_truncate_fields:
  "fp16_truncate v = fp16_encode (f32_neg v)
     (if f32_expo v = 255 then 0x7C00 + (if f32_frac v \<noteq> 0 then 1 else 0)
      else if f32_expo v \<le> 112 then 0
      else if 143 \<le> f32_expo v then 0x7C00
      else (f32_expo v - 112) * 1024 + f32_frac v div 8192)"
proof -
  define sg where "sg = drop_bit 31 v AND 1"
  define mn where "mn = v AND 0x7FFFFF"
  have mn: "unat mn = f32_frac v" by (simp add: mn_def f32_field_words)
  have mn0: "mn \<noteq> 0 \<longleftrightarrow> f32_frac v \<noteq> 0" by (simp flip: mn add: unat_eq_zero)
  note sgn = fp16_sign_only[of v] fp16_sign_inf[of v]
  have nan: "(ucast (push_bit 15 sg OR push_bit 10 0x1F OR (if mn \<noteq> 0 then 1 else 0)) :: f16)
      = fp16_encode (f32_neg v) (0x7C00 + (if f32_frac v \<noteq> 0 then 1 else 0))"
    using fp16_sign_fields[of 31 "if mn \<noteq> 0 then 1 else 0" v] unfolding mn0 sg_def by (auto split: if_splits)
  have normal: "(ucast (push_bit 15 sg OR push_bit 10 (of_int (int (f32_expo v) - 127 + 15)) OR drop_bit 13 mn) :: f16)
      = fp16_encode (f32_neg v) ((f32_expo v - 112) * 1024 + f32_frac v div 8192)"
    if "112 < f32_expo v" "f32_expo v < 143"
  proof -
    have "nat (int (f32_expo v) - 127 + 15) = f32_expo v - 112" using that by simp
    then show ?thesis
      using fp16_sign_normal[of "int (f32_expo v) - 127 + 15" "drop_bit 13 mn" v] that
        unat_man10[OF mn] man10_less[of v] unfolding sg_def by simp
  qed
  consider "f32_expo v = 0" | "f32_expo v = 255" | "0 < f32_expo v" "f32_expo v \<le> 112"
    | "143 \<le> f32_expo v" "f32_expo v < 255" | "112 < f32_expo v" "f32_expo v < 143"
    using f32_expo_less[of v] by linarith
  then show ?thesis
    unfolding fp16_truncate_def Let_def f32_field_words mn_def[symmetric] sg_def[symmetric]
    by cases (use nan normal sgn in \<open>simp_all add: sg_def[symmetric]\<close>)
qed

text \<open>The rounding decision and the carry of the rounded mantissa, on the fields.\<close>

lemma fp16_round_up:
  fixes mn :: u32
  assumes mn: "unat mn = f32_frac v"
  shows "(mn AND 0x1FFF > 0x1000 \<or> mn AND 0x1FFF = 0x1000 \<and> drop_bit 13 mn AND 1 \<noteq> 0)
    \<longleftrightarrow> fp16_up (f32_frac v) = 1"
proof -
  have low: "unat (mn AND 0x1FFF) = f32_frac v mod 8192"
    using unat_and_mask[of mn 13] mn by (simp add: mask_eq_exp_minus_1)
  have "drop_bit 13 mn AND 1 \<noteq> 0 \<longleftrightarrow> odd (f32_frac v div 8192)"
    using unat_and1[of "drop_bit 13 mn"] unfolding unat_man10[OF mn] by (metis mod2_eq_if one_neq_zero unat_eq_zero)
  moreover have "mn AND 0x1FFF > 0x1000 \<longleftrightarrow> f32_frac v mod 8192 > 4096"
      "mn AND 0x1FFF = 0x1000 \<longleftrightarrow> f32_frac v mod 8192 = 4096"
    by (simp_all add: word_less_nat_alt word_unat_eq_iff low)
  ultimately show ?thesis by (simp add: fp16_up_def)
qed

lemma fp16_round_carry:
  fixes mn :: u32
  assumes mn: "unat mn = f32_frac v"
  shows "drop_bit 13 mn + 1 = 0x400 \<longleftrightarrow> f32_frac v div 8192 = 1023"
    "unat (drop_bit 13 mn + 1) = f32_frac v div 8192 + 1"
proof -
  note man10 = unat_man10[OF mn] man10_less[of v]
  show s: "unat (drop_bit 13 mn + 1) = f32_frac v div 8192 + 1"
  proof -
    have "unat (drop_bit 13 mn) + unat (1 :: u32) < 2 ^ 32" using man10 by simp
    from unat_add_no_wrap[of "drop_bit 13 mn" 1] this show ?thesis by (simp add: man10(1))
  qed
  show "drop_bit 13 mn + 1 = 0x400 \<longleftrightarrow> f32_frac v div 8192 = 1023"
    unfolding word_unat_eq_iff s by simp
qed

lemma fp16_round_normal:
  fixes mn :: u32
  assumes mn: "unat mn = f32_frac v" and sg_def: "sg = drop_bit 31 v AND 1" and e5_def: "e5 = int (f32_expo v) - 127 + 15"
    and E: "112 < f32_expo v" "f32_expo v < 143"
  shows "(if fp16_up (f32_frac v) = 1
        then if drop_bit 13 mn + 1 = 0x400
          then if 0x1F \<le> e5 + 1 then ucast (push_bit 15 sg OR push_bit 10 0x1F)
            else ucast (push_bit 15 sg OR push_bit 10 (of_int (e5 + 1)) OR 0)
          else ucast (push_bit 15 sg OR push_bit 10 (of_int e5) OR (drop_bit 13 mn + 1))
        else ucast (push_bit 15 sg OR push_bit 10 (of_int e5) OR drop_bit 13 mn) :: f16)
      = fp16_encode (f32_neg v)
          (min 0x7C00 ((f32_expo v - 112) * 1024 + f32_frac v div 8192 + fp16_up (f32_frac v)))"
proof -
  note man10 = unat_man10[OF mn] man10_less[of v] and carry = fp16_round_carry[OF mn]
  note sgn = fp16_sign_only[of v, folded sg_def] fp16_sign_inf[of v, folded sg_def]
  have up01: "fp16_up (f32_frac v) = 0 \<or> fp16_up (f32_frac v) = 1" by (simp add: fp16_up_def)
  have e5: "0 < e5" "e5 < 31" "nat e5 = f32_expo v - 112" "nat (e5 + 1) = f32_expo v - 112 + 1"
    using E by (simp_all add: e5_def)
  have plain: "(ucast (push_bit 15 sg OR push_bit 10 (of_int e5) OR m) :: f16)
      = fp16_encode (f32_neg v) ((f32_expo v - 112) * 1024 + unat m)" if "unat m < 1024" for m
    using fp16_sign_normal[OF e5(1,2) that, of v] by (simp add: sg_def e5(3))
  have "f32_expo v - 112 \<le> 30" using E by simp
  consider "fp16_up (f32_frac v) = 0" | "fp16_up (f32_frac v) = 1" "f32_frac v div 8192 \<noteq> 1023"
    | "fp16_up (f32_frac v) = 1" "f32_frac v div 8192 = 1023" "30 \<le> e5"
    | "fp16_up (f32_frac v) = 1" "f32_frac v div 8192 = 1023" "e5 < 30" using up01 by linarith
  then show ?thesis
  proof cases
    case 1
    have "(f32_expo v - 112) * 1024 + f32_frac v div 8192 \<le> 31744" using E man10(2) by simp
    then show ?thesis using 1 plain[of "drop_bit 13 mn"] man10 by simp
  next
    case 2
    then have "f32_frac v div 8192 + 1 < 1024" using man10(2) by simp
    moreover from this have "(f32_expo v - 112) * 1024 + (f32_frac v div 8192 + 1) \<le> 31744" using E by simp
    ultimately show ?thesis using 2 plain[of "drop_bit 13 mn + 1"] carry by (simp add: min_def)
  next
    case 3
    then have "f32_expo v - 112 = 30" using E by (simp add: e5_def)
    then show ?thesis using 3 carry sgn by simp
  next
    case 4
    then have "(f32_expo v - 112) * 1024 + 1024 \<le> 31744" using E by (simp add: e5_def)
    then have sum: "min 0x7C00 ((f32_expo v - 112) * 1024 + 1023 + 1) = (f32_expo v - 112 + 1) * 1024"
      by simp
    have "0 < e5 + 1" "e5 + 1 < 31" "unat (0 :: u32) < 1024" using e5 4 by simp_all
    from fp16_sign_normal[OF this, of v]
    have "(ucast (push_bit 15 sg OR push_bit 10 (of_int (e5 + 1)) OR 0) :: f16)
        = fp16_encode (f32_neg v) ((f32_expo v - 112 + 1) * 1024)"
      by (simp only: e5(4) sg_def unsigned_0 add_0_right)
    moreover have "\<not> 0x1F \<le> e5 + 1" using 4 by simp
    ultimately show ?thesis unfolding carry(1) 4(1,2) sum by (simp only: if_True if_False refl)
  qed
qed

lemma fp16_round_fields:
  "fp16_round v = fp16_encode (f32_neg v)
     (if f32_expo v = 255 then 0x7C00 + (if f32_frac v \<noteq> 0 then 0x200 else 0)
      else if f32_expo v \<le> 112 then 0
      else min 0x7C00 ((f32_expo v - 112) * 1024 + f32_frac v div 8192 + fp16_up (f32_frac v)))"
proof -
  define sg where "sg = drop_bit 31 v AND 1"
  define mn where "mn = v AND 0x7FFFFF"
  define e5 where "e5 = int (f32_expo v) - 127 + 15"
  have mn: "unat mn = f32_frac v" by (simp add: mn_def f32_field_words)
  have mn0: "mn \<noteq> 0 \<longleftrightarrow> f32_frac v \<noteq> 0" by (simp flip: mn add: unat_eq_zero)
  note up = fp16_round_up[OF mn] and normal = fp16_round_normal[OF mn sg_def e5_def]
  note sgn = fp16_sign_only[of v, folded sg_def] fp16_sign_inf[of v, folded sg_def]
  have nan: "(ucast (push_bit 15 sg OR push_bit 10 0x1F OR (if mn \<noteq> 0 then 0x200 else 0)) :: f16)
      = fp16_encode (f32_neg v) (0x7C00 + (if f32_frac v \<noteq> 0 then 0x200 else 0))"
    using fp16_sign_fields[of 31 "if mn \<noteq> 0 then 0x200 else 0" v] unfolding mn0 sg_def by (auto split: if_splits)
  have big: "min 0x7C00 ((f32_expo v - 112) * 1024 + x + y) = 0x7C00" if "143 \<le> f32_expo v" for x y
    using that by simp
  consider "f32_expo v = 0" | "f32_expo v = 255" | "0 < f32_expo v" "f32_expo v \<le> 112"
    | "143 \<le> f32_expo v" "f32_expo v < 255" | "112 < f32_expo v" "f32_expo v < 143"
    using f32_expo_less[of v] by linarith
  then show ?thesis
    unfolding fp16_round_def Let_def f32_field_words mn_def[symmetric] sg_def[symmetric] up
      e5_def[symmetric]
    by cases (use nan normal sgn big in \<open>simp_all add: e5_def\<close>)
qed

text \<open>C28.
  The three conversions agree where the design needs them to.  For every product that is not NaN and is either
  zero or subnormal in binary32 or at least \<open>2 ^ -14\<close> in magnitude, the helper's portable code computes exactly what
  the F16C instruction computes; so does the controller's portable code when no fraction bit is cut off, as at
  scale 1.0, because a bfloat16 has only seven of them.  In between they may differ, also just below \<open>2 ^ -14\<close>, where the
  instruction rounds up to a normal number.\<close>

theorem converters_agree:
  assumes "v = f32_mul (bf16_widen b) scale" and "\<not> f32_is_nan v" and "f32_expo v = 0 \<or> 113 \<le> f32_expo v"
  shows "bf16_to_fp16_scalar f16c b scale = cvtps_ph v
    \<and> bf16_to_fp16 True b scale = cvtps_ph v
    \<and> (f32_frac v mod 8192 = 0 \<longrightarrow> bf16_to_fp16 f16c b scale = cvtps_ph v)"
proof -
  have round: "fp16_round v = cvtps_ph v"
  proof (cases "f32_expo v = 255")
    case True
    then have "f32_frac v = 0" "f32_is_inf v" using assms(2) by (simp_all add: f32_is_nan_def f32_is_inf_def)
    then show ?thesis
      using True assms(2) by (simp add: fp16_round_fields cvtps_ph_def fp16_encode_def)
  next
    case False
    then show ?thesis
      using assms(3) f32_expo_less[of v] cvtps_ph_tiny[of v] cvtps_ph_large[of v]
      by (auto simp: fp16_round_fields)
  qed
  have trunc: "fp16_truncate v = cvtps_ph v" if "f32_frac v mod 8192 = 0"
  proof -
    have up: "fp16_up (f32_frac v) = 0" using that by (simp add: fp16_up_def)
    have "fp16_truncate v = fp16_round v"
    proof (cases "f32_expo v = 255")
      case True
      then have "f32_frac v = 0" using assms(2) by (simp add: f32_is_nan_def)
      then show ?thesis using True by (simp add: fp16_round_fields fp16_truncate_fields)
    next
      case False
      have "31744 \<le> (f32_expo v - 112) * 1024 + x" if "143 \<le> f32_expo v" for x using that by simp
      moreover have "(f32_expo v - 112) * 1024 + f32_frac v div 8192 \<le> 31744" if "\<not> 143 \<le> f32_expo v"
        using that man10_less[of v] by simp
      ultimately show ?thesis using False by (simp add: fp16_round_fields fp16_truncate_fields up)
    qed
    then show ?thesis using round by simp
  qed
  show ?thesis using round trunc by (simp add: bf16_to_fp16_scalar_def bf16_to_fp16_def assms(1)[symmetric])
qed

lemma bf16_widen_frac: "f32_frac (bf16_widen b) mod 8192 = 0"
proof -
  have "unat (bf16_widen b) = take_bit 32 (unat b * 2 ^ 16)"
    unfolding bf16_widen_def unsigned_push_bit_eq by (simp add: push_bit_eq_mult)
  moreover have "unat b < 2 ^ 16" using unat_word_less[of b] by simp
  ultimately have "unat (bf16_widen b) = unat b * 8 * 8192" by (simp add: take_bit_nat_eq_self)
  then have "f32_frac (bf16_widen b) = unat b * 8 * 8192 mod (1024 * 8192)" by (simp add: f32_fields)
  also have "\<dots> = (unat b * 8 mod 1024) * 8192" by (simp only: mod_mult_mult2)
  finally show ?thesis by simp
qed

theorem converters_agree_witness:
  "\<not> f32_is_nan (bf16_widen 0x4048) \<and> bf16_to_fp16 False 0x4048 f32_one = bf16_to_fp16_scalar False 0x4048 f32_one"
proof -
  have nan: "\<not> f32_is_nan (bf16_widen 0x4048)" and expo: "f32_expo (bf16_widen 0x4048) = 128"
    by (simp_all add: f32_is_nan_def f32_fields bf16_widen_def)
  have m: "f32_mul (bf16_widen 0x4048) f32_one = bf16_widen 0x4048" by (rule f32_mul_one[OF nan])
  from converters_agree[of "bf16_widen 0x4048" "0x4048" f32_one False] m nan expo bf16_widen_frac[of "0x4048"]
  show ?thesis by simp
qed

text \<open>Outside that range the portable builds differ from the F16C ones: the bfloat16 \<open>2 ^ -15\<close>, whose binary16
  form is a subnormal, is converted by F16C but flushed to zero by both portable converters.\<close>

theorem fallback_flushes_subnormals:
  "bf16_to_fp16 True 0x3800 f32_one = 0x0200 \<and> bf16_to_fp16 False 0x3800 f32_one = 0
   \<and> bf16_to_fp16_scalar False 0x3800 f32_one = 0"
proof -
  have v: "bf16_widen 0x3800 = 0x38000000" by (simp add: bf16_widen_def)
  have f: "\<not> f32_neg 0x38000000" "f32_expo 0x38000000 = 112" "f32_frac 0x38000000 = 0"
    by (simp_all add: f32_fields)
  then have nan: "\<not> f32_is_nan 0x38000000" "\<not> f32_is_inf 0x38000000"
    by (simp_all add: f32_is_nan_def f32_is_inf_def)
  have sig: "f32_sig 0x38000000 = 2 ^ 23" "f32_pow 0x38000000 = -38"
    using f by (simp_all add: f32_sig_def f32_pow_def)
  have "nbits (2 ^ 23) = 24" using nbits_eqI[of 23 "2 ^ 23"] by simp
  then have "round_pack 11 (-24) 0x7C00 (2 ^ 23) (-38) = 0x200"
    unfolding round_pack_def by (simp add: rne_def Let_def)
  then have "cvtps_ph 0x38000000 = 0x200" using nan f by (simp add: cvtps_ph_encode sig fp16_encode_def)
  moreover have "f32_mul 0x38000000 f32_one = 0x38000000" by (rule f32_mul_one[OF nan(1)])
  ultimately show ?thesis
    using f by (simp add: bf16_to_fp16_def bf16_to_fp16_scalar_def v fp16_truncate_fields fp16_round_fields
        fp16_encode_def)
qed

section \<open>Whole slots\<close>

lemma vector_loop_map:
  assumes "\<And>b. avx2_lane scale b = t b scale"
  shows "vector_loop t scale src i = map (\<lambda>b. t b scale) (drop i src)"
proof (induction "length src - i" arbitrary: i rule: less_induct)
  case less
  show ?case
  proof (cases "i + 8 \<le> length src")
    case True
    have "vector_loop t scale src (i + 8) = map (\<lambda>b. t b scale) (drop (i + 8) src)"
      using True by (intro less) simp
    moreover have "drop i src = take 8 (drop i src) @ drop (i + 8) src"
      by (metis add.commute append_take_drop_id drop_drop)
    ultimately show ?thesis
      unfolding vector_loop.simps[of t scale src i] using True assms
      by (metis (no_types, lifting) map_append map_eq_conv)
  qed (simp add: vector_loop.simps[of t scale src i])
qed

lemma lane_is_scalar: "avx2_lane scale b = bf16_to_fp16_scalar True b scale"
    "avx2_lane scale b = bf16_to_fp16 True b scale"
  by (simp_all add: avx2_lane_def bf16_to_fp16_scalar_def bf16_to_fp16_def bf16_widen_def)

lemma convert_ant_map:
  "avx2 \<longrightarrow> f16c \<Longrightarrow> convert_ant avx2 f16c src scale = map (\<lambda>b. bf16_to_fp16_scalar f16c b scale) src"
  by (auto simp: convert_ant_def vector_loop_map lane_is_scalar(1))

lemma fill_antennas:
  fixes f :: "'b \<Rightarrow> 'a"
  assumes "k * n \<le> length src" "k * n \<le> length dst"
  shows "fold (\<lambda>a row. take (a * n) row @ map f (take n (drop (a * n) src)) @ drop (Suc a * n) row) [0..<k] dst
    = map f (take (k * n) src) @ drop (k * n) dst"
  using assms
proof (induction k)
  case (Suc k)
  let ?row = "map f (take (k * n) src) @ drop (k * n) dst"
  have len: "k * n \<le> length src" "k * n \<le> length dst" using Suc.prems by simp_all
  have "take (Suc k * n) src = take (k * n) src @ take n (drop (k * n) src)"
    by (metis add.commute mult_Suc take_add)
  moreover have "take (k * n) ?row = map f (take (k * n) src)" using len by simp
  moreover have "drop (Suc k * n) ?row = drop (Suc k * n) dst" using len by simp
  ultimately show ?case using Suc.IH[OF len] by simp
qed simp

text \<open>The helper's slot conversion writes the converted samples of every delivered antenna, clamped to the
  antennas of the row and at least one, and leaves the rest of the row as it was; the eight-lane vector
  loop with its scalar tail computes the same row as the scalar loop, and the returned byte count is that
  of the samples written.\<close>

theorem convert_slot_row:
  assumes "avx2 \<longrightarrow> f16c" and "n = unat (rg_u16_per_ant geom)"
    and "ports = min (max 1 (unat nof_ports)) (unat (rg_nof_ants geom))"
    and "ports * n \<le> length src" and "ports * n \<le> length dst" and "ports * n < 2 ^ 63"
    and "convert_slot avx2 f16c dst src geom nof_ports scale = (row, written)"
  shows "row = map (\<lambda>b. bf16_to_fp16_scalar f16c b scale) (take (ports * n) src) @ drop (ports * n) dst
    \<and> unat written = 2 * (ports * n)"
proof -
  define p0 where "p0 = (if nof_ports \<noteq> 0 then nof_ports else 1)"
  define p where "p = (if p0 > rg_nof_ants geom then rg_nof_ants geom else p0)"
  have p: "unat p = ports"
    unfolding p_def p0_def assms(3) by (auto simp: word_less_nat_alt unat_eq_zero min_def max_def not_less
        unat_gt_0 Suc_le_eq le_less)
  have n: "unat (ucast p * rg_u16_per_ant geom) = ports * n"
    using assms(6) by (subst unat_mult_no_wrap) (simp_all add: p assms(2)[symmetric])
  have "unat (ucast p * rg_u16_per_ant geom * 2) = 2 * (ports * n)"
    using assms(6) n by (subst unat_mult_no_wrap) (simp_all add: mult.commute)
  moreover have "(row, written) = (fold (\<lambda>a row. take (a * n) row
      @ map (\<lambda>b. bf16_to_fp16_scalar f16c b scale) (take n (drop (a * n) src)) @ drop (Suc a * n) row)
      [0..<ports] dst, ucast p * rg_u16_per_ant geom * 2)"
    using assms(7) unfolding convert_slot_def Let_def p0_def[symmetric] p_def[symmetric] p
      assms(2)[symmetric] convert_ant_map[OF assms(1)] by simp
  ultimately show ?thesis using fill_antennas[OF assms(4,5)] by simp
qed

theorem convert_slot_row_witness:
  "fst (convert_slot True True [1, 2, 3, 4] [0, 0] \<lparr>rg_nof_symbols = 1, rg_nof_subcarriers = 1, rg_nof_ants = 2\<rparr> 1 f32_one)
     = map (\<lambda>b. bf16_to_fp16_scalar True b f32_one) [0, 0] @ [3, 4]"
proof -
  let ?g = "\<lparr>rg_nof_symbols = 1, rg_nof_subcarriers = 1, rg_nof_ants = 2\<rparr>"
  obtain row w where r: "convert_slot True True [1, 2, 3, 4] [0, 0] ?g 1 f32_one = (row, w)" by fastforce
  have "unat (rg_u16_per_ant ?g) = 2" by (simp add: rg_u16_per_ant_def)
  then show ?thesis
    using convert_slot_row[of True True 2 ?g 1 1 "[0, 0]" "[1, 2, 3, 4]" f32_one row w] r by simp
qed

end
