(* ===== verification/Shm_Writer.thy ===== *)
theory Shm_Writer
  imports E3_Config Sample_Convert
begin

text \<open>
  The writer of the shared-memory region the dApps map
  (\<^verbatim>\<open>src/e3sm/utils/e3sm_shm_writer.h\<close>, \<^verbatim>\<open>e3sm_shm_writer.cpp\<close>).  The region is a 64-byte header,
  kept as a record, and the bytes behind it, a \<open>mem\<close> indexed from the start of the mapping.  The results
  of \<^verbatim>\<open>shm_open\<close>, \<^verbatim>\<open>ftruncate\<close> and \<^verbatim>\<open>mmap\<close> are arguments; the calls that release them are recorded.
  Reading past the end of the source samples, publishing through the null buffer pointer of a writer that is
  not open, dividing by a row size of zero and the undefined shift of \<open>int16_to_fp16\<close> give \<open>None\<close>.
\<close>

section \<open>State\<close>

record SharedMemoryHeader =
  h_version :: u32
  h_fh_buffer_size :: u32
  h_pusch_buffer_size :: u32
  h_hest_buffer_size :: u32
  h_num_fh_samples :: u32
  h_num_fh_rows :: u32
  h_num_pusch_rows :: u32
  h_num_hest_rows :: u32
  h_max_hest_samples_per_row :: u32

definition header_bytes :: nat where
  "header_bytes = 64"

datatype shm_call = Munmap | CloseFd | ShmUnlink string

record shm_writer =
  w_fd_open :: bool
  w_mapped :: bool
  w_mapped_size :: size_t
  w_shm_name :: string
  w_header :: SharedMemoryHeader
  w_mem :: mem
  w_num_fh_samples :: u32
  w_row_bytes :: u32
  w_num_fh_rows :: u32
  w_num_buffers :: u32
  w_fh_buffer_size :: u32
  w_next_row :: u32
  w_next_buf :: u8
  w_cbf16_scale :: f32
  w_geom :: RadioGeometry
  w_writer :: ShmWriter
  w_calls :: "shm_call list"

definition zero_header :: SharedMemoryHeader where
  "zero_header =
     \<lparr>h_version = 0, h_fh_buffer_size = 0, h_pusch_buffer_size = 0, h_hest_buffer_size = 0,
      h_num_fh_samples = 0, h_num_fh_rows = 0, h_num_pusch_rows = 0, h_num_hest_rows = 0,
      h_max_hest_samples_per_row = 0\<rparr>"

definition ShmIqWriter :: shm_writer where
  "ShmIqWriter =
     \<lparr>w_fd_open = False, w_mapped = False, w_mapped_size = 0, w_shm_name = [], w_header = zero_header,
      w_mem = (\<lambda>_. 0), w_num_fh_samples = 0, w_row_bytes = 0, w_num_fh_rows = 0, w_num_buffers = 0,
      w_fh_buffer_size = 0, w_next_row = 0, w_next_buf = 0, w_cbf16_scale = f32_one,
      w_geom = default_RadioGeometry, w_writer = Controller, w_calls = []\<rparr>"

definition writes_rows :: "shm_writer \<Rightarrow> bool" where
  "writes_rows w \<longleftrightarrow> w_writer w = Controller"

section \<open>Opening and closing\<close>

definition shm_close :: "shm_writer \<Rightarrow> shm_writer" where
  "shm_close w =
     w\<lparr>w_calls := w_calls w @ (if w_mapped w then [Munmap] else [])
         @ (if w_fd_open w then [CloseFd] else [])
         @ (if w_shm_name w \<noteq> [] then [ShmUnlink (w_shm_name w)] else []),
       w_mapped := False, w_fd_open := False, w_shm_name := [], w_mapped_size := 0\<rparr>"

text \<open>Header size and row count as the code computes them; \<open>usable\<close> is zero for a tiny region.\<close>

definition open_rows :: "size_t \<Rightarrow> RadioGeometry \<Rightarrow> u32" where
  "open_rows total_size geom =
     (let usable = (if total_size > of_nat header_bytes then total_size - of_nat header_bytes else 0);
          per_buf = usable div 2
      in ucast (per_buf div ucast (row_bytes geom)))"

definition shm_open ::
    "bool \<Rightarrow> bool \<Rightarrow> bool \<Rightarrow> string \<Rightarrow> size_t \<Rightarrow> RadioGeometry \<Rightarrow> f32 \<Rightarrow> ShmWriter \<Rightarrow> shm_writer
      \<Rightarrow> (bool \<times> shm_writer) option" where
  "shm_open shm_open_ok ftruncate_ok mmap_ok name total_size geom scale wr w =
     (if w_mapped w then Some (False, w)
      else
        let w1 = w\<lparr>w_shm_name := name\<rparr>
        in if \<not> shm_open_ok then Some (False, w1\<lparr>w_fd_open := False\<rparr>)
           else if \<not> ftruncate_ok then Some (False, w1\<lparr>w_calls := w_calls w1 @ [CloseFd], w_fd_open := False\<rparr>)
           else if \<not> mmap_ok then Some (False, w1\<lparr>w_calls := w_calls w1 @ [CloseFd], w_fd_open := False\<rparr>)
           else
             let rows = open_rows total_size geom;
                 w2 = w1\<lparr>w_fd_open := True, w_mapped := True, w_mapped_size := total_size,
                        w_mem := (\<lambda>_. 0), w_header := zero_header, w_geom := geom, w_cbf16_scale := scale,
                        w_writer := wr, w_num_fh_samples := num_fh_samples geom,
                        w_row_bytes := row_bytes geom, w_num_buffers := 2, w_num_fh_rows := rows\<rparr>
             in if row_bytes geom = 0 then None
                else if rows = 0 then Some (False, shm_close w2)
                else
                  let fbs = rows * row_bytes geom
                  in Some (True, w2\<lparr>w_fh_buffer_size := fbs,
                        w_header := zero_header\<lparr>h_version := 1, h_fh_buffer_size := fbs,
                          h_num_fh_samples := num_fh_samples geom, h_num_fh_rows := rows\<rparr>,
                        w_next_row := 0, w_next_buf := 0\<rparr>))"

section \<open>Publishing\<close>

text \<open>Byte address of the row under the cursor, computed in \<^verbatim>\<open>size_t\<close>.\<close>

definition row_base :: "shm_writer \<Rightarrow> nat" where
  "row_base w = header_bytes
     + unat (ucast (w_next_buf w) * ucast (w_fh_buffer_size w) + ucast (w_next_row w) * ucast (w_row_bytes w) :: size_t)"

text \<open>A run of 16-bit stores.\<close>

fun store_u16s :: "nat \<Rightarrow> u16 list \<Rightarrow> mem \<Rightarrow> mem" where
  "store_u16s a [] m = m"
| "store_u16s a (v # vs) m = store_u16s (a + 2) vs (write_u16 a v m)"

text \<open>\<^verbatim>\<open>if (written < row_bytes_) memset(row_base + written, 0, row_bytes_ - written)\<close>.\<close>

definition clear_tail :: "nat \<Rightarrow> nat \<Rightarrow> nat \<Rightarrow> mem \<Rightarrow> mem" where
  "clear_tail base written rb m = (if written < rb then memset0 (base + written) (rb - written) m else m)"

definition advance :: "shm_writer \<Rightarrow> shm_writer" where
  "advance w =
     (if w_next_row w + 1 \<ge> w_num_fh_rows w
      then w\<lparr>w_next_row := 0, w_next_buf := ucast ((ucast (w_next_buf w) + 1) mod w_num_buffers w)\<rparr>
      else w\<lparr>w_next_row := w_next_row w + 1\<rparr>)"

text \<open>The result is \<^verbatim>\<open>false\<close> or the two indices, with the new state.\<close>

definition publish_row :: "i16 list \<Rightarrow> shm_writer \<Rightarrow> ((u8 \<times> u32) option \<times> shm_writer) option" where
  "publish_row iq_int16 w =
     (if \<not> writes_rows w then Some (None, w)
      else
        let base = row_base w;
            n_pairs = unat (ucast (nof_symbols (w_geom w)) * ucast (nof_subcarriers (w_geom w)) :: size_t);
            samples = map int16_to_fp16 (take (2 * n_pairs) iq_int16)
        in if \<not> w_mapped w \<or> length iq_int16 < 2 * n_pairs \<or> None \<in> set samples then None
           else
             let m1 = store_u16s base (map the samples) (w_mem w);
                 m2 = clear_tail base (n_pairs * 2 * 2) (unat (w_row_bytes w)) m1
             in Some (Some (w_next_buf w, w_next_row w), advance (w\<lparr>w_mem := m2\<rparr>)))"

text \<open>
  The source bytes reread as little-endian 16-bit words, and the antenna loop; \<open>avx2\<close> selects the vector
  build, \<open>f16c\<close> the scalar conversion of \<^verbatim>\<open>bf16_to_fp16\<close>.
\<close>

fun bytes_u16 :: "u8 list \<Rightarrow> u16 list" where
  "bytes_u16 (lo # hi # bs) = (ucast lo OR push_bit 8 (ucast hi)) # bytes_u16 bs"
| "bytes_u16 _ = []"

definition convert_row_ant :: "bool \<Rightarrow> bool \<Rightarrow> f32 \<Rightarrow> bf16 list \<Rightarrow> f16 list" where
  "convert_row_ant avx2 f16c scale src =
     (if avx2 then vector_loop (bf16_to_fp16 f16c) scale src 0
      else map (\<lambda>b. bf16_to_fp16 f16c b scale) src)"

definition clamp_ports :: "u16 \<Rightarrow> RadioGeometry \<Rightarrow> u16" where
  "clamp_ports n geom =
     (let ports = (if n \<noteq> 0 then n else 1) in if ports > nof_ports geom then nof_ports geom else ports)"

definition publish_row_cbf16 ::
    "bool \<Rightarrow> bool \<Rightarrow> u8 list \<Rightarrow> u16 \<Rightarrow> shm_writer \<Rightarrow> ((u8 \<times> u32) option \<times> shm_writer) option" where
  "publish_row_cbf16 avx2 f16c iq_bytes nof_ports_in w =
     (if \<not> writes_rows w then Some (None, w)
      else
        let base = row_base w;
            src = bytes_u16 iq_bytes;
            n = unat (u16_per_ant (w_geom w));
            ports = unat (clamp_ports nof_ports_in (w_geom w))
        in if \<not> w_mapped w \<or> length src < ports * n then None
           else
             let m1 = fold (\<lambda>a. store_u16s (base + 2 * (a * n))
                       (convert_row_ant avx2 f16c (w_cbf16_scale w) (take n (drop (a * n) src))))
                     [0..<ports] (w_mem w);
                 m2 = clear_tail base (ports * n * 2) (unat (w_row_bytes w)) m1
             in Some (Some (w_next_buf w, w_next_row w), advance (w\<lparr>w_mem := m2\<rparr>)))"

section \<open>Layout\<close>

text \<open>
  An open writer: the geometry is valid, the derived numbers agree with it and with the header, the
  cursor is inside the ring, and both buffers fit the mapping.
\<close>

definition shm_ok :: "shm_writer \<Rightarrow> bool" where
  "shm_ok w \<longleftrightarrow>
     w_mapped w \<and> validate (w_geom w) = None \<and> w_row_bytes w = row_bytes (w_geom w)
     \<and> w_num_fh_samples w = num_fh_samples (w_geom w) \<and> w_num_buffers w = 2
     \<and> 0 < unat (w_num_fh_rows w)
     \<and> unat (w_fh_buffer_size w) = unat (w_num_fh_rows w) * unat (w_row_bytes w)
     \<and> header_bytes + 2 * unat (w_fh_buffer_size w) \<le> unat (w_mapped_size w)
     \<and> unat (w_next_row w) < unat (w_num_fh_rows w) \<and> unat (w_next_buf w) < 2
     \<and> h_fh_buffer_size (w_header w) = w_fh_buffer_size w
     \<and> h_num_fh_samples (w_header w) = w_num_fh_samples w
     \<and> h_num_fh_rows (w_header w) = w_num_fh_rows w"

text \<open>Where a dApp looks for row \<open>(b, r)\<close>, from the header alone.\<close>

definition dapp_offset :: "SharedMemoryHeader \<Rightarrow> nat \<Rightarrow> nat \<Rightarrow> nat" where
  "dapp_offset h b r = header_bytes + b * unat (h_fh_buffer_size h) + r * (unat (h_num_fh_samples h) * 2)"

lemma shm_ok_row_bytes:
  "shm_ok w \<Longrightarrow> unat (w_row_bytes w) = unat (w_num_fh_samples w) * 2"
  using validate_sizes(3,4)[of "w_geom w"] by (auto simp: shm_ok_def)

lemma row_product_bound:
  assumes "(r::nat) < rows" "0 < rb"
  shows "r * rb + rb \<le> rows * rb"
proof -
  have "Suc r * rb \<le> rows * rb" using assms(1) by (intro mult_right_mono) simp_all
  then show ?thesis by simp
qed

lemma dapp_offset_eq:
  "shm_ok w \<Longrightarrow> dapp_offset (w_header w) b r
     = header_bytes + b * unat (w_fh_buffer_size w) + r * unat (w_row_bytes w)"
proof -
  assume ok: "shm_ok w"
  have "h_fh_buffer_size (w_header w) = w_fh_buffer_size w" "h_num_fh_samples (w_header w) = w_num_fh_samples w"
    using ok unfolding shm_ok_def by blast+
  then show ?thesis by (simp add: dapp_offset_def shm_ok_row_bytes[OF ok])
qed

lemma shm_ok_sizes:
  assumes "shm_ok w"
  shows "0 < unat (w_row_bytes w)"
    "unat (w_fh_buffer_size w) = unat (w_num_fh_rows w) * unat (w_row_bytes w)"
    "header_bytes + 2 * unat (w_fh_buffer_size w) \<le> unat (w_mapped_size w)"
    "unat (w_next_row w) < unat (w_num_fh_rows w)" "unat (w_next_buf w) < 2"
proof -
  have "validate (w_geom w) = None" "w_row_bytes w = row_bytes (w_geom w)"
    using assms unfolding shm_ok_def by blast+
  then show "0 < unat (w_row_bytes w)" using validate_sizes(6)[of "w_geom w"] by simp
qed (use assms in \<open>unfold shm_ok_def, blast\<close>)+

lemma dapp_row_inside:
  assumes "shm_ok w" "b < 2" "r < unat (w_num_fh_rows w)"
  shows "header_bytes \<le> dapp_offset (w_header w) b r
    \<and> dapp_offset (w_header w) b r + unat (w_row_bytes w) \<le> unat (w_mapped_size w)"
proof -
  have "r * unat (w_row_bytes w) + unat (w_row_bytes w) \<le> unat (w_fh_buffer_size w)"
    unfolding shm_ok_sizes(2)[OF assms(1)] by (rule row_product_bound[OF assms(3) shm_ok_sizes(1)[OF assms(1)]])
  moreover have "b * unat (w_fh_buffer_size w) \<le> unat (w_fh_buffer_size w)" using assms(2) by (cases b) simp_all
  ultimately show ?thesis
    unfolding dapp_offset_eq[OF assms(1)] using shm_ok_sizes(3)[OF assms(1)] by linarith
qed

text \<open>Different rows do not overlap.\<close>

lemma dapp_rows_disjoint:
  assumes "shm_ok w" "b < 2" "r < unat (w_num_fh_rows w)" "b' < 2" "r' < unat (w_num_fh_rows w)"
    and "(b, r) \<noteq> (b', r')"
  shows "dapp_offset (w_header w) b r + unat (w_row_bytes w) \<le> dapp_offset (w_header w) b' r'
    \<or> dapp_offset (w_header w) b' r' + unat (w_row_bytes w) \<le> dapp_offset (w_header w) b r"
proof -
  let ?rb = "unat (w_row_bytes w)" and ?rows = "unat (w_num_fh_rows w)"
  have off: "dapp_offset (w_header w) x y = header_bytes + (x * ?rows + y) * ?rb" for x y
    unfolding dapp_offset_eq[OF assms(1)] shm_ok_sizes(2)[OF assms(1)] by (simp add: algebra_simps)
  have sep: "i * ?rb + ?rb \<le> j * ?rb" if "i < j" for i j
    using row_product_bound[OF that, of ?rb] by (cases "?rb = 0") simp_all
  have "b * ?rows + r \<noteq> b' * ?rows + r'"
  proof
    assume eq: "b * ?rows + r = b' * ?rows + r'"
    have "(b * ?rows + r) div ?rows = b" "(b' * ?rows + r') div ?rows = b'" using assms(3,5) by simp_all
    then have "b = b'" using eq by simp
    then show False using eq assms(6) by simp
  qed
  then consider "b * ?rows + r < b' * ?rows + r'" | "b' * ?rows + r' < b * ?rows + r" by linarith
  then show ?thesis by cases (use sep in \<open>auto simp: off\<close>)
qed

lemma row_base_offset:
  assumes "shm_ok w"
  shows "row_base w = dapp_offset (w_header w) (unat (w_next_buf w)) (unat (w_next_row w))"
proof -
  let ?b = "unat (w_next_buf w)" and ?r = "unat (w_next_row w)"
  let ?f = "unat (w_fh_buffer_size w)" and ?rb = "unat (w_row_bytes w)"
  have "header_bytes + ?b * ?f + ?r * ?rb + ?rb \<le> unat (w_mapped_size w)"
    using dapp_row_inside[OF assms shm_ok_sizes(5,4)[OF assms]] unfolding dapp_offset_eq[OF assms] by linarith
  then have bound: "?b * ?f + ?r * ?rb < 2 ^ 64" "?b * ?f < 2 ^ 64" "?r * ?rb < 2 ^ 64"
    using unat_word_less[of "w_mapped_size w"] shm_ok_sizes(1)[OF assms] by simp_all
  have p: "unat (ucast (w_next_buf w) * ucast (w_fh_buffer_size w) :: size_t) = ?b * ?f"
    "unat (ucast (w_next_row w) * ucast (w_row_bytes w) :: size_t) = ?r * ?rb"
    using bound(2,3) by (subst unat_mult_no_wrap; simp)+
  have "unat (ucast (w_next_buf w) * ucast (w_fh_buffer_size w) + ucast (w_next_row w) * ucast (w_row_bytes w) :: size_t)
      = ?b * ?f + ?r * ?rb"
    using bound(1) by (subst unat_add_no_wrap) (simp_all only: p, simp_all)
  then show ?thesis unfolding row_base_def dapp_offset_eq[OF assms] by simp
qed

section \<open>Opening\<close>

lemma open_rows_exact:
  assumes "validate geom = None" "unat total_size < 2 ^ 33"
  shows "unat (open_rows total_size geom) = (unat total_size - 64) div 2 div unat (row_bytes geom)"
proof -
  let ?u = "if total_size > of_nat header_bytes then total_size - of_nat header_bytes else 0"
  have u: "unat ?u = unat total_size - 64"
    by (auto simp: header_bytes_def word_less_nat_alt unat_sub_no_wrap)
  have "unat (?u div 2 div ucast (row_bytes geom)) = (unat total_size - 64) div 2 div unat (row_bytes geom)"
    by (simp only: unat_div u unat_ucast_sizes) simp
  moreover have "(unat total_size - 64) div 2 div unat (row_bytes geom) < 2 ^ 32"
  proof -
    have "(unat total_size - 64) div 2 div unat (row_bytes geom) \<le> (unat total_size - 64) div 2"
      by (rule div_le_dividend)
    also have "\<dots> < 2 ^ 32" using assms(2) by simp
    finally show ?thesis .
  qed
  ultimately show ?thesis
    unfolding open_rows_def Let_def unsigned_ucast_eq by (simp add: take_bit_nat_eq_self)
qed

lemma open_layout:
  assumes "\<not> w_mapped w" and "validate geom = None" and "unat total_size < 2 ^ 33"
    and "64 + 2 * unat (row_bytes geom) \<le> unat total_size"
  shows "\<exists>w'. shm_open True True True name total_size geom scale wr w = Some (True, w') \<and> shm_ok w'
    \<and> unat (h_num_fh_rows (w_header w')) = (unat total_size - 64) div 2 div unat (row_bytes geom)
    \<and> (\<forall>b < 2. \<forall>r < unat (h_num_fh_rows (w_header w')).
         64 \<le> dapp_offset (w_header w') b r
         \<and> dapp_offset (w_header w') b r + unat (row_bytes geom) \<le> unat total_size
         \<and> (\<forall>b' < 2. \<forall>r' < unat (h_num_fh_rows (w_header w')). (b, r) \<noteq> (b', r') \<longrightarrow>
             dapp_offset (w_header w') b r + unat (row_bytes geom) \<le> dapp_offset (w_header w') b' r'
             \<or> dapp_offset (w_header w') b' r' + unat (row_bytes geom) \<le> dapp_offset (w_header w') b r))"
proof -
  let ?rows = "open_rows total_size geom" and ?rb = "unat (row_bytes geom)"
  have rb: "0 < ?rb" using validate_sizes(6)[OF assms(2)] .
  have rows: "unat ?rows = (unat total_size - 64) div 2 div ?rb" by (rule open_rows_exact[OF assms(2,3)])
  have "?rb \<le> (unat total_size - 64) div 2" using assms(4) by simp
  then have pos: "0 < unat ?rows" unfolding rows using rb by (simp add: div_greater_zero_iff)
  have fit: "unat ?rows * ?rb \<le> (unat total_size - 64) div 2" unfolding rows by (rule div_times_less_eq_dividend)
  then have fbs: "unat (?rows * row_bytes geom) = unat ?rows * ?rb"
    using assms(3) by (intro unat_mult_no_wrap) simp
  obtain w' where w': "shm_open True True True name total_size geom scale wr w = Some (True, w')"
    using assms(1) pos rb by (simp add: shm_open_def Let_def unat_gt_0)
  have ok: "shm_ok w'" and hr: "h_num_fh_rows (w_header w') = ?rows"
    and same: "w_row_bytes w' = row_bytes geom" "w_mapped_size w' = total_size" "w_num_fh_rows w' = ?rows"
    using w' assms pos fbs fit
    by (auto simp: shm_open_def Let_def shm_ok_def header_bytes_def zero_header_def split: if_splits)
  show ?thesis
    using w' ok rows dapp_row_inside[OF ok] dapp_rows_disjoint[OF ok]
    by (simp add: hr same header_bytes_def)
qed

text \<open>C26.
  Opening a region of less than 8 GiB that holds the header and a row per buffer succeeds whenever the
  system calls do.  The row counts and buffer sizes put in the header are exact, and with them every row a
  dApp can address from the header lies inside the mapping, behind the header, and apart from every other
  row.\<close>

theorem shm_open_layout:
  assumes "\<not> w_mapped w" and "validate geom = None" and "unat total_size < 2 ^ 33"
    and "64 + 2 * unat (row_bytes geom) \<le> unat total_size"
  shows "\<exists>w'. shm_open True True True name total_size geom scale wr w = Some (True, w') \<and> shm_ok w'
    \<and> unat (h_num_fh_rows (w_header w')) = (unat total_size - 64) div 2 div unat (row_bytes geom)
    \<and> (\<forall>b < 2. \<forall>r < unat (h_num_fh_rows (w_header w')).
         64 \<le> dapp_offset (w_header w') b r
         \<and> dapp_offset (w_header w') b r + unat (row_bytes geom) \<le> unat total_size
         \<and> (\<forall>b' < 2. \<forall>r' < unat (h_num_fh_rows (w_header w')). (b, r) \<noteq> (b', r') \<longrightarrow>
             dapp_offset (w_header w') b r + unat (row_bytes geom) \<le> dapp_offset (w_header w') b' r'
             \<or> dapp_offset (w_header w') b' r' + unat (row_bytes geom) \<le> dapp_offset (w_header w') b r))"
  by (rule open_layout[OF assms])

lemma default_geometry_valid: "validate default_RadioGeometry = None"
    "row_bytes default_RadioGeometry = 733824" "num_fh_samples default_RadioGeometry = 366912"
    "u16_per_ant default_RadioGeometry = 91728"
  by (simp_all add: validate_def default_RadioGeometry_def row_bytes_def num_fh_samples_def u16_per_ant_def
      nof_subcarriers_def kScPerPrb_def)

theorem shm_open_layout_witness:
  "\<exists>w'. shm_open True True True ''/e3_ran_buffers'' 0x40000000 default_RadioGeometry f32_one Gnb ShmIqWriter = Some (True, w')
     \<and> shm_ok w' \<and> unat (h_num_fh_rows (w_header w')) = 731"
  using shm_open_layout[of ShmIqWriter default_RadioGeometry "0x40000000" "''/e3_ran_buffers''" f32_one Gnb]
  by (auto simp: default_geometry_valid ShmIqWriter_def)

text \<open>The 8 GiB bound matters and nothing enforces it: for a 16 GiB region the 32-bit buffer size wraps, the
  header advertises less than the rows of a buffer take, and the first row of the second buffer starts
  inside a row of the first.\<close>

theorem shm_open_wraps:
  "\<exists>w'. shm_open True True True name 0x400000000 default_RadioGeometry scale wr ShmIqWriter = Some (True, w')
     \<and> unat (h_num_fh_rows (w_header w')) = 11705
     \<and> unat (h_fh_buffer_size (w_header w')) < 11705 * unat (w_row_bytes w')
     \<and> dapp_offset (w_header w') 0 5852 < dapp_offset (w_header w') 1 0
     \<and> dapp_offset (w_header w') 1 0 < dapp_offset (w_header w') 0 5852 + unat (w_row_bytes w')"
proof -
  have rows: "open_rows 0x400000000 default_RadioGeometry = 11705"
    by (simp add: open_rows_def default_geometry_valid header_bytes_def)
  show ?thesis
    by (simp add: shm_open_def ShmIqWriter_def rows default_geometry_valid dapp_offset_def zero_header_def)
qed

text \<open>
  A failed \<^verbatim>\<open>open\<close> leaves the name behind, so the close that follows (the destructor's) unlinks the region even
  though this object never mapped it; after a close nothing is left to release.
\<close>

lemma failed_open_unlinks:
  assumes "\<not> w_mapped w" "\<not> w_fd_open w" "name \<noteq> []" "\<not> sok \<or> \<not> fok \<or> \<not> mok"
    and "shm_open sok fok mok name total_size geom scale wr w = Some (r, w')"
  shows "\<not> r \<and> last (w_calls (shm_close w')) = ShmUnlink name"
  using assms by (auto simp: shm_open_def Let_def shm_close_def split: if_splits)

lemma shm_close_twice: "shm_close (shm_close w) = shm_close w"
  by (simp add: shm_close_def)

text \<open>In \<^verbatim>\<open>writer: gnb\<close> mode both publish operations refuse and change nothing.\<close>

lemma gnb_mode_refuses:
  assumes "\<not> writes_rows w"
  shows "publish_row iq w = Some (None, w)" "publish_row_cbf16 avx2 f16c bytes n w = Some (None, w)"
  using assms by (simp_all add: publish_row_def publish_row_cbf16_def)

section \<open>Stores\<close>

lemma store_frame: "i < a \<or> a + 2 * length vs \<le> i \<Longrightarrow> store_u16s a vs m i = m i"
proof (induction vs arbitrary: a m)
  case (Cons v vs)
  then show ?case by (auto simp: write_frame)
qed simp

lemma store_read_other:
  "b + 2 \<le> a \<or> a + 2 * length vs \<le> b \<Longrightarrow> read_u16 (store_u16s a vs m) b = read_u16 m b"
  by (auto simp: read_u16_def store_frame)

lemma store_read: "i < length vs \<Longrightarrow> read_u16 (store_u16s a vs m) (a + 2 * i) = vs ! i"
proof (induction vs arbitrary: a m i)
  case (Cons v vs)
  show ?case
  proof (cases i)
    case 0
    then show ?thesis by (simp add: store_read_other read_write_same)
  next
    case (Suc j)
    then show ?thesis using Cons.IH[of j "a + 2" "write_u16 a v m"] Cons.prems by simp
  qed
qed simp

lemma store_append: "store_u16s a (xs @ ys) m = store_u16s (a + 2 * length xs) ys (store_u16s a xs m)"
  by (induction xs arbitrary: a m) (simp_all add: algebra_simps)

text \<open>The antenna loop stores one run: the converted samples of all antennas.\<close>

lemma antenna_loop_store:
  assumes "k * n \<le> length src"
  shows "fold (\<lambda>a. store_u16s (base + 2 * (a * n)) (map f (take n (drop (a * n) src)))) [0..<k] m
    = store_u16s base (map f (take (k * n) src)) m"
  using assms
proof (induction k)
  case (Suc k)
  have "take (Suc k * n) src = take (k * n) src @ take n (drop (k * n) src)"
    by (metis add.commute mult_Suc take_add)
  then show ?case using Suc by (simp add: store_append)
qed simp

lemma clear_tail_read:
  assumes "written + 2 * j + 2 \<le> rb"
  shows "read_u16 (clear_tail base written rb m) (base + written + 2 * j) = 0"
  using assms by (simp add: clear_tail_def read_memset_in)

lemma clear_tail_frame: "i < base + written \<or> base + rb \<le> i \<Longrightarrow> clear_tail base written rb m i = m i"
  by (auto simp: clear_tail_def memset_frame)

lemma clear_tail_read_before:
  "b + 2 \<le> base + written \<Longrightarrow> read_u16 (clear_tail base written rb m) b = read_u16 m b"
  by (simp add: read_u16_def clear_tail_frame)

text \<open>A row written by a run of stores and a cleared tail.\<close>

definition row_words :: "mem \<Rightarrow> nat \<Rightarrow> nat \<Rightarrow> u16 list" where
  "row_words m base n = map (\<lambda>i. read_u16 m (base + 2 * i)) [0..<n]"

lemma row_written:
  assumes "length vs \<le> n" "rb = 2 * n"
  shows "row_words (clear_tail base (length vs * 2) rb (store_u16s base vs m)) base n
    = vs @ replicate (n - length vs) 0"
proof (rule nth_equalityI)
  show "length (row_words (clear_tail base (length vs * 2) rb (store_u16s base vs m)) base n)
      = length (vs @ replicate (n - length vs) 0)"
    using assms(1) by (simp add: row_words_def)
  fix i
  assume "i < length (row_words (clear_tail base (length vs * 2) rb (store_u16s base vs m)) base n)"
  then have i: "i < n" by (simp add: row_words_def)
  show "row_words (clear_tail base (length vs * 2) rb (store_u16s base vs m)) base n ! i
      = (vs @ replicate (n - length vs) 0) ! i"
  proof (cases "i < length vs")
    case True
    then show ?thesis
      using i by (simp add: row_words_def clear_tail_read_before store_read nth_append)
  next
    case False
    then have "base + 2 * i = base + length vs * 2 + 2 * (i - length vs)" by simp
    moreover have "length vs * 2 + 2 * (i - length vs) + 2 \<le> rb" using False i assms(2) by simp
    ultimately show ?thesis
      using i False clear_tail_read[of "length vs * 2" "i - length vs" rb base]
      by (simp add: row_words_def nth_append add.assoc)
  qed
qed

section \<open>Publishing\<close>

lemma bytes_u16_length: "length (bytes_u16 bs) = length bs div 2"
  by (induction bs rule: bytes_u16.induct) simp_all

lemma convert_row_ant_map:
  "avx2 \<longrightarrow> f16c \<Longrightarrow> convert_row_ant avx2 f16c scale src = map (\<lambda>b. bf16_to_fp16 f16c b scale) src"
  by (auto simp: convert_row_ant_def vector_loop_map lane_is_scalar(2))

lemma clamp_ports_value: "unat (clamp_ports n geom) = min (max 1 (unat n)) (unat (nof_ports geom))"
  unfolding clamp_ports_def Let_def
  by (auto simp: word_less_nat_alt unat_eq_zero min_def max_def not_less unat_gt_0 Suc_le_eq le_less)

lemma advance_cursor:
  assumes "shm_ok w"
  shows "shm_ok (advance w)"
    and "unat (w_next_buf (advance w)) * unat (w_num_fh_rows w) + unat (w_next_row (advance w))
      = (unat (w_next_buf w) * unat (w_num_fh_rows w) + unat (w_next_row w) + 1) mod (2 * unat (w_num_fh_rows w))"
    and "w_header (advance w) = w_header w" "w_mem (advance w) = w_mem w" "w_num_fh_rows (advance w) = w_num_fh_rows w"
    "w_row_bytes (advance w) = w_row_bytes w"
proof -
  let ?r = "unat (w_next_row w)" and ?b = "unat (w_next_buf w)" and ?rows = "unat (w_num_fh_rows w)"
  have r: "?r < ?rows" "?b < 2" using shm_ok_sizes[OF assms] by simp_all
  have nb: "w_num_buffers w = 2" using assms by (simp add: shm_ok_def)
  have inc: "unat (w_next_row w + 1) = ?r + 1"
    using r(1) unat_word_less[of "w_num_fh_rows w"] by (subst unat_add_no_wrap) simp_all
  have ge: "w_next_row w + 1 \<ge> w_num_fh_rows w \<longleftrightarrow> ?r + 1 = ?rows"
    using r(1) by (simp add: word_le_nat_alt inc) linarith
  have nbuf: "unat (ucast ((ucast (w_next_buf w) + 1) mod w_num_buffers w :: u32) :: u8) = (?b + 1) mod 2"
  proof -
    have "unat (ucast (w_next_buf w) + 1 :: u32) = ?b + 1" using r(2) by (subst unat_add_no_wrap) simp_all
    then have "unat ((ucast (w_next_buf w) + 1) mod w_num_buffers w :: u32) = (?b + 1) mod 2"
      by (simp add: unat_mod nb)
    then show ?thesis by (simp add: unsigned_ucast_eq take_bit_nat_eq_self)
  qed
  show "w_header (advance w) = w_header w" "w_mem (advance w) = w_mem w"
    "w_num_fh_rows (advance w) = w_num_fh_rows w" "w_row_bytes (advance w) = w_row_bytes w"
    by (simp_all add: advance_def)
  show "shm_ok (advance w)"
    using assms r inc ge nbuf by (auto simp: shm_ok_def advance_def)
  show "unat (w_next_buf (advance w)) * ?rows + unat (w_next_row (advance w)) = (?b * ?rows + ?r + 1) mod (2 * ?rows)"
  proof (cases "?r + 1 = ?rows")
    case True
    have "?b = 0 \<or> ?b = 1" using r(2) by linarith
    moreover have "w_next_row (advance w) = 0" "unat (w_next_buf (advance w)) = (?b + 1) mod 2"
      using True ge nbuf by (simp_all add: advance_def)
    moreover have "1 * ?rows + ?r + 1 = 2 * ?rows" using True by simp
    ultimately show ?thesis using True by (elim disjE) (simp_all only: mod_self, simp_all)
  next
    case False
    have "?b * ?rows + ?r + 1 < 2 * ?rows"
    proof -
      have "?b * ?rows \<le> ?rows" using r(2) by (cases ?b) simp_all
      then show ?thesis using r(1) False by linarith
    qed
    then show ?thesis using False ge inc by (simp add: advance_def)
  qed
qed

lemma shm_ok_mem: "shm_ok (w\<lparr>w_mem := m\<rparr>) = shm_ok w"
  by (simp add: shm_ok_def)

lemma publish_cbf16_effect:
  assumes "shm_ok w" and "writes_rows w" and "avx2 \<longrightarrow> f16c"
    and "ports = min (max 1 (unat n_in)) (unat (nof_ports (w_geom w)))"
    and "ports * unat (u16_per_ant (w_geom w)) \<le> length (bytes_u16 bytes)"
  shows "\<exists>w'. publish_row_cbf16 avx2 f16c bytes n_in w = Some (Some (w_next_buf w, w_next_row w), w')
    \<and> row_words (w_mem w') (dapp_offset (w_header w) (unat (w_next_buf w)) (unat (w_next_row w)))
        (unat (w_num_fh_samples w))
      = map (\<lambda>b. bf16_to_fp16 f16c b (w_cbf16_scale w)) (take (ports * unat (u16_per_ant (w_geom w))) (bytes_u16 bytes))
        @ replicate (unat (w_num_fh_samples w) - ports * unat (u16_per_ant (w_geom w))) 0
    \<and> (\<forall>i. i < dapp_offset (w_header w) (unat (w_next_buf w)) (unat (w_next_row w))
        \<or> dapp_offset (w_header w) (unat (w_next_buf w)) (unat (w_next_row w)) + unat (w_row_bytes w) \<le> i
        \<longrightarrow> w_mem w' i = w_mem w i)
    \<and> shm_ok w' \<and> w_header w' = w_header w
    \<and> unat (w_next_buf w') * unat (w_num_fh_rows w) + unat (w_next_row w')
      = (unat (w_next_buf w) * unat (w_num_fh_rows w) + unat (w_next_row w) + 1) mod (2 * unat (w_num_fh_rows w))"
proof -
  define n where "n = unat (u16_per_ant (w_geom w))"
  define base where "base = row_base w"
  define vs where "vs = map (\<lambda>b. bf16_to_fp16 f16c b (w_cbf16_scale w)) (take (ports * n) (bytes_u16 bytes))"
  define m2 where "m2 = clear_tail base (ports * n * 2) (unat (w_row_bytes w)) (store_u16s base vs (w_mem w))"
  have len: "length vs = ports * n" using assms(5) by (simp add: vs_def n_def)
  have geom: "validate (w_geom w) = None" "w_num_fh_samples w = num_fh_samples (w_geom w)"
    using assms(1) by (simp_all add: shm_ok_def)
  have "ports * n \<le> unat (nof_ports (w_geom w)) * n" using assms(4) by (intro mult_right_mono) simp_all
  then have fits: "length vs \<le> unat (w_num_fh_samples w)"
    using validate_sizes(3)[OF geom(1)] by (simp add: len geom(2) n_def)
  have base: "base = dapp_offset (w_header w) (unat (w_next_buf w)) (unat (w_next_row w))"
    unfolding base_def by (rule row_base_offset[OF assms(1)])
  have rb: "unat (w_row_bytes w) = 2 * unat (w_num_fh_samples w)" using shm_ok_row_bytes[OF assms(1)] by simp
  have pub: "publish_row_cbf16 avx2 f16c bytes n_in w
      = Some (Some (w_next_buf w, w_next_row w), advance (w\<lparr>w_mem := m2\<rparr>))"
  proof -
    have p: "unat (clamp_ports n_in (w_geom w)) = ports" by (simp only: clamp_ports_value assms(4))
    have mapped: "w_mapped w" using assms(1) by (simp add: shm_ok_def)
    have "\<not> length (bytes_u16 bytes) < ports * n" using assms(5) by (simp add: n_def)
    then show ?thesis
      using assms(2) mapped antenna_loop_store[of ports n "bytes_u16 bytes"]
      by (simp add: publish_row_cbf16_def Let_def p n_def[symmetric] convert_row_ant_map[OF assms(3)]
          base_def[symmetric] m2_def vs_def)
  qed
  have ok: "shm_ok (w\<lparr>w_mem := m2\<rparr>)" using assms(1) by (simp add: shm_ok_mem)
  have row: "row_words m2 base (unat (w_num_fh_samples w)) = vs @ replicate (unat (w_num_fh_samples w) - ports * n) 0"
    using row_written[OF fits rb, of base "w_mem w"] by (simp add: m2_def len)
  have frame: "m2 i = w_mem w i" if "i < base \<or> base + unat (w_row_bytes w) \<le> i" for i
    using that fits rb unfolding m2_def by (subst clear_tail_frame) (auto simp: store_frame len)
  show ?thesis
    using pub advance_cursor[OF ok] row frame
    unfolding base[symmetric] n_def[symmetric] vs_def[symmetric] by simp
qed

text \<open>C24.
  Publishing a slot from an open writer that owns the rows, whatever the build, puts into the row that the
  returned indices name, where the header's formula finds it, the converted samples of every delivered
  antenna followed by zeros for the antennas the slot does not have; it changes no byte outside that row,
  keeps the writer well formed and moves the cursor to the next of the \<open>2 * rows\<close> rows in turn.\<close>

theorem publish_row_cbf16_row:
  assumes "shm_ok w" and "writes_rows w" and "avx2 \<longrightarrow> f16c"
    and "ports = min (max 1 (unat n_in)) (unat (nof_ports (w_geom w)))"
    and "ports * unat (u16_per_ant (w_geom w)) \<le> length (bytes_u16 bytes)"
  shows "\<exists>w'. publish_row_cbf16 avx2 f16c bytes n_in w = Some (Some (w_next_buf w, w_next_row w), w')
    \<and> row_words (w_mem w') (dapp_offset (w_header w) (unat (w_next_buf w)) (unat (w_next_row w)))
        (unat (w_num_fh_samples w))
      = map (\<lambda>b. bf16_to_fp16 f16c b (w_cbf16_scale w)) (take (ports * unat (u16_per_ant (w_geom w))) (bytes_u16 bytes))
        @ replicate (unat (w_num_fh_samples w) - ports * unat (u16_per_ant (w_geom w))) 0
    \<and> (\<forall>i. i < dapp_offset (w_header w) (unat (w_next_buf w)) (unat (w_next_row w))
        \<or> dapp_offset (w_header w) (unat (w_next_buf w)) (unat (w_next_row w)) + unat (w_row_bytes w) \<le> i
        \<longrightarrow> w_mem w' i = w_mem w i)
    \<and> shm_ok w' \<and> w_header w' = w_header w
    \<and> unat (w_next_buf w') * unat (w_num_fh_rows w) + unat (w_next_row w')
      = (unat (w_next_buf w) * unat (w_num_fh_rows w) + unat (w_next_row w) + 1) mod (2 * unat (w_num_fh_rows w))"
  by (rule publish_cbf16_effect[OF assms])

definition small_geometry :: RadioGeometry where
  "small_geometry = \<lparr>nof_ports = 2, nof_prbs = 1, nof_symbols = 12, scs_khz = 15\<rparr>"

definition small_writer :: shm_writer where
  "small_writer = snd (the (shm_open True True True ''/t'' 4096 small_geometry f32_one Controller ShmIqWriter))"

lemma small_geometry_facts:
  "validate small_geometry = None" "row_bytes small_geometry = 1152" "num_fh_samples small_geometry = 576"
  "u16_per_ant small_geometry = 288" "nof_ports small_geometry = 2"
  by (simp_all add: small_geometry_def validate_def row_bytes_def num_fh_samples_def u16_per_ant_def
      nof_subcarriers_def kScPerPrb_def)

lemma small_writer_facts:
  "shm_ok small_writer" "writes_rows small_writer" "w_geom small_writer = small_geometry"
  "w_num_fh_rows small_writer = 1" "w_next_buf small_writer = 0" "w_next_row small_writer = 0"
  "w_num_fh_samples small_writer = 576" "w_cbf16_scale small_writer = f32_one"
proof -
  have rows: "open_rows 4096 small_geometry = 1"
    by (simp add: open_rows_def small_geometry_facts header_bytes_def)
  show "shm_ok small_writer" "writes_rows small_writer" "w_geom small_writer = small_geometry"
    "w_num_fh_rows small_writer = 1" "w_next_buf small_writer = 0" "w_next_row small_writer = 0"
    "w_num_fh_samples small_writer = 576" "w_cbf16_scale small_writer = f32_one"
    by (simp_all add: small_writer_def shm_open_def ShmIqWriter_def rows small_geometry_facts shm_ok_def
        header_bytes_def zero_header_def writes_rows_def)
qed

theorem publish_row_cbf16_row_witness:
  "\<exists>w'. publish_row_cbf16 True True (replicate 576 0) 1 small_writer = Some (Some (0, 0), w')
     \<and> row_words (w_mem w') (dapp_offset (w_header small_writer) 0 0) 576
       = map (\<lambda>b. bf16_to_fp16 True b f32_one) (take 288 (bytes_u16 (replicate 576 0))) @ replicate 288 0"
proof -
  have p: "(1::nat) = min (max 1 (unat (1::u16))) (unat (nof_ports (w_geom small_writer)))"
    by (simp add: small_writer_facts small_geometry_facts)
  have len: "1 * unat (u16_per_ant (w_geom small_writer)) \<le> length (bytes_u16 (replicate 576 0))"
    by (simp add: small_writer_facts small_geometry_facts bytes_u16_length)
  from publish_row_cbf16_row[OF small_writer_facts(1,2) _ p len, of True True]
  show ?thesis by (auto simp: small_writer_facts small_geometry_facts)
qed

section \<open>Rows live until the ring wraps\<close>

text \<open>A sequence of publishes; \<open>None\<close> when one of them is undefined.\<close>

fun publish_slots :: "bool \<Rightarrow> bool \<Rightarrow> (u8 list \<times> u16) list \<Rightarrow> shm_writer \<Rightarrow> shm_writer option" where
  "publish_slots avx2 f16c [] w = Some w"
| "publish_slots avx2 f16c ((bytes, n_in) # slots) w =
     Option.bind (publish_row_cbf16 avx2 f16c bytes n_in w) (\<lambda>(_, w'). publish_slots avx2 f16c slots w')"

definition cursor :: "shm_writer \<Rightarrow> nat" where
  "cursor w = unat (w_next_buf w) * unat (w_num_fh_rows w) + unat (w_next_row w)"

lemma cursor_less: "cursor w < 2 * unat (w_num_fh_rows w)" if "shm_ok w"
proof -
  have "unat (w_next_buf w) * unat (w_num_fh_rows w) \<le> 1 * unat (w_num_fh_rows w)"
    using shm_ok_sizes(5)[OF that] by (intro mult_right_mono) linarith+
  then show ?thesis unfolding cursor_def using shm_ok_sizes(4)[OF that] by linarith
qed

lemma publish_defined_source:
  assumes "writes_rows w" "publish_row_cbf16 avx2 f16c bytes n_in w = Some (r, w')"
  shows "min (max 1 (unat n_in)) (unat (nof_ports (w_geom w))) * unat (u16_per_ant (w_geom w))
      \<le> length (bytes_u16 bytes)"
    and "w_geom w' = w_geom w" "writes_rows w'" "w_num_fh_rows w' = w_num_fh_rows w" "w_row_bytes w' = w_row_bytes w"
  using assms
  by (auto simp: publish_row_cbf16_def Let_def clamp_ports_value not_less writes_rows_def advance_def split: if_splits)

lemma publish_keeps_row:
  assumes "shm_ok w" "writes_rows w" "avx2 \<longrightarrow> f16c" "publish_row_cbf16 avx2 f16c bytes n_in w = Some (res, w')"
    and "b < 2" "r < unat (w_num_fh_rows w)" "b * unat (w_num_fh_rows w) + r \<noteq> cursor w"
    and "n * 2 \<le> unat (w_row_bytes w)"
  shows "row_words (w_mem w') (dapp_offset (w_header w) b r) n = row_words (w_mem w) (dapp_offset (w_header w) b r) n"
    and "shm_ok w'" "w_header w' = w_header w" "cursor w' = (cursor w + 1) mod (2 * unat (w_num_fh_rows w))"
proof -
  from publish_cbf16_effect[OF assms(1-3) refl publish_defined_source(1)[OF assms(2,4)]] assms(4)
  have frame: "\<And>i. i < dapp_offset (w_header w) (unat (w_next_buf w)) (unat (w_next_row w))
      \<or> dapp_offset (w_header w) (unat (w_next_buf w)) (unat (w_next_row w)) + unat (w_row_bytes w) \<le> i
      \<Longrightarrow> w_mem w' i = w_mem w i"
    and rest: "shm_ok w'" "w_header w' = w_header w" "cursor w' = (cursor w + 1) mod (2 * unat (w_num_fh_rows w))"
    using publish_defined_source(4)[OF assms(2,4)] by (auto simp: cursor_def)
  show "shm_ok w'" "w_header w' = w_header w" "cursor w' = (cursor w + 1) mod (2 * unat (w_num_fh_rows w))"
    using rest by simp_all
  have "(b, r) \<noteq> (unat (w_next_buf w), unat (w_next_row w))" using assms(7) by (auto simp: cursor_def)
  from dapp_rows_disjoint[OF assms(1,5,6) shm_ok_sizes(5,4)[OF assms(1)] this]
  have "w_mem w' (dapp_offset (w_header w) b r + j) = w_mem w (dapp_offset (w_header w) b r + j)"
    if "j < unat (w_row_bytes w)" for j
    using that by (intro frame) linarith
  moreover from this[of "Suc _"]
  have "w_mem w' (Suc (dapp_offset (w_header w) b r + j)) = w_mem w (Suc (dapp_offset (w_header w) b r + j))"
    if "Suc j < unat (w_row_bytes w)" for j
    using that by simp
  ultimately show "row_words (w_mem w') (dapp_offset (w_header w) b r) n
      = row_words (w_mem w) (dapp_offset (w_header w) b r) n"
    using assms(8) by (auto simp: row_words_def read_u16_def)
qed

lemma publish_slots_keep_row:
  assumes "shm_ok w" "writes_rows w" "avx2 \<longrightarrow> f16c" "publish_slots avx2 f16c slots w = Some w'"
    and "b < 2" "r < unat (w_num_fh_rows w)" "n * 2 \<le> unat (w_row_bytes w)"
    and "\<And>i. i < length slots \<Longrightarrow>
      (cursor w + i) mod (2 * unat (w_num_fh_rows w)) \<noteq> b * unat (w_num_fh_rows w) + r"
  shows "row_words (w_mem w') (dapp_offset (w_header w) b r) n = row_words (w_mem w) (dapp_offset (w_header w) b r) n
    \<and> w_header w' = w_header w"
  using assms
proof (induction slots arbitrary: w)
  case (Cons slot slots)
  obtain bytes n_in where slot: "slot = (bytes, n_in)" by (cases slot)
  obtain res w1 where step: "publish_row_cbf16 avx2 f16c bytes n_in w = Some (res, w1)"
    and rest: "publish_slots avx2 f16c slots w1 = Some w'"
    using Cons.prems(4) by (auto simp: slot bind_eq_Some_conv)
  note keep = publish_defined_source(3,4,5)[OF Cons.prems(2) step]
  have "b * unat (w_num_fh_rows w) + r \<noteq> cursor w"
    using Cons.prems(8)[of 0] cursor_less[OF Cons.prems(1)] by fastforce
  note row = publish_keeps_row[OF Cons.prems(1,2,3) step Cons.prems(5,6) this Cons.prems(7)]
  have "row_words (w_mem w') (dapp_offset (w_header w1) b r) n = row_words (w_mem w1) (dapp_offset (w_header w1) b r) n
      \<and> w_header w' = w_header w1"
  proof (rule Cons.IH[OF row(2) keep(1) Cons.prems(3) rest Cons.prems(5)])
    show "(cursor w1 + i) mod (2 * unat (w_num_fh_rows w1)) \<noteq> b * unat (w_num_fh_rows w1) + r"
      if "i < length slots" for i
      using Cons.prems(8)[of "Suc i"] that by (simp add: keep row(4) mod_add_left_eq)
  qed (use Cons.prems keep in simp_all)
  then show ?case using row by simp
qed simp

text \<open>C25.
  A published row stays intact while fewer than \<open>2 * rows\<close> further slots are published, so a dApp that reads
  it within that many slots of its Indication finds exactly what was written.\<close>

theorem published_row_survives:
  assumes "shm_ok w" and "writes_rows w" and "avx2 \<longrightarrow> f16c"
    and "publish_row_cbf16 avx2 f16c bytes n_in w = Some (Some (b, r), w1)"
    and "publish_slots avx2 f16c slots w1 = Some w2" and "length slots < 2 * unat (w_num_fh_rows w)"
  shows "row_words (w_mem w2) (dapp_offset (w_header w2) (unat b) (unat r)) (unat (w_num_fh_samples w))
    = row_words (w_mem w1) (dapp_offset (w_header w1) (unat b) (unat r)) (unat (w_num_fh_samples w))"
proof -
  let ?rows = "unat (w_num_fh_rows w)"
  from publish_cbf16_effect[OF assms(1-3) refl publish_defined_source(1)[OF assms(2,4)]] assms(4)
  have br: "b = w_next_buf w" "r = w_next_row w" and ok: "shm_ok w1" "w_header w1 = w_header w"
    and cur: "cursor w1 = (cursor w + 1) mod (2 * ?rows)"
    using publish_defined_source(4)[OF assms(2,4)] by (auto simp: cursor_def)
  note keep = publish_defined_source(3,4,5)[OF assms(2,4)]
  note c = cursor_less[OF assms(1)]
  have "(cursor w1 + i) mod (2 * ?rows) \<noteq> unat b * ?rows + unat r" if "i < length slots" for i
  proof
    assume "(cursor w1 + i) mod (2 * ?rows) = unat b * ?rows + unat r"
    then have "(cursor w1 + i) mod (2 * ?rows) = cursor w" by (simp only: cursor_def br)
    then have "(cursor w + Suc i) mod (2 * ?rows) = cursor w mod (2 * ?rows)"
      using c by (simp add: cur mod_add_left_eq)
    then have "2 * ?rows dvd Suc i" using mod_eq_dvd_iff_nat[of "cursor w" "cursor w + Suc i"] by simp
    then show False using that assms(6) by (auto dest: dvd_imp_le)
  qed
  then show ?thesis
    using publish_slots_keep_row[OF ok(1) keep(1) assms(3,5), of "unat b" "unat r" "unat (w_num_fh_samples w)"]
      shm_ok_sizes(4,5)[OF assms(1)] shm_ok_row_bytes[OF assms(1)]
    by (simp add: br keep ok(2))
qed

theorem published_row_survives_witness:
  "\<exists>w1 w2. publish_row_cbf16 True True (replicate 576 0) 1 small_writer = Some (Some (0, 0), w1)
     \<and> publish_slots True True [(replicate 576 0, 1)] w1 = Some w2
     \<and> row_words (w_mem w2) (dapp_offset (w_header w2) 0 0) 576 = row_words (w_mem w1) (dapp_offset (w_header w1) 0 0) 576"
proof -
  have src: "min (max 1 (unat (1::u16))) (unat (nof_ports (w_geom w))) * unat (u16_per_ant (w_geom w))
      \<le> length (bytes_u16 (replicate 576 0))" if "w_geom w = small_geometry" for w :: shm_writer
    using that by (simp add: small_geometry_facts bytes_u16_length)
  obtain w1 where w1: "publish_row_cbf16 True True (replicate 576 0) 1 small_writer = Some (Some (0, 0), w1)"
    and ok: "shm_ok w1"
    using publish_cbf16_effect[OF small_writer_facts(1,2) _ refl src[OF small_writer_facts(3)], of True True]
    by (auto simp: small_writer_facts)
  note keep = publish_defined_source(2,3)[OF small_writer_facts(2) w1]
  have "w_geom w1 = small_geometry" using keep(1) by (simp add: small_writer_facts)
  from publish_cbf16_effect[OF ok keep(2) _ refl src[OF this], of True True]
  obtain res w2 where "publish_row_cbf16 True True (replicate 576 0) 1 w1 = Some (res, w2)" by auto
  then have w2: "publish_slots True True [(replicate 576 0, 1)] w1 = Some w2" by simp
  from published_row_survives[OF small_writer_facts(1,2) _ w1 w2]
  show ?thesis using w1 w2 by (auto simp: small_writer_facts)
qed

end
