(* ===== verification/Service_Model.thy ===== *)
theory Service_Model
  imports E3_Prelude
begin

text \<open>
  What the two service models share: the PDUs they hand to libe3, the fan-out of one payload to the
  subscribers, the byte count of an APER encoding, and the contract of a telemetry service model.  The
  locale \<open>telemetry_sm\<close> states it for the handler of one sample and proves it for any number of samples.
\<close>

datatype ResponseCode = POSITIVE | NEGATIVE

datatype pdu = IndicationPdu u32 u32 "u8 list" | MessageAckPdu u32 ResponseCode

type_synonym sent_pdus = "(pdu \<times> ErrorCode) list"

fun is_indication :: "pdu \<times> ErrorCode \<Rightarrow> bool" where
  "is_indication (IndicationPdu d f b, rc) = True"
| "is_indication (MessageAckPdu m r, rc) = False"

text \<open>
  The PDUs of one payload, one per subscriber; \<open>emit k\<close> is what the \<open>k\<close>-th call of \<^verbatim>\<open>emit_outbound()\<close> returns.
\<close>

fun fan_out :: "(nat \<Rightarrow> ErrorCode) \<Rightarrow> u32 \<Rightarrow> u8 list \<Rightarrow> nat \<Rightarrow> u32 list \<Rightarrow> sent_pdus" where
  "fan_out emit rf payload k [] = []"
| "fan_out emit rf payload k (d # ds) = (IndicationPdu d rf payload, emit k) # fan_out emit rf payload (Suc k) ds"

lemma fan_out_dapps: "map fst (fan_out emit rf payload k ds) = map (\<lambda>d. IndicationPdu d rf payload) ds"
  by (induction ds arbitrary: k) simp_all

lemma fan_out_member: "x \<in> set (fan_out emit rf payload k ds) \<Longrightarrow> \<exists>d rc. x = (IndicationPdu d rf payload, rc)"
  by (induction ds arbitrary: k) auto

text \<open>The bytes of a buffer that hold \<open>encoded\<close> bits.\<close>

definition aper_bytes :: "(nat \<times> u8 list) option \<Rightarrow> u8 list option" where
  "aper_bytes r = (case r of None \<Rightarrow> None | Some (encoded, buffer) \<Rightarrow> Some (take ((encoded + 7) div 8) buffer))"

lemma aper_bytes_simps [simp]:
  "aper_bytes None = None" "aper_bytes (Some (encoded, buffer)) = Some (take ((encoded + 7) div 8) buffer)"
  by (simp_all add: aper_bytes_def)

text \<open>
  A telemetry service model for RAN function \<open>rf\<close>: handling a sample never starts or stops it, sends either
  nothing or one payload to a list of subscribers, and sends nothing while it is stopped.
\<close>

locale telemetry_sm =
  fixes rf :: u32
    and running :: "'s \<Rightarrow> bool"
    and sent :: "'s \<Rightarrow> sent_pdus"
    and handle :: "'x \<Rightarrow> 's \<Rightarrow> 's option"
  assumes handle_running: "handle x s = Some s' \<Longrightarrow> running s' = running s"
    and handle_sends: "handle x s = Some s' \<Longrightarrow>
      \<exists>emit payload subs. sent s' = sent s @ fan_out emit rf payload (length (sent s)) subs"
    and handle_stopped: "\<not> running s \<Longrightarrow> handle x s = Some s' \<Longrightarrow> sent s' = sent s"
begin

fun handle_all :: "'x list \<Rightarrow> 's \<Rightarrow> 's option" where
  "handle_all [] s = Some s"
| "handle_all (x # xs) s = Option.bind (handle x s) (handle_all xs)"

lemma handle_all_running: "handle_all xs s = Some s' \<Longrightarrow> running s' = running s"
proof (induction xs arbitrary: s)
  case (Cons x xs)
  then obtain s1 where "handle x s = Some s1" "handle_all xs s1 = Some s'" by (auto simp: bind_eq_Some_conv)
  then show ?case using Cons.IH handle_running by metis
qed simp

lemma handle_all_stopped: "handle_all xs s = Some s' \<Longrightarrow> \<not> running s \<Longrightarrow> sent s' = sent s"
proof (induction xs arbitrary: s)
  case (Cons x xs)
  then obtain s1 where "handle x s = Some s1" "handle_all xs s1 = Some s'" by (auto simp: bind_eq_Some_conv)
  then show ?case using Cons handle_stopped handle_running by metis
qed simp

lemma handle_all_own:
  "handle_all xs s = Some s' \<Longrightarrow>
     \<exists>new. sent s' = sent s @ new \<and> (\<forall>p \<in> set new. \<exists>d payload rc. p = (IndicationPdu d rf payload, rc))"
proof (induction xs arbitrary: s)
  case (Cons x xs)
  then obtain s1 where s1: "handle x s = Some s1" "handle_all xs s1 = Some s'" by (auto simp: bind_eq_Some_conv)
  obtain emit payload subs where a: "sent s1 = sent s @ fan_out emit rf payload (length (sent s)) subs"
    using handle_sends[OF s1(1)] by blast
  obtain b where "sent s' = sent s1 @ b" "\<forall>p \<in> set b. \<exists>d payload rc. p = (IndicationPdu d rf payload, rc)"
    using Cons.IH[OF s1(2)] by blast
  moreover have "\<forall>p \<in> set (fan_out emit rf payload (length (sent s)) subs). \<exists>d payload rc. p = (IndicationPdu d rf payload, rc)"
    using fan_out_member[of _ emit rf payload] by blast
  ultimately show ?case
    using a by (intro exI[of _ "fan_out emit rf payload (length (sent s)) subs @ b"]) (simp add: ball_Un)
qed simp

end

end
