(* ===== verification/L1_Encode.thy ===== *)
theory L1_Encode
  imports Service_Model
begin

text \<open>
  The L1-KPM payload encoders (\<^verbatim>\<open>src/e3sm/l1_kpm/e3sm_layer1_json.cpp\<close>, \<^verbatim>\<open>e3sm_layer1_wrapper.cpp\<close>).
  What the two encoders build is modelled: the \<^verbatim>\<open>nlohmann::json\<close> value and the asn1c structure.  Turning
  them into bytes is the work of nlohmann/json and of the asn1c runtime, which are parameters: \<open>dump\<close>
  prints a value and throws (\<open>None\<close>) on a string that is not UTF-8; \<open>aper\<close> gives the number of bits and
  the buffer of \<^verbatim>\<open>aper_encode_to_buffer\<close>, or \<open>None\<close> for \<^verbatim>\<open>encoded == -1\<close>.  The results of the
  allocations are arguments.
\<close>

section \<open>What is encoded\<close>

datatype json = JNum int | JStr string | JObj "(string \<times> json) list"

record L1KPM_ShmRef =
  ref_shmName :: string
  ref_shmName_size :: i32
  ref_fhBufferIndex :: i64
  ref_fhWriteIndex :: i64

record L1KPM_Indication =
  ind_iqSamplesRef :: "L1KPM_ShmRef option"
  ind_timestamp :: i64
  ind_sfn :: i64
  ind_slot :: i64
  ind_cellId :: "i64 option"
  ind_nRxAnt :: "i64 option"
  ind_validSymbolMask :: "i64 option"

record RanFunctionData =
  rfd_name :: string
  rfd_version :: int
  rfd_description :: string

definition LAYER1_RAN_FUNCTION_NAME :: string where
  "LAYER1_RAN_FUNCTION_NAME = ''L1-KPM''"

definition LAYER1_RAN_FUNCTION_DESCRIPTION :: string where
  "LAYER1_RAN_FUNCTION_DESCRIPTION = ''L1-KPM SM: post-FFT IQ telemetry.''"

definition LAYER1_RAN_FUNCTION_VERSION :: int where
  "LAYER1_RAN_FUNCTION_VERSION = 1"

section \<open>Encoders\<close>

definition indication_json :: "u64 \<Rightarrow> u16 \<Rightarrow> u16 \<Rightarrow> string \<Rightarrow> u8 \<Rightarrow> u32 \<Rightarrow> u16 \<Rightarrow> json" where
  "indication_json timestamp_ns sfn slot name fh_buffer_index fh_write_index nports =
     JObj [(''timestamp'', JNum (uint timestamp_ns)), (''sfn'', JNum (uint sfn)), (''slot'', JNum (uint slot)),
       (''n_rx_ant'', JNum (uint nports)),
       (''iq_samples'', JObj [(''shm_name'', JStr name), (''fh_buffer_index'', JNum (uint fh_buffer_index)),
          (''fh_write_index'', JNum (uint fh_write_index))])]"

text \<open>The outer option is an exception; the inner one is the \<^verbatim>\<open>false\<close> of the C++ function.\<close>

definition encode_iq_indication_json ::
    "(json \<Rightarrow> u8 list option) \<Rightarrow> u64 \<Rightarrow> u16 \<Rightarrow> u16 \<Rightarrow> string \<Rightarrow> u8 \<Rightarrow> u32 \<Rightarrow> u16 \<Rightarrow> u8 list option option" where
  "encode_iq_indication_json dump timestamp_ns sfn slot name b r nports =
     map_option Some (dump (indication_json timestamp_ns sfn slot name b r nports))"

text \<open>The three allocations of an indication: the reference, its name, the antenna count.\<close>

record aper_allocs =
  al_ref :: bool
  al_name :: bool
  al_ant :: bool

definition indication_aper :: "bool \<Rightarrow> u64 \<Rightarrow> u16 \<Rightarrow> u16 \<Rightarrow> string \<Rightarrow> u8 \<Rightarrow> u32 \<Rightarrow> u16 \<Rightarrow> L1KPM_Indication" where
  "indication_aper ant_ok timestamp_ns sfn slot name fh_buffer_index fh_write_index nports =
     \<lparr>ind_iqSamplesRef = Some \<lparr>ref_shmName = name, ref_shmName_size = of_nat (length name),
        ref_fhBufferIndex = ucast fh_buffer_index, ref_fhWriteIndex = ucast fh_write_index\<rparr>,
      ind_timestamp = timestamp_ns, ind_sfn = ucast sfn, ind_slot = ucast slot, ind_cellId = None,
      ind_nRxAnt = (if nports > 0 \<and> ant_ok then Some (ucast nports) else None), ind_validSymbolMask = None\<rparr>"

definition encode_iq_indication_aper ::
    "(L1KPM_Indication \<Rightarrow> (nat \<times> u8 list) option) \<Rightarrow> aper_allocs \<Rightarrow> u64 \<Rightarrow> u16 \<Rightarrow> u16 \<Rightarrow> string \<Rightarrow> u8 \<Rightarrow> u32
      \<Rightarrow> u16 \<Rightarrow> u8 list option" where
  "encode_iq_indication_aper aper al timestamp_ns sfn slot name b r nports =
     (if \<not> al_ref al then None
      else if \<not> al_name al then None
      else aper_bytes (aper (indication_aper (al_ant al) timestamp_ns sfn slot name b r nports)))"

definition layer1_ran_function_data :: RanFunctionData where
  "layer1_ran_function_data =
     \<lparr>rfd_name = LAYER1_RAN_FUNCTION_NAME, rfd_version = LAYER1_RAN_FUNCTION_VERSION,
      rfd_description = LAYER1_RAN_FUNCTION_DESCRIPTION\<rparr>"

definition encode_ran_function_data_aper ::
    "(RanFunctionData \<Rightarrow> (nat \<times> u8 list) option) \<Rightarrow> bool \<Rightarrow> bool \<Rightarrow> u8 list option" where
  "encode_ran_function_data_aper aper name_ok desc_ok =
     (if \<not> name_ok then None
      else if \<not> desc_ok then None
      else aper_bytes (aper layer1_ran_function_data))"

definition encode_ran_function_data_json :: "(json \<Rightarrow> u8 list option) \<Rightarrow> u8 list option option" where
  "encode_ran_function_data_json ordered_dump =
     map_option Some (ordered_dump (JObj [(''name'', JStr LAYER1_RAN_FUNCTION_NAME),
       (''version'', JNum LAYER1_RAN_FUNCTION_VERSION),
       (''description'', JStr LAYER1_RAN_FUNCTION_DESCRIPTION)]))"

section \<open>The two forms carry the same fields\<close>

text \<open>
  What a receiver reads: the time stamp, the frame and slot, the region name and the row, and the antenna
  count (\<^verbatim>\<open>payload.value(key, 0u)\<close> for an absent one).
\<close>

type_synonym indication_fields = "int \<times> int \<times> int \<times> string \<times> int \<times> int \<times> int"

fun json_num :: "string \<Rightarrow> json \<Rightarrow> int option" where
  "json_num k (JObj kvs) = (case map_of kvs k of Some (JNum n) \<Rightarrow> Some n | _ \<Rightarrow> None)"
| "json_num k _ = None"

fun json_str :: "string \<Rightarrow> json \<Rightarrow> string option" where
  "json_str k (JObj kvs) = (case map_of kvs k of Some (JStr s) \<Rightarrow> Some s | _ \<Rightarrow> None)"
| "json_str k _ = None"

fun json_obj :: "string \<Rightarrow> json \<Rightarrow> json option" where
  "json_obj k (JObj kvs) = map_of kvs k"
| "json_obj k _ = None"

definition read_json :: "json \<Rightarrow> indication_fields option" where
  "read_json j =
     (case (json_num ''timestamp'' j, json_num ''sfn'' j, json_num ''slot'' j, json_num ''n_rx_ant'' j,
            json_obj ''iq_samples'' j) of
        (Some t, Some f, Some s, Some a, Some q) \<Rightarrow>
          (case (json_str ''shm_name'' q, json_num ''fh_buffer_index'' q, json_num ''fh_write_index'' q) of
             (Some n, Some b, Some r) \<Rightarrow> Some (t, f, s, n, b, r, a)
           | _ \<Rightarrow> None)
      | _ \<Rightarrow> None)"

definition read_aper :: "L1KPM_Indication \<Rightarrow> indication_fields option" where
  "read_aper i =
     (case ind_iqSamplesRef i of
        None \<Rightarrow> None
      | Some q \<Rightarrow> Some (sint (ind_timestamp i), sint (ind_sfn i), sint (ind_slot i),
          take (nat (sint (ref_shmName_size q))) (ref_shmName q), sint (ref_fhBufferIndex q),
          sint (ref_fhWriteIndex q), (case ind_nRxAnt i of None \<Rightarrow> 0 | Some a \<Rightarrow> sint a)))"

lemma sint_small:
  fixes x :: "'a::len word"
  assumes "unat x < 2 ^ (LENGTH('a) - 1)"
  shows "sint x = uint x"
proof -
  have "int (unat x) < int (2 ^ (LENGTH('a) - 1))" using assms by (simp only: of_nat_less_iff)
  then have up: "uint x < 2 ^ (LENGTH('a) - Suc 0)"
    unfolding uint_nat by (simp only: of_nat_power of_nat_numeral One_nat_def)
  have low: "- (2 ^ (LENGTH('a) - Suc 0)) \<le> uint x"
    by (rule order.trans[OF _ uint_ge_0]) simp
  show ?thesis unfolding sint_uint by (rule signed_take_bit_int_eq_self[OF low up])
qed

lemma sint_ucast_sizes [simp]:
  "sint (ucast (a :: u8) :: i64) = uint a" "sint (ucast (b :: u16) :: i64) = uint b"
  "sint (ucast (c :: u32) :: i64) = uint c"
proof -
  have l: "unat a < 256" "unat b < 65536" "unat c < 4294967296"
    using unat_word_less[of a] unat_word_less[of b] unat_word_less[of c] by simp_all
  have "unat (ucast a :: i64) < 2 ^ (LENGTH(64) - 1)" "unat (ucast b :: i64) < 2 ^ (LENGTH(64) - 1)"
    "unat (ucast c :: i64) < 2 ^ (LENGTH(64) - 1)"
    unfolding unat_ucast_sizes using l by simp_all
  note s = this[THEN sint_small]
  show "sint (ucast a :: i64) = uint a" "sint (ucast b :: i64) = uint b" "sint (ucast c :: i64) = uint c"
    unfolding s by (simp_all only: uint_nat unat_ucast_sizes)
qed

text \<open>An indication means the same in either wire encoding: for a time stamp below \<open>2 ^ 63\<close> nanoseconds, a region
  name of less than \<open>2 ^ 31\<close> characters and a served allocation for the antenna count, a dApp reads the same
  time, frame, slot, region name, row indices and antenna count from the JSON value and from the ASN.1
  structure.\<close>

theorem encoders_carry_same_fields:
  assumes "unat ts < 2 ^ 63" and "length name < 2 ^ 31"
  shows "read_json (indication_json ts sfn slot name b r n)
      = Some (uint ts, uint sfn, uint slot, name, uint b, uint r, uint n)
    \<and> read_aper (indication_aper True ts sfn slot name b r n)
      = Some (uint ts, uint sfn, uint slot, name, uint b, uint r, uint n)"
proof -
  have "sint (of_nat (length name) :: i32) = int (length name)"
    using assms(2) by (subst sint_small) (simp_all add: unat_of_nat_mod uint_nat)
  moreover have "sint ts = uint ts" using assms(1) by (intro sint_small) simp
  moreover have "n = 0 \<or> 0 < n" by (cases "n = 0") (simp_all add: word_neq_0_conv)
  ultimately show ?thesis by (auto simp: read_json_def indication_json_def read_aper_def indication_aper_def)
qed

theorem encoders_carry_same_fields_witness:
  "read_json (indication_json 1000 3 9 ''/r'' 1 7 4) = read_aper (indication_aper True 1000 3 9 ''/r'' 1 7 4)"
  using encoders_carry_same_fields[of 1000 "''/r''" 3 9 1 7 4] by simp

end
