(* ===== verification/L1_Trace.thy ===== *)
theory L1_Trace
  imports E3_Prelude
begin

text \<open>
  The stage stamps of the slot path (\<^verbatim>\<open>src/e3sm/l1_kpm/l1_kpm_trace.h\<close>).  The latrec ring belongs to libe3:
  a stamp is appended to \<open>t_ring\<close>, and the catalog's stage numbers are the parameters of \<open>catalog\<close>.
  \<open>latrec\<close> is the build option; without it every stamp is a no-op.  The clock of \<^verbatim>\<open>latrec_tnow()\<close> is an
  argument.
\<close>

section \<open>State\<close>

record catalog =
  LATREC_RECORD_BEGIN :: u8
  LATREC_PROCESS_BEGIN :: u8
  LATREC_ENCODE_E3SM_BEGIN :: u8
  LATREC_ENCODE_E3SM_DONE :: u8
  LATREC_WAIT_ENTER :: u8
  LATREC_SKIPPED :: u8
  LATREC_SKIP_ENCODE :: u64
  INDICATION_MESSAGE :: u64

record stamp =
  st_seq :: u64
  st_stage :: u8
  st_aux :: u64
  st_aux2 :: u64
  st_t_ns :: u64

record trace_state =
  tls_floor_ns :: u64
  g_clamped :: u64
  t_ring :: "stamp list"
  t_ctx :: u64

definition trace_init :: trace_state where
  "trace_init = \<lparr>tls_floor_ns = 0, g_clamped = 0, t_ring = [], t_ctx = 0\<rparr>"

section \<open>Stamping\<close>

definition monotone :: "u64 \<Rightarrow> trace_state \<Rightarrow> u64 \<times> trace_state" where
  "monotone t_ns s =
     (if t_ns \<le> tls_floor_ns s
      then let t = tls_floor_ns s + 1 in (t, s\<lparr>g_clamped := g_clamped s + 1, tls_floor_ns := t\<rparr>)
      else (t_ns, s\<lparr>tls_floor_ns := t_ns\<rparr>))"

definition stamp_at :: "bool \<Rightarrow> u64 \<Rightarrow> u8 \<Rightarrow> u64 \<Rightarrow> u64 \<Rightarrow> u64 \<Rightarrow> trace_state \<Rightarrow> trace_state" where
  "stamp_at latrec seq stage aux aux2 t_ns s =
     (if \<not> latrec then s
      else
        let (t, s1) = monotone t_ns s
        in s1\<lparr>t_ring := t_ring s1 @
          [\<lparr>st_seq = seq, st_stage = stage, st_aux = aux, st_aux2 = aux2, st_t_ns = t\<rparr>]\<rparr>)"

definition stamp_now :: "bool \<Rightarrow> u64 \<Rightarrow> u64 \<Rightarrow> u8 \<Rightarrow> u64 \<Rightarrow> u64 \<Rightarrow> trace_state \<Rightarrow> trace_state" where
  "stamp_now latrec tnow seq stage aux aux2 s = stamp_at latrec seq stage aux aux2 tnow s"

definition clamped :: "bool \<Rightarrow> trace_state \<Rightarrow> u64" where
  "clamped latrec s = (if latrec then g_clamped s else 0)"

definition record_begin ::
    "bool \<Rightarrow> catalog \<Rightarrow> u64 \<Rightarrow> u32 \<Rightarrow> u16 \<Rightarrow> u64 \<Rightarrow> u64 \<Rightarrow> trace_state \<Rightarrow> trace_state" where
  "record_begin latrec C seq sfn abs_slot gnb_ts_ns codelet_entry_ts_ns =
     stamp_at latrec seq (LATREC_RECORD_BEGIN C) (push_bit 16 (ucast sfn) OR ucast abs_slot)
       codelet_entry_ts_ns gnb_ts_ns"

definition process_begin ::
    "bool \<Rightarrow> catalog \<Rightarrow> u64 \<Rightarrow> u64 \<Rightarrow> u64 \<Rightarrow> u32 \<Rightarrow> trace_state \<Rightarrow> trace_state" where
  "process_begin latrec C seq codelet_ts_ns dispatch_ts_ns bytes =
     stamp_at latrec seq (LATREC_PROCESS_BEGIN C) dispatch_ts_ns (ucast bytes) codelet_ts_ns"

definition encode_begin :: "bool \<Rightarrow> catalog \<Rightarrow> u64 \<Rightarrow> u64 \<Rightarrow> u32 \<Rightarrow> trace_state \<Rightarrow> trace_state" where
  "encode_begin latrec C tnow seq payload_bytes =
     stamp_now latrec tnow seq (LATREC_ENCODE_E3SM_BEGIN C) (ucast payload_bytes) (INDICATION_MESSAGE C)"

definition encode_done :: "bool \<Rightarrow> catalog \<Rightarrow> u64 \<Rightarrow> u64 \<Rightarrow> size_t \<Rightarrow> trace_state \<Rightarrow> trace_state" where
  "encode_done latrec C tnow seq encoded_bytes =
     stamp_now latrec tnow seq (LATREC_ENCODE_E3SM_DONE C) encoded_bytes (INDICATION_MESSAGE C)"

definition encode_failed :: "bool \<Rightarrow> catalog \<Rightarrow> u64 \<Rightarrow> u64 \<Rightarrow> trace_state \<Rightarrow> trace_state" where
  "encode_failed latrec C tnow seq = stamp_now latrec tnow seq (LATREC_SKIPPED C) 0 (LATREC_SKIP_ENCODE C)"

definition bind_libe3 :: "bool \<Rightarrow> u64 \<Rightarrow> trace_state \<Rightarrow> trace_state" where
  "bind_libe3 latrec seq s = (if latrec then s\<lparr>t_ctx := seq\<rparr> else s)"

definition emit_tail :: "bool \<Rightarrow> catalog \<Rightarrow> u64 \<Rightarrow> u64 \<Rightarrow> size_t \<Rightarrow> trace_state \<Rightarrow> trace_state" where
  "emit_tail latrec C tnow seq subscribers =
     stamp_now latrec tnow seq (LATREC_WAIT_ENTER C) subscribers 0"

section \<open>The ring ascends\<close>

text \<open>
  The stamps of a run, each with the time it was asked to carry, on top of a ring whose last stamp is at or
  below the floor.
\<close>

definition stamps :: "(u64 \<times> u8 \<times> u64 \<times> u64 \<times> u64) list \<Rightarrow> trace_state \<Rightarrow> trace_state" where
  "stamps rs s = fold (\<lambda>(seq, stage, aux, aux2, t). stamp_at True seq stage aux aux2 t) rs s"

definition ring_times :: "trace_state \<Rightarrow> nat list" where
  "ring_times s = map (\<lambda>r. unat (st_t_ns r)) (t_ring s)"

definition requested :: "(u64 \<times> u8 \<times> u64 \<times> u64 \<times> u64) list \<Rightarrow> nat list" where
  "requested rs = map (\<lambda>(seq, stage, aux, aux2, t). unat t) rs"

definition trace_ok :: "trace_state \<Rightarrow> bool" where
  "trace_ok s \<longleftrightarrow> sorted_wrt (<) (ring_times s) \<and> (\<forall>t \<in> set (ring_times s). t \<le> unat (tls_floor_ns s))"

lemma monotone_value:
  assumes "monotone t s = (t', s')" "unat (tls_floor_ns s) + 1 < 2 ^ 64"
  shows "unat t' = max (unat t) (unat (tls_floor_ns s) + 1)" "tls_floor_ns s' = t'" "t_ring s' = t_ring s"
    "g_clamped s' = g_clamped s + (if unat t' = unat t then 0 else 1)"
proof -
  have n: "unat (tls_floor_ns s + 1) = unat (tls_floor_ns s) + 1"
    using assms(2) by (subst unat_add_no_wrap) simp_all
  show "unat t' = max (unat t) (unat (tls_floor_ns s) + 1)" "tls_floor_ns s' = t'" "t_ring s' = t_ring s"
    "g_clamped s' = g_clamped s + (if unat t' = unat t then 0 else 1)"
    using assms(1) n by (auto simp: monotone_def Let_def word_le_nat_alt max_def split: if_splits)
qed

lemma stamp_at_ok:
  assumes "trace_ok s" "unat (tls_floor_ns s) + 1 < 2 ^ 64"
  shows "trace_ok (stamp_at True seq stage aux aux2 t s)"
    and "ring_times (stamp_at True seq stage aux aux2 t s)
      = ring_times s @ [max (unat t) (unat (tls_floor_ns s) + 1)]"
    and "unat (tls_floor_ns (stamp_at True seq stage aux aux2 t s)) = max (unat t) (unat (tls_floor_ns s) + 1)"
    and "g_clamped (stamp_at True seq stage aux aux2 t s)
      = g_clamped s + (if unat (tls_floor_ns s) < unat t then 0 else 1)"
proof -
  obtain t' s' where m: "monotone t s = (t', s')" by fastforce
  note v = monotone_value[OF m assms(2)]
  show ring: "ring_times (stamp_at True seq stage aux aux2 t s)
      = ring_times s @ [max (unat t) (unat (tls_floor_ns s) + 1)]"
    by (simp add: stamp_at_def m ring_times_def v)
  show floor: "unat (tls_floor_ns (stamp_at True seq stage aux aux2 t s)) = max (unat t) (unat (tls_floor_ns s) + 1)"
    by (simp add: stamp_at_def m v)
  show "g_clamped (stamp_at True seq stage aux aux2 t s)
      = g_clamped s + (if unat (tls_floor_ns s) < unat t then 0 else 1)"
    by (simp add: stamp_at_def m v(4)) (auto simp: v(1) max_def)
  show "trace_ok (stamp_at True seq stage aux aux2 t s)"
    using assms(1) unfolding trace_ok_def ring floor by (fastforce simp: sorted_wrt_append)
qed

text \<open>C23.
  Whatever times the slots carry, late, equal or out of order, the ring of one thread ascends strictly, as the
  reader of the ring requires, and it keeps every stamp: as long as the largest time asked for leaves room
  for one nanosecond per stamp below \<open>2 ^ 64\<close>.  A recorded time is never earlier than the one asked for, and
  the counter of clamped stamps grows by the number of stamps whose recorded time differs from it.\<close>

theorem trace_ascending:
  assumes "trace_ok s" and "list_all (\<lambda>t. t \<le> B) (requested rs)" and "unat (tls_floor_ns s) \<le> B"
    and "B + length rs < 2 ^ 64"
  shows "\<exists>ts. ring_times (stamps rs s) = ring_times s @ ts \<and> trace_ok (stamps rs s)
    \<and> list_all2 (\<le>) (requested rs) ts
    \<and> g_clamped (stamps rs s) = g_clamped s + of_nat (length (filter (\<lambda>(a, b). a \<noteq> b) (zip (requested rs) ts)))"
  using assms
proof (induction rs arbitrary: s B)
  case Nil
  then show ?case by (simp add: stamps_def requested_def)
next
  case (Cons r rs)
  obtain seq stage aux aux2 t where r: "r = (seq, stage, aux, aux2, t)" by (cases r)
  define s1 where "s1 = stamp_at True seq stage aux aux2 t s"
  have room: "unat (tls_floor_ns s) + 1 < 2 ^ 64" using Cons.prems(3,4) by simp
  note st = stamp_at_ok[OF Cons.prems(1) room, of seq stage aux aux2 t, folded s1_def]
  have "unat (tls_floor_ns s1) \<le> B + 1" using Cons.prems(2,3) by (simp add: st(3) r requested_def)
  moreover have "list_all (\<lambda>t. t \<le> B + 1) (requested rs)"
    using Cons.prems(2) by (auto simp: r requested_def list_all_iff intro: le_SucI)
  ultimately obtain ts where ts: "ring_times (stamps rs s1) = ring_times s1 @ ts" "trace_ok (stamps rs s1)"
      "list_all2 (\<le>) (requested rs) ts"
      "g_clamped (stamps rs s1) = g_clamped s1 + of_nat (length (filter (\<lambda>(a, b). a \<noteq> b) (zip (requested rs) ts)))"
    using Cons.IH[OF st(1), of "B + 1"] Cons.prems(4) by auto
  have run: "stamps (r # rs) s = stamps rs s1" by (simp add: stamps_def r s1_def)
  have "unat t \<noteq> max (unat t) (Suc (unat (tls_floor_ns s))) \<longleftrightarrow> \<not> unat (tls_floor_ns s) < unat t" by linarith
  then show ?case
    unfolding run using ts st
    by (intro exI[of _ "max (unat t) (unat (tls_floor_ns s) + 1) # ts"]) (simp add: r requested_def)
qed

theorem trace_ascending_witness:
  "\<exists>ts. ring_times (stamps [(1, 0, 0, 0, 500), (1, 1, 0, 0, 100), (1, 2, 0, 0, 501)] trace_init) = ts
    \<and> list_all2 (\<le>) [500, 100, 501] ts"
proof -
  have "trace_ok trace_init" by (simp add: trace_ok_def ring_times_def trace_init_def)
  from trace_ascending[OF this, of 501 "[(1, 0, 0, 0, 500), (1, 1, 0, 0, 100), (1, 2, 0, 0, 501)]"]
  show ?thesis by (auto simp: trace_init_def ring_times_def requested_def)
qed

lemma trace_example: "ring_times (stamps [(1, 0, 0, 0, 500), (1, 1, 0, 0, 100), (1, 2, 0, 0, 501)] trace_init) = [500, 501, 502]"
  by (simp add: stamps_def stamp_at_def monotone_def trace_init_def ring_times_def)

end
