(* ===== verification/L1_Kpm.thy ===== *)
theory L1_Kpm
  imports Slot_Iq_Pipeline Shm_Writer L1_Encode L1_Trace Service_Model
begin

text \<open>
  The L1-KPM service model (\<^verbatim>\<open>src/e3sm/l1_kpm/e3sm_layer_1.h\<close>, \<^verbatim>\<open>e3sm_layer_1.cpp\<close>): the consumer
  of the slot pipeline that publishes a row, encodes one indication and hands it to libe3 for every
  subscriber, with the accounting of the slots it drops.  What libe3, the clocks and the file system
  answer is in \<open>l1_ext\<close>: the \<open>k\<close>-th reading of a clock, the \<open>k\<close>-th answer of \<^verbatim>\<open>get_subscribers()\<close> and
  the code of the \<open>k\<close>-th \<^verbatim>\<open>emit_outbound()\<close>; the state counts the calls made.  The PDUs handed to libe3
  are recorded in \<open>l_sent\<close>.  \<open>None\<close> stands for undefined behaviour of the row conversion and for an
  exception of the JSON printer, which ends the process on the worker thread.  Messages on
  \<^verbatim>\<open>stdout\<close> and \<^verbatim>\<open>stderr\<close> and the shutdown text of \<^verbatim>\<open>drops_summary()\<close> are left out.
\<close>

section \<open>State\<close>

datatype Drop = NotRunning | SlotFiltered | GeometryMismatch | NoIq | BlobTooSmall | RanPublishedNothing
  | NoSubscribers | EncodeFailed | EmitFailed

text \<open>The enumeration in the order of the array of counters.\<close>

definition drop_order :: "Drop list" where
  "drop_order = [NotRunning, SlotFiltered, GeometryMismatch, NoIq, BlobTooSmall, RanPublishedNothing,
     NoSubscribers, EncodeFailed, EmitFailed]"

fun drop_name :: "Drop \<Rightarrow> string" where
  "drop_name NotRunning = ''not_running''"
| "drop_name SlotFiltered = ''slot_filtered''"
| "drop_name GeometryMismatch = ''geometry_mismatch''"
| "drop_name NoIq = ''no_iq''"
| "drop_name BlobTooSmall = ''blob_too_small''"
| "drop_name RanPublishedNothing = ''ran_published_nothing''"
| "drop_name NoSubscribers = ''no_subscribers''"
| "drop_name EncodeFailed = ''encode_failed''"
| "drop_name EmitFailed = ''emit_failed''"

text \<open>A line of the drop log: the column names, or a cumulative row written at a clock reading.\<close>

record log_row =
  lr_now :: int
  lr_uptime :: int
  lr_published :: u64
  lr_total :: u64
  lr_clamped :: u64
  lr_counts :: "u64 list"

datatype log_line = LogHeader "string list" | LogRow log_row

record l1_ext =
  x_clock :: "nat \<Rightarrow> int"
  x_tnow :: "nat \<Rightarrow> u64"
  x_log_opens :: "nat \<Rightarrow> bool"
  x_subscribers :: "nat \<Rightarrow> u32 list"
  x_emit :: "nat \<Rightarrow> ErrorCode"
  x_encoding :: EncodingFormat
  x_dump :: "json \<Rightarrow> u8 list option"
  x_aper :: "L1KPM_Indication \<Rightarrow> (nat \<times> u8 list) option"
  x_allocs :: aper_allocs
  x_latrec :: bool
  x_catalog :: catalog
  x_avx2 :: bool
  x_f16c :: bool

record l1_sm =
  l_shm_name :: string
  l_shm_size :: size_t
  l_target_slot :: i32
  l_drops_log_path :: string
  l_shm_writer :: shm_writer
  l_running :: bool
  l_geom :: RadioGeometry
  l_cbf16_scale :: f32
  l_writer_mode :: ShmWriter
  l_geometry_checked :: bool
  l_geometry_ok :: bool
  l_truncated_warned :: bool
  l_writer_mode_warned :: bool
  l_slot_publish_seq :: u64
  l_drops :: "Drop \<Rightarrow> u64"
  l_log_open :: bool
  l_log :: "log_line list"
  l_drops_last_report :: int
  l_drops_last_total :: u64
  l_drops_log_start :: int
  l_encoded_buf :: "u8 list"
  l_trace :: trace_state
  l_sent :: "(pdu \<times> ErrorCode) list"
  l_clock_reads :: nat
  l_tnow_reads :: nat
  l_open_calls :: nat
  l_sub_calls :: nat

definition E3SMLayer1 :: "ControllerConfig \<Rightarrow> l1_sm" where
  "E3SMLayer1 cfg =
     \<lparr>l_shm_name = shm_name (shm cfg), l_shm_size = size_bytes (shm cfg), l_target_slot = target_slot cfg,
      l_drops_log_path = drops_log_path (logging cfg), l_shm_writer = ShmIqWriter, l_running = False,
      l_geom = radio cfg, l_cbf16_scale = cbf16_scale (shm cfg), l_writer_mode = writer (shm cfg),
      l_geometry_checked = False, l_geometry_ok = True, l_truncated_warned = False,
      l_writer_mode_warned = False, l_slot_publish_seq = 0, l_drops = (\<lambda>_. 0), l_log_open = False, l_log = [],
      l_drops_last_report = 0, l_drops_last_total = 0, l_drops_log_start = 0, l_encoded_buf = [],
      l_trace = trace_init, l_sent = [], l_clock_reads = 0, l_tnow_reads = 0, l_open_calls = 0, l_sub_calls = 0\<rparr>"

definition L1_RAN_FUNCTION_ID :: u32 where
  "L1_RAN_FUNCTION_ID = 2"

section \<open>Drop accounting\<close>

definition total_drops :: "l1_sm \<Rightarrow> u64" where
  "total_drops l = fold (\<lambda>d t. t + l_drops l d) drop_order 0"

text \<open>The part of \<^verbatim>\<open>maybe_log_drops()\<close> that writes to the file, for the reading \<open>now\<close>.\<close>

definition log_drops :: "l1_ext \<Rightarrow> int \<Rightarrow> u64 \<Rightarrow> l1_sm \<Rightarrow> l1_sm" where
  "log_drops X now tot l =
     (if l_drops_log_path l = [] then l
      else
        let opened = l_log_open l \<or> x_log_opens X (l_open_calls l);
            l1 = (if l_log_open l then l
                  else let l' = l\<lparr>l_open_calls := l_open_calls l + 1\<rparr>
                       in if opened
                          then l'\<lparr>l_log_open := True,
                                  l_log := l_log l' @ [LogHeader ([''uptime_s'', ''published'', ''dropped_total'',
                                    ''latrec_clamped''] @ map drop_name drop_order)],
                                  l_drops_log_start := now\<rparr>
                          else l'\<lparr>l_drops_log_path := []\<rparr>)
        in if \<not> opened then l1
           else l1\<lparr>l_log := l_log l1 @ [LogRow \<lparr>lr_now = now, lr_uptime = now - l_drops_log_start l1,
                  lr_published = l_slot_publish_seq l1, lr_total = tot,
                  lr_clamped = clamped (x_latrec X) (l_trace l1), lr_counts = map (l_drops l1) drop_order\<rparr>]\<rparr>)"

text \<open>Clock readings are nanoseconds; the default time point has the count zero.\<close>

definition maybe_log_drops :: "l1_ext \<Rightarrow> l1_sm \<Rightarrow> l1_sm" where
  "maybe_log_drops X l0 =
     (let now = x_clock X (l_clock_reads l0);
          l = l0\<lparr>l_clock_reads := l_clock_reads l0 + 1\<rparr>
      in if l_drops_last_report l \<noteq> 0 \<and> now - l_drops_last_report l < 1000000000 then l
         else
           let l1 = l\<lparr>l_drops_last_report := now\<rparr>;
               tot = total_drops l1
           in if tot = l_drops_last_total l1 then l1
              else log_drops X now tot (l1\<lparr>l_drops_last_total := tot\<rparr>))"

definition note_drop :: "l1_ext \<Rightarrow> Drop \<Rightarrow> l1_sm \<Rightarrow> l1_sm" where
  "note_drop X d l = maybe_log_drops X (l\<lparr>l_drops := (l_drops l)(d := l_drops l d + 1)\<rparr>)"

section \<open>The consumer\<close>

definition check_geometry :: "SlotSample \<Rightarrow> l1_sm \<Rightarrow> l1_sm" where
  "check_geometry s l =
     (if l_geometry_checked l then l
      else
        let l1 = l\<lparr>l_geometry_checked := True\<rparr>
        in if validate_against_ran (l_geom l) (s_nof_ports s) (s_nof_symbols s) (ucast (s_nof_subcarriers s)) \<noteq> None
           then l1\<lparr>l_geometry_ok := False\<rparr> else l1)"

definition l1_ports_clamped :: "SlotSample \<Rightarrow> l1_sm \<Rightarrow> u16" where
  "l1_ports_clamped s l =
     (if s_nof_ports s = 0 then 1
      else if s_nof_ports s > nof_ports (l_geom l) then nof_ports (l_geom l) else s_nof_ports s)"

text \<open>The checks of the row's source: the blob in controller mode, the helper's report in gNB mode.\<close>

definition check_source :: "SlotSample \<Rightarrow> l1_sm \<Rightarrow> Drop option \<times> l1_sm" where
  "check_source s l =
     (if writes_rows (l_shm_writer l) then
        let kExpectedBytes = ucast (l1_ports_clamped s l) * cbf16_bytes_per_ant (l_geom l)
        in if s_iq s = None \<or> s_iq_size_bytes s = 0 then (Some NoIq, l\<lparr>l_writer_mode_warned := True\<rparr>)
           else if s_iq_size_bytes s < kExpectedBytes then (Some BlobTooSmall, l)
           else (None, l)
      else if s_flags s AND E3_SLOT_FLAG_TRUNCATED \<noteq> 0 \<or> s_bytes_written s = 0
        then (Some RanPublishedNothing, l\<lparr>l_truncated_warned := True\<rparr>)
      else (None, l))"

definition read_tnow :: "l1_ext \<Rightarrow> (u64 \<Rightarrow> trace_state \<Rightarrow> trace_state) \<Rightarrow> l1_sm \<Rightarrow> l1_sm" where
  "read_tnow X f l =
     l\<lparr>l_trace := f (x_tnow X (l_tnow_reads l)) (l_trace l), l_tnow_reads := l_tnow_reads l + 1\<rparr>"

text \<open>The row the indication names: the one written here, or the one the helper reported.\<close>

definition place_row :: "l1_ext \<Rightarrow> SlotSample \<Rightarrow> u16 \<Rightarrow> l1_sm \<Rightarrow> ((u8 \<times> u32) \<times> l1_sm) option" where
  "place_row X s ports l =
     (if writes_rows (l_shm_writer l) then
        case s_iq s of
          None \<Rightarrow> None
        | Some iq \<Rightarrow>
            (case publish_row_cbf16 (x_avx2 X) (x_f16c X) iq ports (l_shm_writer l) of
               None \<Rightarrow> None
             | Some (None, w) \<Rightarrow> Some ((0, 0), l\<lparr>l_shm_writer := w\<rparr>)
             | Some (Some row, w) \<Rightarrow> Some (row, l\<lparr>l_shm_writer := w\<rparr>))
      else Some ((s_fh_buffer_index s, s_fh_write_index s), l))"

text \<open>Outer \<open>None\<close>: the printer threw; inner \<open>None\<close>: the encoder returned false.\<close>

definition encode_indication ::
    "l1_ext \<Rightarrow> u64 \<Rightarrow> u16 \<Rightarrow> u16 \<Rightarrow> string \<Rightarrow> u8 \<Rightarrow> u32 \<Rightarrow> u16 \<Rightarrow> u8 list option option" where
  "encode_indication X ts sfn slot name b r n =
     (if x_encoding X = JSON then encode_iq_indication_json (x_dump X) ts sfn slot name b r n
      else Some (encode_iq_indication_aper (x_aper X) (x_allocs X) ts sfn slot name b r n))"

definition emit_one :: "l1_ext \<Rightarrow> u32 \<Rightarrow> l1_sm \<Rightarrow> l1_sm" where
  "emit_one X dapp_id l =
     (let rc = x_emit X (length (l_sent l));
          l1 = l\<lparr>l_sent := l_sent l @ [(IndicationPdu dapp_id L1_RAN_FUNCTION_ID (l_encoded_buf l), rc)]\<rparr>
      in if rc \<noteq> SUCCESS then note_drop X EmitFailed l1 else l1)"

text \<open>The number of the slot and the two back-dated stamps that open its row.\<close>

definition begin_slot :: "l1_ext \<Rightarrow> SlotSample \<Rightarrow> l1_sm \<Rightarrow> l1_sm" where
  "begin_slot X s l =
     (let publish_seq = l_slot_publish_seq l + 1
      in l\<lparr>l_slot_publish_seq := publish_seq,
           l_trace := process_begin (x_latrec X) (x_catalog X) publish_seq (s_codelet_ts_ns s) (s_dispatch_ts_ns s)
               (if s_bytes_written s > 0 then s_bytes_written s else s_iq_size_bytes s)
             (record_begin (x_latrec X) (x_catalog X) publish_seq (ucast (s_sfn s)) (s_slot_id s) (s_gnb_ts_ns s)
               (s_codelet_entry_ts_ns s) (l_trace l))\<rparr>)"

text \<open>The end of \<^verbatim>\<open>on_sample\<close> for each result of the encoder.\<close>

definition fail_slot :: "l1_ext \<Rightarrow> l1_sm \<Rightarrow> l1_sm" where
  "fail_slot X l =
     note_drop X EncodeFailed
       (read_tnow X (\<lambda>t. encode_failed (x_latrec X) (x_catalog X) t (l_slot_publish_seq l)) l)"

definition emit_slot :: "l1_ext \<Rightarrow> u8 list \<Rightarrow> u32 list \<Rightarrow> l1_sm \<Rightarrow> l1_sm" where
  "emit_slot X payload subs l =
     (let publish_seq = l_slot_publish_seq l;
          l1 = read_tnow X (\<lambda>t. bind_libe3 (x_latrec X) publish_seq
                 \<circ> encode_done (x_latrec X) (x_catalog X) t publish_seq (of_nat (length payload)))
                 (l\<lparr>l_encoded_buf := payload\<rparr>)
      in read_tnow X (\<lambda>t. emit_tail (x_latrec X) (x_catalog X) t publish_seq (of_nat (length subs)))
           (fold (emit_one X) subs l1))"

definition publish_slot :: "l1_ext \<Rightarrow> SlotSample \<Rightarrow> u32 list \<Rightarrow> l1_sm \<Rightarrow> l1_sm option" where
  "publish_slot X s subs l =
     (let ports = l1_ports_clamped s l
      in case place_row X s ports (begin_slot X s l) of
           None \<Rightarrow> None
         | Some ((fh_buf_idx, fh_write_idx), l1) \<Rightarrow>
             let l2 = read_tnow X (\<lambda>t. encode_begin (x_latrec X) (x_catalog X) t (l_slot_publish_seq l1) (s_iq_size_bytes s))
                        (l1\<lparr>l_encoded_buf := []\<rparr>)
             in (case encode_indication X (s_gnb_ts_ns s) (s_sfn s) (s_slot_id s) (l_shm_name l2) fh_buf_idx fh_write_idx
                        ports of
                   None \<Rightarrow> None
                 | Some None \<Rightarrow> Some (fail_slot X l2)
                 | Some (Some payload) \<Rightarrow> Some (emit_slot X payload subs l2)))"

definition on_sample :: "l1_ext \<Rightarrow> SlotSample \<Rightarrow> l1_sm \<Rightarrow> l1_sm option" where
  "on_sample X s l =
     (if \<not> l_running l then Some (note_drop X NotRunning l)
      else if 0 \<le> sint (l_target_slot l) \<and> int (unat (s_slot_id s)) \<noteq> sint (l_target_slot l)
        then Some (note_drop X SlotFiltered l)
      else
        let l1 = check_geometry s l
        in if \<not> l_geometry_ok l1 then Some (note_drop X GeometryMismatch l1)
           else case check_source s l1 of
             (Some d, l2) \<Rightarrow> Some (note_drop X d l2)
           | (None, l2) \<Rightarrow>
               let subs = x_subscribers X (l_sub_calls l2);
                   l3 = l2\<lparr>l_sub_calls := l_sub_calls l2 + 1\<rparr>
               in if subs = [] then Some (note_drop X NoSubscribers l3)
                  else publish_slot X s subs l3)"

section \<open>Lifecycle\<close>

text \<open>\<open>consumer\<close> is the lambda that calls \<open>on_sample\<close>; the system calls of the writer are arguments.\<close>

definition l1_consumer :: "l1_ext \<Rightarrow> l1_sm option SlotConsumer" where
  "l1_consumer X s w = Option.bind w (on_sample X s)"

definition l1_init ::
    "l1_ext \<Rightarrow> bool \<Rightarrow> bool \<Rightarrow> bool \<Rightarrow> l1_sm \<Rightarrow> l1_sm option slot_pipeline
      \<Rightarrow> (ErrorCode \<times> l1_sm \<times> l1_sm option slot_pipeline) option" where
  "l1_init X shm_open_ok ftruncate_ok mmap_ok l p =
     (case shm_open shm_open_ok ftruncate_ok mmap_ok (l_shm_name l) (l_shm_size l) (l_geom l) (l_cbf16_scale l)
             (l_writer_mode l) (l_shm_writer l) of
        None \<Rightarrow> None
      | Some (False, w) \<Rightarrow> Some (INTERNAL_ERROR, l\<lparr>l_shm_writer := w\<rparr>, p)
      | Some (True, w) \<Rightarrow> Some (SUCCESS, l\<lparr>l_shm_writer := w\<rparr>, slot_register_consumer (l1_consumer X) p))"

definition l1_start ::
    "lcm_limits \<Rightarrow> i32 \<Rightarrow> 's BufferHandler \<Rightarrow> l1_sm \<Rightarrow> 'w slot_pipeline \<Rightarrow> 's handlers \<Rightarrow> jbpf_env
      \<Rightarrow> start_outcome \<times> l1_sm \<times> 'w slot_pipeline \<times> 's handlers \<times> jbpf_env" where
  "l1_start L load_rc cb l p hs env =
     (if l_running l then (Returned SUCCESS, l, p, hs, env)
      else
        let l1 = l\<lparr>l_truncated_warned := False, l_writer_mode_warned := False\<rparr>
        in case slot_start L load_rc cb p hs env of
             (out, p1, hs1, env1) \<Rightarrow>
               if out = Returned SUCCESS then (out, l1\<lparr>l_running := True\<rparr>, p1, hs1, env1)
               else (out, l1, p1, hs1, env1))"

definition l1_stop ::
    "lcm_limits \<Rightarrow> l1_sm \<Rightarrow> 'w slot_pipeline \<Rightarrow> 's handlers \<Rightarrow> jbpf_env
      \<Rightarrow> l1_sm \<times> 'w slot_pipeline \<times> 's handlers \<times> jbpf_env" where
  "l1_stop L l p hs env = (if \<not> l_running l then (l, p, hs, env) else (l\<lparr>l_running := False\<rparr>, slot_stop L p hs env))"

definition l1_destroy ::
    "lcm_limits \<Rightarrow> l1_sm \<Rightarrow> 'w slot_pipeline \<Rightarrow> 's handlers \<Rightarrow> jbpf_env
      \<Rightarrow> l1_sm \<times> 'w slot_pipeline \<times> 's handlers \<times> jbpf_env" where
  "l1_destroy L l p hs env =
     (case l1_stop L l p hs env of
        (l1, rest) \<Rightarrow> (l1\<lparr>l_shm_writer := shm_close (l_shm_writer l1)\<rparr>, rest))"

definition l1_handle_control_action :: "l1_ext \<Rightarrow> u32 \<Rightarrow> l1_sm \<Rightarrow> ErrorCode \<times> l1_sm" where
  "l1_handle_control_action X request_message_id l =
     (SM_ERROR_INVALID_PARAM,
      l\<lparr>l_sent := l_sent l @ [(MessageAckPdu request_message_id NEGATIVE, x_emit X (length (l_sent l)))]\<rparr>)"

definition l1_ran_function_data ::
    "EncodingFormat \<Rightarrow> (json \<Rightarrow> u8 list option) \<Rightarrow> (RanFunctionData \<Rightarrow> (nat \<times> u8 list) option) \<Rightarrow> bool \<Rightarrow> bool
      \<Rightarrow> u8 list option" where
  "l1_ran_function_data enc ordered_dump aper name_ok desc_ok =
     (case (if enc = JSON then encode_ran_function_data_json ordered_dump
            else Some (encode_ran_function_data_aper aper name_ok desc_ok)) of
        None \<Rightarrow> None
      | Some None \<Rightarrow> Some []
      | Some (Some encoded) \<Rightarrow> Some encoded)"

section \<open>What noting a drop leaves alone\<close>

lemma log_drops_frame [simp]:
  "l_shm_writer (log_drops X now tot l) = l_shm_writer l" "l_running (log_drops X now tot l) = l_running l"
  "l_geom (log_drops X now tot l) = l_geom l" "l_geometry_checked (log_drops X now tot l) = l_geometry_checked l"
  "l_geometry_ok (log_drops X now tot l) = l_geometry_ok l" "l_drops (log_drops X now tot l) = l_drops l"
  "l_slot_publish_seq (log_drops X now tot l) = l_slot_publish_seq l" "l_sent (log_drops X now tot l) = l_sent l"
  "l_trace (log_drops X now tot l) = l_trace l" "l_sub_calls (log_drops X now tot l) = l_sub_calls l"
  "l_encoded_buf (log_drops X now tot l) = l_encoded_buf l" "l_target_slot (log_drops X now tot l) = l_target_slot l"
  "l_clock_reads (log_drops X now tot l) = l_clock_reads l"
  "l_drops_last_report (log_drops X now tot l) = l_drops_last_report l"
  "l_shm_name (log_drops X now tot l) = l_shm_name l"
  by (simp_all add: log_drops_def Let_def)

lemma maybe_log_drops_frame [simp]:
  "l_shm_writer (maybe_log_drops X l) = l_shm_writer l" "l_running (maybe_log_drops X l) = l_running l"
  "l_geom (maybe_log_drops X l) = l_geom l" "l_geometry_checked (maybe_log_drops X l) = l_geometry_checked l"
  "l_geometry_ok (maybe_log_drops X l) = l_geometry_ok l" "l_drops (maybe_log_drops X l) = l_drops l"
  "l_slot_publish_seq (maybe_log_drops X l) = l_slot_publish_seq l" "l_sent (maybe_log_drops X l) = l_sent l"
  "l_trace (maybe_log_drops X l) = l_trace l" "l_sub_calls (maybe_log_drops X l) = l_sub_calls l"
  "l_encoded_buf (maybe_log_drops X l) = l_encoded_buf l" "l_target_slot (maybe_log_drops X l) = l_target_slot l"
  "l_clock_reads (maybe_log_drops X l) = l_clock_reads l + 1" "l_shm_name (maybe_log_drops X l) = l_shm_name l"
  by (simp_all add: maybe_log_drops_def Let_def)

lemma note_drop_frame [simp]:
  "l_shm_writer (note_drop X d l) = l_shm_writer l" "l_running (note_drop X d l) = l_running l"
  "l_geom (note_drop X d l) = l_geom l" "l_geometry_checked (note_drop X d l) = l_geometry_checked l"
  "l_geometry_ok (note_drop X d l) = l_geometry_ok l"
  "l_drops (note_drop X d l) = (l_drops l)(d := l_drops l d + 1)"
  "l_slot_publish_seq (note_drop X d l) = l_slot_publish_seq l" "l_sent (note_drop X d l) = l_sent l"
  "l_trace (note_drop X d l) = l_trace l" "l_sub_calls (note_drop X d l) = l_sub_calls l"
  "l_encoded_buf (note_drop X d l) = l_encoded_buf l" "l_target_slot (note_drop X d l) = l_target_slot l"
  "l_shm_name (note_drop X d l) = l_shm_name l"
  by (simp_all add: note_drop_def)

lemma read_tnow_frame [simp]:
  "l_shm_writer (read_tnow X f l) = l_shm_writer l" "l_running (read_tnow X f l) = l_running l"
  "l_geom (read_tnow X f l) = l_geom l" "l_geometry_checked (read_tnow X f l) = l_geometry_checked l"
  "l_geometry_ok (read_tnow X f l) = l_geometry_ok l" "l_drops (read_tnow X f l) = l_drops l"
  "l_slot_publish_seq (read_tnow X f l) = l_slot_publish_seq l" "l_sent (read_tnow X f l) = l_sent l"
  "l_sub_calls (read_tnow X f l) = l_sub_calls l" "l_encoded_buf (read_tnow X f l) = l_encoded_buf l"
  "l_shm_name (read_tnow X f l) = l_shm_name l" "l_log (read_tnow X f l) = l_log l"
  "l_drops_last_report (read_tnow X f l) = l_drops_last_report l" "l_clock_reads (read_tnow X f l) = l_clock_reads l"
  by (simp_all add: read_tnow_def)

lemma check_geometry_frame [simp]:
  "l_shm_writer (check_geometry s l) = l_shm_writer l" "l_running (check_geometry s l) = l_running l"
  "l_geom (check_geometry s l) = l_geom l" "l_drops (check_geometry s l) = l_drops l"
  "l_slot_publish_seq (check_geometry s l) = l_slot_publish_seq l" "l_sent (check_geometry s l) = l_sent l"
  "l_trace (check_geometry s l) = l_trace l" "l_sub_calls (check_geometry s l) = l_sub_calls l"
  "l_shm_name (check_geometry s l) = l_shm_name l" "l_log (check_geometry s l) = l_log l"
  "l_drops_last_report (check_geometry s l) = l_drops_last_report l"
  "l_clock_reads (check_geometry s l) = l_clock_reads l" "l_geometry_checked (check_geometry s l)"
  by (simp_all add: check_geometry_def Let_def)

lemma check_source_frame:
  assumes "check_source s l = (d, l')"
  shows "l_shm_writer l' = l_shm_writer l" "l_running l' = l_running l" "l_geom l' = l_geom l" "l_drops l' = l_drops l"
    "l_slot_publish_seq l' = l_slot_publish_seq l" "l_sent l' = l_sent l" "l_trace l' = l_trace l"
    "l_sub_calls l' = l_sub_calls l" "l_shm_name l' = l_shm_name l" "l_log l' = l_log l"
    "l_drops_last_report l' = l_drops_last_report l" "l_clock_reads l' = l_clock_reads l"
    "l_geometry_checked l' = l_geometry_checked l" "l_geometry_ok l' = l_geometry_ok l"
    "d \<in> {None, Some NoIq, Some BlobTooSmall, Some RanPublishedNothing}"
  using assms by (auto simp: check_source_def Let_def split: if_splits)

lemma place_row_frame:
  assumes "place_row X s ports l = Some (row, l')"
  shows "\<exists>w. l' = l\<lparr>l_shm_writer := w\<rparr>" "\<not> writes_rows (l_shm_writer l) \<Longrightarrow> l' = l \<and> row = (s_fh_buffer_index s, s_fh_write_index s)"
  using assms by (auto simp: place_row_def split: if_splits option.splits prod.splits intro: exI[of _ "l_shm_writer l"])

section \<open>The fan-out\<close>

lemma emit_one_frame [simp]:
  "l_sent (emit_one X d l) = l_sent l @ [(IndicationPdu d L1_RAN_FUNCTION_ID (l_encoded_buf l), x_emit X (length (l_sent l)))]"
  "l_drops (emit_one X d l) = (l_drops l)(EmitFailed := l_drops l EmitFailed
     + (if x_emit X (length (l_sent l)) = SUCCESS then 0 else 1))"
  "l_encoded_buf (emit_one X d l) = l_encoded_buf l" "l_slot_publish_seq (emit_one X d l) = l_slot_publish_seq l"
  "l_shm_writer (emit_one X d l) = l_shm_writer l" "l_running (emit_one X d l) = l_running l"
  "l_geom (emit_one X d l) = l_geom l" "l_geometry_checked (emit_one X d l) = l_geometry_checked l"
  "l_geometry_ok (emit_one X d l) = l_geometry_ok l"
  by (simp_all add: emit_one_def Let_def)

abbreviation failed_emits :: "(pdu \<times> ErrorCode) list \<Rightarrow> nat" where
  "failed_emits ps \<equiv> length (filter (\<lambda>(_, rc). rc \<noteq> SUCCESS) ps)"

lemma emit_all_frame [simp]:
  "l_slot_publish_seq (fold (emit_one X) ds l) = l_slot_publish_seq l"
  "l_shm_writer (fold (emit_one X) ds l) = l_shm_writer l" "l_running (fold (emit_one X) ds l) = l_running l"
  "l_geom (fold (emit_one X) ds l) = l_geom l" "l_geometry_checked (fold (emit_one X) ds l) = l_geometry_checked l"
  "l_geometry_ok (fold (emit_one X) ds l) = l_geometry_ok l"
  by (induction ds arbitrary: l) simp_all

lemma emit_all:
  "l_sent (fold (emit_one X) ds l) = l_sent l @ fan_out (x_emit X) L1_RAN_FUNCTION_ID (l_encoded_buf l) (length (l_sent l)) ds"
  "l_drops (fold (emit_one X) ds l) = (l_drops l)(EmitFailed := l_drops l EmitFailed
     + of_nat (failed_emits (fan_out (x_emit X) L1_RAN_FUNCTION_ID (l_encoded_buf l) (length (l_sent l)) ds)))"
  by (induction ds arbitrary: l) (simp_all add: ac_simps)

section \<open>Every arrival is accounted for\<close>

text \<open>The reasons that end the handling of a slot before it is numbered.\<close>

definition exclusive_reasons :: "Drop list" where
  "exclusive_reasons = [NotRunning, SlotFiltered, GeometryMismatch, NoIq, BlobTooSmall, RanPublishedNothing, NoSubscribers]"

lemma begin_slot_frame [simp]:
  "l_slot_publish_seq (begin_slot X s l) = l_slot_publish_seq l + 1"
  "l_shm_writer (begin_slot X s l) = l_shm_writer l" "l_running (begin_slot X s l) = l_running l"
  "l_geom (begin_slot X s l) = l_geom l" "l_geometry_checked (begin_slot X s l) = l_geometry_checked l"
  "l_geometry_ok (begin_slot X s l) = l_geometry_ok l" "l_drops (begin_slot X s l) = l_drops l"
  "l_sent (begin_slot X s l) = l_sent l" "l_shm_name (begin_slot X s l) = l_shm_name l"
  "l_log (begin_slot X s l) = l_log l" "l_drops_last_report (begin_slot X s l) = l_drops_last_report l"
  "l_clock_reads (begin_slot X s l) = l_clock_reads l"
  by (simp_all add: begin_slot_def Let_def)

lemma fail_slot_frame [simp]:
  "l_sent (fail_slot X l) = l_sent l" "l_drops (fail_slot X l) = (l_drops l)(EncodeFailed := l_drops l EncodeFailed + 1)"
  "l_slot_publish_seq (fail_slot X l) = l_slot_publish_seq l" "l_running (fail_slot X l) = l_running l"
  "l_geom (fail_slot X l) = l_geom l" "l_geometry_checked (fail_slot X l) = l_geometry_checked l"
  "l_geometry_ok (fail_slot X l) = l_geometry_ok l" "l_shm_writer (fail_slot X l) = l_shm_writer l"
  by (simp_all add: fail_slot_def)

lemma emit_slot_frame [simp]:
  "l_sent (emit_slot X payload subs l) = l_sent l @ fan_out (x_emit X) L1_RAN_FUNCTION_ID payload (length (l_sent l)) subs"
  "l_drops (emit_slot X payload subs l) = (l_drops l)(EmitFailed := l_drops l EmitFailed
     + of_nat (failed_emits (fan_out (x_emit X) L1_RAN_FUNCTION_ID payload (length (l_sent l)) subs)))"
  "l_slot_publish_seq (emit_slot X payload subs l) = l_slot_publish_seq l"
  "l_running (emit_slot X payload subs l) = l_running l"
  "l_geom (emit_slot X payload subs l) = l_geom l"
  "l_geometry_checked (emit_slot X payload subs l) = l_geometry_checked l"
  "l_geometry_ok (emit_slot X payload subs l) = l_geometry_ok l"
  "l_shm_writer (emit_slot X payload subs l) = l_shm_writer l"
  by (simp_all add: emit_slot_def Let_def emit_all)

lemma publish_slot_cases:
  assumes "publish_slot X s subs l = Some l'"
  obtains b r l1 where "place_row X s (l1_ports_clamped s l) (begin_slot X s l) = Some ((b, r), l1)"
      "encode_indication X (s_gnb_ts_ns s) (s_sfn s) (s_slot_id s) (l_shm_name l) b r (l1_ports_clamped s l) = Some None"
      "l_sent l' = l_sent l" "l_drops l' = (l_drops l)(EncodeFailed := l_drops l EncodeFailed + 1)"
      "l_shm_writer l' = l_shm_writer l1"
    | b r l1 payload where "place_row X s (l1_ports_clamped s l) (begin_slot X s l) = Some ((b, r), l1)"
      "encode_indication X (s_gnb_ts_ns s) (s_sfn s) (s_slot_id s) (l_shm_name l) b r (l1_ports_clamped s l)
         = Some (Some payload)"
      "l_sent l' = l_sent l @ fan_out (x_emit X) L1_RAN_FUNCTION_ID payload (length (l_sent l)) subs"
      "l_drops l' = (l_drops l)(EmitFailed := l_drops l EmitFailed
         + of_nat (failed_emits (fan_out (x_emit X) L1_RAN_FUNCTION_ID payload (length (l_sent l)) subs)))"
      "l_shm_writer l' = l_shm_writer l1"
proof -
  obtain b r l1 where row: "place_row X s (l1_ports_clamped s l) (begin_slot X s l) = Some ((b, r), l1)"
    using assms by (auto simp: publish_slot_def Let_def split: option.splits)
  obtain w where l1: "l1 = begin_slot X s l\<lparr>l_shm_writer := w\<rparr>" using place_row_frame(1)[OF row] by blast
  show thesis
  proof (cases "encode_indication X (s_gnb_ts_ns s) (s_sfn s) (s_slot_id s) (l_shm_name l) b r (l1_ports_clamped s l)")
    case None
    then show ?thesis using assms row by (simp add: publish_slot_def l1)
  next
    case (Some e)
    then show ?thesis
      using assms row by (cases e) (auto simp: publish_slot_def l1 intro: that)
  qed
qed

lemma publish_slot_frame:
  assumes "publish_slot X s subs l = Some l'"
  shows "l_slot_publish_seq l' = l_slot_publish_seq l + 1" "l_running l' = l_running l" "l_geom l' = l_geom l"
    "l_geometry_checked l' = l_geometry_checked l" "l_geometry_ok l' = l_geometry_ok l"
proof -
  obtain b r l1 where row: "place_row X s (l1_ports_clamped s l) (begin_slot X s l) = Some ((b, r), l1)"
    using assms by (auto simp: publish_slot_def Let_def split: option.splits)
  obtain w where l1: "l1 = begin_slot X s l\<lparr>l_shm_writer := w\<rparr>" using place_row_frame(1)[OF row] by blast
  show "l_slot_publish_seq l' = l_slot_publish_seq l + 1" "l_running l' = l_running l" "l_geom l' = l_geom l"
    "l_geometry_checked l' = l_geometry_checked l" "l_geometry_ok l' = l_geometry_ok l"
    using assms row by (auto simp: publish_slot_def Let_def l1 split: option.splits)
qed

text \<open>The slot passes the checks before the subscriber list is read.\<close>

definition source_ok :: "SlotSample \<Rightarrow> l1_sm \<Rightarrow> bool" where
  "source_ok s l \<longleftrightarrow>
     (if writes_rows (l_shm_writer l)
      then s_iq s \<noteq> None \<and> s_iq_size_bytes s \<noteq> 0
        \<and> ucast (l1_ports_clamped s l) * cbf16_bytes_per_ant (l_geom l) \<le> s_iq_size_bytes s
      else s_flags s AND E3_SLOT_FLAG_TRUNCATED = 0 \<and> s_bytes_written s \<noteq> 0)"

lemma check_source_none: "check_source s l = (None, l') \<Longrightarrow> source_ok s l \<and> l' = l"
  by (auto simp: check_source_def source_ok_def Let_def not_less split: if_splits)

text \<open>A slot that passes the flag and the filter and is not published ends with one counted reason.\<close>

lemma on_sample_dropped:
  assumes "on_sample X s l = Some l'" "l_running l"
    and "\<not> (0 \<le> sint (l_target_slot l) \<and> int (unat (s_slot_id s)) \<noteq> sint (l_target_slot l))"
    and src: "check_source s (check_geometry s l) = (d, l2)"
    and dropped: "\<not> (l_geometry_ok (check_geometry s l) \<and> d = None \<and> x_subscribers X (l_sub_calls l) \<noteq> [])"
  shows "\<exists>d l3. d \<in> set exclusive_reasons \<and> l' = note_drop X d l3 \<and> l_drops l3 = l_drops l
    \<and> l_slot_publish_seq l3 = l_slot_publish_seq l \<and> l_sent l3 = l_sent l \<and> l_shm_writer l3 = l_shm_writer l
    \<and> l_running l3 = l_running l \<and> l_geom l3 = l_geom l \<and> l_geometry_checked l3
    \<and> l_geometry_ok l3 = l_geometry_ok (check_geometry s l)"
proof (cases "l_geometry_ok (check_geometry s l)")
  case False
  then show ?thesis
    using assms(1-3)
    by (intro exI[of _ GeometryMismatch] exI[of _ "check_geometry s l"])
      (auto simp: on_sample_def exclusive_reasons_def Let_def)
next
  case geo: True
  note fr = check_source_frame[OF src]
  show ?thesis
  proof (cases d)
    case None
    then show ?thesis
      using assms(1-3) geo dropped src fr
      by (intro exI[of _ NoSubscribers] exI[of _ "l2\<lparr>l_sub_calls := l_sub_calls l2 + 1\<rparr>"])
        (auto simp: on_sample_def exclusive_reasons_def Let_def)
  next
    case (Some e)
    then show ?thesis
      using assms(1-3) geo src fr
      by (intro exI[of _ e] exI[of _ l2]) (auto simp: on_sample_def exclusive_reasons_def Let_def)
  qed
qed

lemma on_sample_cases:
  assumes "on_sample X s l = Some l'"
  obtains d where "d \<in> set exclusive_reasons" "l_drops l' = (l_drops l)(d := l_drops l d + 1)"
      "l_slot_publish_seq l' = l_slot_publish_seq l" "l_sent l' = l_sent l" "l_shm_writer l' = l_shm_writer l"
      "l_running l' = l_running l" "l_geom l' = l_geom l"
      "l_geometry_checked l \<longrightarrow> l_geometry_checked l' \<and> l_geometry_ok l' = l_geometry_ok l"
    | l1 where "l_running l" "l1 = (check_geometry s l)\<lparr>l_sub_calls := l_sub_calls l + 1\<rparr>" "l_geometry_ok l1"
      "source_ok s l1" "x_subscribers X (l_sub_calls l) \<noteq> []"
      "publish_slot X s (x_subscribers X (l_sub_calls l)) l1 = Some l'"
proof (cases "\<not> l_running l \<or> 0 \<le> sint (l_target_slot l) \<and> int (unat (s_slot_id s)) \<noteq> sint (l_target_slot l)")
  case True
  then show ?thesis
    using assms that(1)[of NotRunning] that(1)[of SlotFiltered]
    by (auto simp: on_sample_def exclusive_reasons_def split: if_splits)
next
  case False
  have kept: "l_geometry_checked l \<longrightarrow> l_geometry_ok (check_geometry s l) = l_geometry_ok l"
    by (simp add: check_geometry_def)
  obtain d l2 where src: "check_source s (check_geometry s l) = (d, l2)" by fastforce
  show ?thesis
  proof (cases "l_geometry_ok (check_geometry s l) \<and> d = None \<and> x_subscribers X (l_sub_calls l) \<noteq> []")
    case True
    then show ?thesis
      using assms False src check_source_none[of s "check_geometry s l" l2]
      by (intro that(2)[of "(check_geometry s l)\<lparr>l_sub_calls := l_sub_calls l + 1\<rparr>"])
        (auto simp: on_sample_def source_ok_def l1_ports_clamped_def Let_def)
  next
    case dropped: False
    from on_sample_dropped[OF assms _ _ src dropped] False show ?thesis using that(1) kept by auto
  qed
qed

fun l1_run :: "l1_ext \<Rightarrow> SlotSample list \<Rightarrow> l1_sm \<Rightarrow> l1_sm option" where
  "l1_run X [] l = Some l"
| "l1_run X (s # ss) l = Option.bind (on_sample X s l) (l1_run X ss)"

definition exclusive_total :: "l1_sm \<Rightarrow> u64" where
  "exclusive_total l = sum_list (map (l_drops l) exclusive_reasons)"

lemma total_drops_split: "total_drops l = exclusive_total l + l_drops l EncodeFailed + l_drops l EmitFailed"
  by (simp add: total_drops_def drop_order_def exclusive_total_def exclusive_reasons_def)

lemma exclusive_step:
  "d \<in> set exclusive_reasons \<Longrightarrow> l_drops l' = (l_drops l)(d := l_drops l d + 1) \<Longrightarrow>
     exclusive_total l' = exclusive_total l + 1 \<and> l_drops l' EncodeFailed = l_drops l EncodeFailed
     \<and> l_drops l' EmitFailed = l_drops l EmitFailed"
  by (auto simp: exclusive_total_def exclusive_reasons_def)

lemma exclusive_keep:
  "d \<notin> set exclusive_reasons \<Longrightarrow> l_drops l' = (l_drops l)(d := n) \<Longrightarrow> exclusive_total l' = exclusive_total l"
  by (auto simp: exclusive_total_def exclusive_reasons_def)

lemma on_sample_accounted:
  assumes "on_sample X s l = Some l'"
  shows "exclusive_total l' + l_slot_publish_seq l' = exclusive_total l + l_slot_publish_seq l + 1
    \<and> (\<exists>new. l_sent l' = l_sent l @ new \<and> l_drops l' EmitFailed = l_drops l EmitFailed + of_nat (failed_emits new))"
  using assms
proof (cases rule: on_sample_cases)
  case (1 d)
  then show ?thesis using exclusive_step[OF 1(1,2)] by simp
next
  case (2 l1)
  have same: "l_drops l1 = l_drops l" "l_sent l1 = l_sent l" "l_slot_publish_seq l1 = l_slot_publish_seq l"
    by (simp_all add: 2(2))
  from 2(6) show ?thesis
  proof (cases rule: publish_slot_cases)
    case 1
    then show ?thesis
      using publish_slot_frame(1)[OF 2(6)] exclusive_keep[of EncodeFailed l' l]
      by (simp add: same exclusive_reasons_def)
  next
    case (2 b r lr payload)
    then show ?thesis
      using publish_slot_frame(1)[OF \<open>publish_slot _ _ _ _ = _\<close>] exclusive_keep[of EmitFailed l' l]
      by (simp add: same exclusive_reasons_def)
  qed
qed

text \<open>C20.
  No slot that reaches the service model goes uncounted or is counted under two reasons: over any sequence of
  samples the seven reasons that end a slot early and the published count together grow by exactly the
  number of samples, and the count of failed sends by exactly the number of rejected PDUs, modulo the
  64-bit counters.  The two other counters come on top, so \<open>published + dropped\<close>, which the shutdown summary
  calls the arrivals, exceeds the arrivals by the failed encodings and the failed sends.\<close>

theorem l1_arrivals_accounted:
  assumes "l1_run X ss l = Some l'"
  shows "exclusive_total l' + l_slot_publish_seq l' = exclusive_total l + l_slot_publish_seq l + of_nat (length ss)
    \<and> (\<exists>new. l_sent l' = l_sent l @ new \<and> l_drops l' EmitFailed = l_drops l EmitFailed + of_nat (failed_emits new))
    \<and> l_slot_publish_seq l' + total_drops l' = exclusive_total l + l_slot_publish_seq l + of_nat (length ss)
        + l_drops l' EncodeFailed + l_drops l' EmitFailed"
proof -
  have run: "exclusive_total l' + l_slot_publish_seq l' = exclusive_total l + l_slot_publish_seq l + of_nat (length ss)
      \<and> (\<exists>new. l_sent l' = l_sent l @ new \<and> l_drops l' EmitFailed = l_drops l EmitFailed + of_nat (failed_emits new))"
    using assms
  proof (induction ss arbitrary: l)
    case (Cons s ss)
    then obtain l1 where l1: "on_sample X s l = Some l1" "l1_run X ss l1 = Some l'"
      by (auto simp: bind_eq_Some_conv)
    note step = on_sample_accounted[OF l1(1)] Cons.IH[OF l1(2)]
    then obtain a b where "l_sent l1 = l_sent l @ a" "l_drops l1 EmitFailed = l_drops l EmitFailed + of_nat (failed_emits a)"
      "l_sent l' = l_sent l1 @ b" "l_drops l' EmitFailed = l_drops l1 EmitFailed + of_nat (failed_emits b)"
      by blast
    then have "l_sent l' = l_sent l @ (a @ b)
        \<and> l_drops l' EmitFailed = l_drops l EmitFailed + of_nat (failed_emits (a @ b))"
      by (simp add: ac_simps)
    then show ?case using step by (auto simp: ac_simps)
  qed simp
  then show ?thesis by (simp add: total_drops_split ac_simps)
qed

section \<open>What an indication points at\<close>

text \<open>The slot passes the flag, the single-slot filter and the geometry check.\<close>

definition slot_admitted :: "SlotSample \<Rightarrow> l1_sm \<Rightarrow> bool" where
  "slot_admitted s l \<longleftrightarrow> l_running l \<and> (sint (l_target_slot l) < 0 \<or> int (unat (s_slot_id s)) = sint (l_target_slot l))
     \<and> l_geometry_ok (check_geometry s l)"

lemma check_source_iff: "source_ok s l \<Longrightarrow> check_source s l = (None, l)"
  by (auto simp: check_source_def source_ok_def Let_def split: if_splits)

lemma l1_ports_frame [simp]:
  "l1_ports_clamped s (check_geometry s' l) = l1_ports_clamped s l"
  "l1_ports_clamped s (l\<lparr>l_sub_calls := k\<rparr>) = l1_ports_clamped s l"
  by (simp_all add: l1_ports_clamped_def)

lemma source_ok_geometry [simp]: "source_ok s (check_geometry s' l) = source_ok s l"
  by (simp add: source_ok_def)

lemma on_sample_admitted:
  assumes "slot_admitted s l" "source_ok s l" "x_subscribers X (l_sub_calls l) \<noteq> []"
  shows "on_sample X s l = publish_slot X s (x_subscribers X (l_sub_calls l))
    ((check_geometry s l)\<lparr>l_sub_calls := l_sub_calls l + 1\<rparr>)"
proof -
  have "source_ok s (check_geometry s l)" using assms(2) by simp
  from check_source_iff[OF this] assms show ?thesis
    by (auto simp: on_sample_def slot_admitted_def Let_def)
qed

lemma on_sample_refused:
  assumes "\<not> source_ok s l \<or> x_subscribers X (l_sub_calls l) = []"
  shows "\<exists>l'. on_sample X s l = Some l' \<and> l_sent l' = l_sent l \<and> l_shm_writer l' = l_shm_writer l"
proof -
  obtain d l2 where src: "check_source s (check_geometry s l) = (d, l2)" by fastforce
  have "d \<noteq> None \<or> x_subscribers X (l_sub_calls l2) = []"
    using assms check_source_none[of s "check_geometry s l" l2] src check_source_frame(8)[OF src] by auto
  then show ?thesis
    using src check_source_frame(1,6)[OF src] by (auto simp: on_sample_def Let_def split: option.splits)
qed

lemma publish_slot_placed:
  assumes "place_row X s (l1_ports_clamped s l) (begin_slot X s l) = Some ((b, r), l1)"
    and "encode_indication X (s_gnb_ts_ns s) (s_sfn s) (s_slot_id s) (l_shm_name l) b r (l1_ports_clamped s l)
      = Some (Some payload)"
  shows "\<exists>l'. publish_slot X s subs l = Some l' \<and> l_sent l' = l_sent l @ fan_out (x_emit X) L1_RAN_FUNCTION_ID payload (length (l_sent l)) subs
    \<and> l_shm_writer l' = l_shm_writer l1"
proof -
  obtain w where "l1 = begin_slot X s l\<lparr>l_shm_writer := w\<rparr>" using place_row_frame(1)[OF assms(1)] by blast
  then show ?thesis using assms by (simp add: publish_slot_def)
qed

definition demo_ext :: l1_ext where
  "demo_ext =
     \<lparr>x_clock = (\<lambda>k. 1 + int k), x_tnow = of_nat, x_log_opens = (\<lambda>_. True), x_subscribers = (\<lambda>_. [7, 9]),
      x_emit = (\<lambda>_. SUCCESS), x_encoding = ASN1, x_dump = (\<lambda>_. None), x_aper = (\<lambda>_. Some (16, [1, 2, 3])),
      x_allocs = \<lparr>al_ref = True, al_name = True, al_ant = True\<rparr>, x_latrec = False,
      x_catalog = \<lparr>LATREC_RECORD_BEGIN = 0, LATREC_PROCESS_BEGIN = 1, LATREC_ENCODE_E3SM_BEGIN = 2,
        LATREC_ENCODE_E3SM_DONE = 3, LATREC_WAIT_ENTER = 4, LATREC_SKIPPED = 5, LATREC_SKIP_ENCODE = 1,
        INDICATION_MESSAGE = 1\<rparr>,
      x_avx2 = True, x_f16c = True\<rparr>"

definition demo_slot :: SlotSample where
  "demo_slot =
     \<lparr>s_sfn = 3, s_subframe_id = 0, s_slot_id = 8, s_sector_id = 0, s_nof_ports = 2, s_nof_symbols = 12,
      s_nof_subcarriers = 12, s_iq = None, s_iq_size_bytes = 0, s_fh_buffer_index = 1, s_fh_write_index = 5,
      s_bytes_written = 1152, s_flags = 0, s_gnb_ts_ns = 100, s_codelet_entry_ts_ns = 110, s_codelet_ts_ns = 120,
      s_dispatch_ts_ns = 130, s_recv_us = 1, s_sample_id = 1\<rparr>"

text \<open>A running service model, with the region owned by the controller and written by \<open>wr\<close>.\<close>

definition demo_l1 :: "ShmWriter \<Rightarrow> l1_sm" where
  "demo_l1 wr = (E3SMLayer1 default_ControllerConfig)\<lparr>l_running := True, l_geom := small_geometry,
     l_shm_writer := small_writer\<lparr>w_writer := wr\<rparr>\<rparr>"

lemma demo_ext_sel:
  "x_subscribers demo_ext k = [7, 9]" "x_emit demo_ext k = SUCCESS" "x_clock demo_ext k = 1 + int k"
  "x_avx2 demo_ext" "x_f16c demo_ext"
  by (simp_all add: demo_ext_def)

lemma demo_slot_sel:
  "s_nof_ports demo_slot = 2" "s_nof_symbols demo_slot = 12" "s_nof_subcarriers demo_slot = 12"
  "s_bytes_written demo_slot = 1152" "s_flags demo_slot = 0"
  by (simp_all add: demo_slot_def)

lemma demo_facts:
  "l_running (demo_l1 wr)" "l_target_slot (demo_l1 wr) = -1" "l_geom (demo_l1 wr) = small_geometry"
  "l_shm_writer (demo_l1 wr) = small_writer\<lparr>w_writer := wr\<rparr>" "l_sent (demo_l1 wr) = []"
  "l_sub_calls (demo_l1 wr) = 0" "\<not> l_geometry_checked (demo_l1 wr)" "l_geometry_ok (demo_l1 wr)"
  "l_drops (demo_l1 wr) = (\<lambda>_. 0)" "l_slot_publish_seq (demo_l1 wr) = 0"
  by (simp_all add: demo_l1_def E3SMLayer1_def default_ControllerConfig_def)

lemma demo_encodes:
  "encode_indication demo_ext ts sfn slot name b r n = Some (Some [1, 2])"
  by (simp add: encode_indication_def demo_ext_def encode_iq_indication_aper_def)

lemma demo_geometry: "validate_against_ran small_geometry 2 12 12 = None"
  by (simp add: validate_against_ran_def small_geometry_def nof_subcarriers_def kScPerPrb_def)

lemma demo_admitted:
  "s_nof_ports s = 2 \<Longrightarrow> s_nof_symbols s = 12 \<Longrightarrow> s_nof_subcarriers s = 12 \<Longrightarrow> slot_admitted s (demo_l1 wr)"
  using demo_geometry by (simp add: slot_admitted_def demo_facts check_geometry_def Let_def)

theorem l1_arrivals_accounted_witness:
  "\<exists>l'. l1_run demo_ext [demo_slot, demo_slot] (E3SMLayer1 default_ControllerConfig) = Some l' \<and> exclusive_total l' + l_slot_publish_seq l' = 2"
proof -
  have off: "\<not> l_running (E3SMLayer1 default_ControllerConfig)" by (simp add: E3SMLayer1_def)
  then obtain l' where l': "l1_run demo_ext [demo_slot, demo_slot] (E3SMLayer1 default_ControllerConfig) = Some l'" by (simp add: on_sample_def)
  from l1_arrivals_accounted[OF this] show ?thesis
    using l' by (simp add: exclusive_total_def exclusive_reasons_def E3SMLayer1_def)
qed

lemma gnb_row:
  assumes "slot_admitted s l" and "\<not> writes_rows (l_shm_writer l)"
    and "encode_indication X (s_gnb_ts_ns s) (s_sfn s) (s_slot_id s) (l_shm_name l) (s_fh_buffer_index s)
      (s_fh_write_index s) (l1_ports_clamped s l) = Some (Some payload)"
  shows "\<exists>l'. on_sample X s l = Some l' \<and> l_shm_writer l' = l_shm_writer l
    \<and> l_sent l' = l_sent l @ (if s_flags s AND E3_SLOT_FLAG_TRUNCATED \<noteq> 0 \<or> s_bytes_written s = 0 then []
        else fan_out (x_emit X) L1_RAN_FUNCTION_ID payload (length (l_sent l)) (x_subscribers X (l_sub_calls l)))"
proof (cases "source_ok s l \<and> x_subscribers X (l_sub_calls l) \<noteq> []")
  case True
  let ?l1 = "(check_geometry s l)\<lparr>l_sub_calls := l_sub_calls l + 1\<rparr>"
  have ports: "l1_ports_clamped s ?l1 = l1_ports_clamped s l" by simp
  have "place_row X s (l1_ports_clamped s ?l1) (begin_slot X s ?l1)
      = Some ((s_fh_buffer_index s, s_fh_write_index s), begin_slot X s ?l1)"
    using assms(2) by (simp add: place_row_def)
  from publish_slot_placed[OF this, of payload] assms(3) ports True
  show ?thesis
    using on_sample_admitted[OF assms(1)] assms(2) by (auto simp: source_ok_def)
next
  case False
  then show ?thesis
    using on_sample_refused[of s l X] assms(2) by (auto simp: source_ok_def)
qed

text \<open>C18.
  With the gNB-side helper as the writer, an admitted slot whose encoding succeeds gives every subscriber, in
  the order of the subscriber list, one indication with the same payload, and that payload names exactly
  the row the helper reported; when the helper reports that it wrote nothing, no indication is sent.
  Either way the controller's own writer and ring cursor are untouched.\<close>

theorem gnb_indication_row:
  assumes "slot_admitted s l" and "\<not> writes_rows (l_shm_writer l)"
    and "encode_indication X (s_gnb_ts_ns s) (s_sfn s) (s_slot_id s) (l_shm_name l) (s_fh_buffer_index s)
      (s_fh_write_index s) (l1_ports_clamped s l) = Some (Some payload)"
  shows "\<exists>l'. on_sample X s l = Some l' \<and> l_shm_writer l' = l_shm_writer l
    \<and> l_sent l' = l_sent l @ (if s_flags s AND E3_SLOT_FLAG_TRUNCATED \<noteq> 0 \<or> s_bytes_written s = 0 then []
        else fan_out (x_emit X) L1_RAN_FUNCTION_ID payload (length (l_sent l)) (x_subscribers X (l_sub_calls l)))"
  by (rule gnb_row[OF assms])

theorem gnb_indication_row_witness:
  "\<exists>l'. on_sample demo_ext demo_slot (demo_l1 Gnb) = Some l'
     \<and> l_sent l' = [(IndicationPdu 7 2 [1, 2], SUCCESS), (IndicationPdu 9 2 [1, 2], SUCCESS)]"
proof -
  have "slot_admitted demo_slot (demo_l1 Gnb)" by (rule demo_admitted) (simp_all add: demo_slot_sel)
  moreover have "\<not> writes_rows (l_shm_writer (demo_l1 Gnb))" by (simp add: demo_facts writes_rows_def)
  ultimately show ?thesis
    using gnb_indication_row[of demo_slot "demo_l1 Gnb" demo_ext "[1, 2]"]
    by (auto simp: demo_encodes demo_facts demo_slot_sel demo_ext_sel L1_RAN_FUNCTION_ID_def)
qed

lemma l1_ports_value:
  "validate (l_geom l) = None \<Longrightarrow> unat (l1_ports_clamped s l) = min (max 1 (unat (s_nof_ports s))) (unat (nof_ports (l_geom l)))"
  using validate_geometry(1)[of "l_geom l"] clamp_ports_value[of "s_nof_ports s" "l_geom l"]
  by (auto simp: l1_ports_clamped_def clamp_ports_def)

text \<open>The size check in 32-bit arithmetic is exact, so the blob covers every sample that is read.\<close>

lemma source_ok_covers:
  assumes "source_ok s l" "writes_rows (l_shm_writer l)" "validate (l_geom l) = None"
    and "s_iq s = Some iq" "unat (s_iq_size_bytes s) = length iq"
  shows "unat (l1_ports_clamped s l) * unat (u16_per_ant (l_geom l)) \<le> length (bytes_u16 iq)"
proof -
  let ?p = "unat (l1_ports_clamped s l)" and ?n = "unat (u16_per_ant (l_geom l))"
  have le: "?p \<le> unat (nof_ports (l_geom l))" using l1_ports_value[OF assms(3), of s] by simp
  then have "?p * (?n * 2) \<le> unat (nof_ports (l_geom l)) * (?n * 2)" by (rule mult_right_mono) simp
  also have "\<dots> = unat (row_bytes (l_geom l))" using validate_sizes(4)[OF assms(3)] by simp
  also have "\<dots> < 2 ^ 32" using validate_sizes(7)[OF assms(3)] by simp
  finally have "?p * (?n * 2) < 2 ^ 32" .
  then have "unat (ucast (l1_ports_clamped s l) * cbf16_bytes_per_ant (l_geom l) :: u32) = ?p * (?n * 2)"
    by (subst unat_mult_no_wrap) (simp_all add: validate_sizes(5)[OF assms(3)])
  then have "?p * (?n * 2) \<le> length iq"
    using assms(1,2,5) by (simp add: source_ok_def word_le_nat_alt)
  then show ?thesis by (simp add: bytes_u16_length)
qed

text \<open>C19.
  With the controller as the writer, an admitted slot whose blob passes the size check is handled without
  undefined behaviour, and every subscriber gets an indication that names the row just written: at the
  place the shared header gives for it, the row holds the converted samples of the delivered antennas
  followed by zeros.  This is about \<^verbatim>\<open>on_sample\<close> when it is given samples; the slot pipeline as shipped passes none.\<close>

theorem controller_indication_row:
  assumes "slot_admitted s l" and "source_ok s l" and "x_subscribers X (l_sub_calls l) \<noteq> []"
    and "w = l_shm_writer l" and "shm_ok w" and "writes_rows w" and "w_geom w = l_geom l"
    and "x_avx2 X \<longrightarrow> x_f16c X" and "s_iq s = Some iq" and "unat (s_iq_size_bytes s) = length iq"
    and "encode_indication X (s_gnb_ts_ns s) (s_sfn s) (s_slot_id s) (l_shm_name l) (w_next_buf w)
      (w_next_row w) (l1_ports_clamped s l) = Some (Some payload)"
    and "n = unat (l1_ports_clamped s l) * unat (u16_per_ant (l_geom l))"
  shows "\<exists>l'. on_sample X s l = Some l'
    \<and> l_sent l' = l_sent l @ fan_out (x_emit X) L1_RAN_FUNCTION_ID payload (length (l_sent l)) (x_subscribers X (l_sub_calls l))
    \<and> row_words (w_mem (l_shm_writer l')) (dapp_offset (w_header (l_shm_writer l')) (unat (w_next_buf w)) (unat (w_next_row w)))
        (unat (w_num_fh_samples w))
      = map (\<lambda>b. bf16_to_fp16 (x_f16c X) b (w_cbf16_scale w)) (take n (bytes_u16 iq))
        @ replicate (unat (w_num_fh_samples w) - n) 0
    \<and> shm_ok (l_shm_writer l')"
proof -
  let ?l1 = "(check_geometry s l)\<lparr>l_sub_calls := l_sub_calls l + 1\<rparr>"
  let ?p = "l1_ports_clamped s l"
  have ports: "l1_ports_clamped s ?l1 = ?p" by simp
  have valid: "validate (l_geom l) = None" using assms(5,7) unfolding shm_ok_def by metis
  have len: "unat ?p * unat (u16_per_ant (w_geom w)) \<le> length (bytes_u16 iq)"
    using source_ok_covers[OF assms(2) _ valid assms(9,10)] assms(4,6,7) by simp
  have pv: "unat ?p = min (max 1 (unat ?p)) (unat (nof_ports (w_geom w)))"
    using l1_ports_value[OF valid, of s] validate_geometry(1)[OF valid] assms(7) by simp
  from publish_cbf16_effect[OF assms(5,6,8) pv len]
  obtain w' where w': "publish_row_cbf16 (x_avx2 X) (x_f16c X) iq ?p w = Some (Some (w_next_buf w, w_next_row w), w')"
    and row: "row_words (w_mem w') (dapp_offset (w_header w) (unat (w_next_buf w)) (unat (w_next_row w)))
        (unat (w_num_fh_samples w))
      = map (\<lambda>b. bf16_to_fp16 (x_f16c X) b (w_cbf16_scale w)) (take n (bytes_u16 iq))
        @ replicate (unat (w_num_fh_samples w) - n) 0"
    and keep: "shm_ok w'" "w_header w' = w_header w"
    unfolding assms(7,12) by blast
  have "place_row X s (l1_ports_clamped s ?l1) (begin_slot X s ?l1)
      = Some ((w_next_buf w, w_next_row w), begin_slot X s ?l1\<lparr>l_shm_writer := w'\<rparr>)"
    using assms(6,9) w' unfolding ports by (simp add: place_row_def assms(4)[symmetric])
  from publish_slot_placed[OF this, of payload] assms(11) ports
  obtain l' where "publish_slot X s (x_subscribers X (l_sub_calls l)) ?l1 = Some l'" "l_shm_writer l' = w'"
      "l_sent l' = l_sent l @ fan_out (x_emit X) L1_RAN_FUNCTION_ID payload (length (l_sent l)) (x_subscribers X (l_sub_calls l))"
    by auto
  then show ?thesis
    using on_sample_admitted[OF assms(1-3)] row keep by auto
qed

theorem controller_indication_row_witness:
  "\<exists>l'. on_sample demo_ext (demo_slot\<lparr>s_iq := Some (replicate 1152 0), s_iq_size_bytes := 1152\<rparr>) (demo_l1 Controller) = Some l'
     \<and> map fst (l_sent l') = [IndicationPdu 7 2 [1, 2], IndicationPdu 9 2 [1, 2]] \<and> shm_ok (l_shm_writer l')"
proof -
  let ?s = "demo_slot\<lparr>s_iq := Some (replicate 1152 0), s_iq_size_bytes := 1152\<rparr>" and ?l = "demo_l1 Controller"
  have w: "small_writer\<lparr>w_writer := Controller\<rparr> = small_writer"
    using small_writer_facts(2) by (simp add: writes_rows_def)
  have adm: "slot_admitted ?s ?l" by (rule demo_admitted) (simp_all add: demo_slot_sel)
  have "cbf16_bytes_per_ant small_geometry = 576"
    by (simp add: small_geometry_def cbf16_bytes_per_ant_def nof_subcarriers_def kScPerPrb_def kBytesPerCbf16_def)
  then have src: "source_ok ?s ?l"
    using small_writer_facts(2)
    by (simp add: source_ok_def demo_facts w l1_ports_clamped_def small_geometry_facts demo_slot_sel)
  have subs: "x_subscribers demo_ext (l_sub_calls ?l) = [7, 9]" by (simp add: demo_ext_sel)
  from controller_indication_row[OF adm src _ refl, of demo_ext "replicate 1152 0" "[1, 2]"]
  show ?thesis
    using small_writer_facts(1,2,3) subs
    by (auto simp: demo_encodes demo_facts w demo_ext_sel L1_RAN_FUNCTION_ID_def)
qed

section \<open>Histories of calls\<close>

type_synonym l1_handlers = "(slot_inputs, l1_sm option slot_pipeline) cb_state handlers"

inductive l1_step :: "l1_ext \<Rightarrow> l1_sm \<Rightarrow> l1_sm \<Rightarrow> bool" for X where
  l1_sample: "on_sample X s l = Some l' \<Longrightarrow> l1_step X l l'"
| l1_starts: "l1_start L rc slot_callback l (p :: l1_sm option slot_pipeline) (hs :: l1_handlers) env
      = (out, l', p', hs', env') \<Longrightarrow>
    l1_step X l l'"
| l1_stops: "l1_stop L l (p :: l1_sm option slot_pipeline) (hs :: l1_handlers) env = (l', p', hs', env') \<Longrightarrow>
    l1_step X l l'"
| l1_control: "l1_handle_control_action X m l = (rc, l') \<Longrightarrow> l1_step X l l'"

inductive_cases l1_stepE: "l1_step X l l'"

abbreviation indications :: "l1_sm \<Rightarrow> (pdu \<times> ErrorCode) list" where
  "indications l \<equiv> filter is_indication (l_sent l)"

lemma l1_start_frame:
  assumes "l1_start L rc cb l p hs env = (out, l', p', hs', env')"
  shows "l_geometry_checked l' = l_geometry_checked l" "l_geometry_ok l' = l_geometry_ok l" "l_sent l' = l_sent l"
    "l_log l' = l_log l" "l_drops_last_report l' = l_drops_last_report l"
  using assms by (auto simp: l1_start_def Let_def split: if_splits prod.splits)

lemma l1_stop_frame:
  assumes "l1_stop L l p hs env = (l', p', hs', env')"
  shows "l_geometry_checked l' = l_geometry_checked l" "l_geometry_ok l' = l_geometry_ok l" "l_sent l' = l_sent l"
    "l_log l' = l_log l" "l_drops_last_report l' = l_drops_last_report l"
  using assms by (auto simp: l1_stop_def split: if_splits)

lemma l1_step_verdict:
  assumes "l1_step X l l'" "l_geometry_checked l"
  shows "l_geometry_checked l' \<and> l_geometry_ok l' = l_geometry_ok l \<and> (\<not> l_geometry_ok l \<longrightarrow> indications l' = indications l)"
  using assms
proof (cases rule: l1_step.cases)
  case (l1_sample s)
  from l1_sample show ?thesis
  proof (cases rule: on_sample_cases)
    case (1 d)
    then show ?thesis using assms(2) by simp
  next
    case (2 l1)
    then have "l_geometry_ok l" "l_geometry_checked l1" "l_geometry_ok l1 = l_geometry_ok l"
      using assms(2) by (simp_all add: check_geometry_def)
    then show ?thesis using publish_slot_frame(4,5)[OF 2(6)] by simp
  qed
next
  case (l1_starts L rc p hs env out p' hs' env')
  then show ?thesis using l1_start_frame[OF l1_starts] assms(2) by simp
next
  case (l1_stops L p hs env p' hs' env')
  then show ?thesis using l1_stop_frame[OF l1_stops] assms(2) by simp
next
  case (l1_control m rc)
  then show ?thesis using assms(2) by (auto simp: l1_handle_control_action_def)
qed

text \<open>C21.
  The comparison of the configured geometry with the RAN's is made once: after the first checked slot the
  verdict never changes, through any later slots, restarts and control requests, and after a mismatch no
  indication is ever sent again.\<close>

theorem geometry_verdict_latched:
  assumes "(l1_step X)\<^sup>*\<^sup>* l l'" and "l_geometry_checked l"
  shows "l_geometry_checked l' \<and> l_geometry_ok l' = l_geometry_ok l \<and> (\<not> l_geometry_ok l \<longrightarrow> indications l' = indications l)"
  using assms
proof (induction rule: rtranclp_induct)
  case (step l1 l2)
  then show ?case using l1_step_verdict[OF step(2)] by auto
qed simp

theorem geometry_verdict_latched_witness:
  "\<exists>l'. l1_step demo_ext ((demo_l1 Gnb)\<lparr>l_geometry_checked := True, l_geometry_ok := False\<rparr>) l' \<and> indications l' = []"
proof -
  let ?l = "(demo_l1 Gnb)\<lparr>l_geometry_checked := True, l_geometry_ok := False\<rparr>"
  obtain l' where "on_sample demo_ext demo_slot ?l = Some l'"
    by (auto simp: on_sample_def check_geometry_def demo_facts Let_def)
  then have "l1_step demo_ext ?l l'" by (rule l1_sample)
  then show ?thesis
    using geometry_verdict_latched[of demo_ext ?l l'] by (auto simp: demo_facts)
qed

section \<open>The drop log\<close>

fun log_rows :: "log_line list \<Rightarrow> log_row list" where
  "log_rows [] = []"
| "log_rows (LogRow r # ls) = r # log_rows ls"
| "log_rows (LogHeader h # ls) = log_rows ls"

lemma log_rows_append [simp]: "log_rows (xs @ ys) = log_rows xs @ log_rows ys"
  by (induction xs rule: log_rows.induct) simp_all

abbreviation log_times :: "l1_sm \<Rightarrow> int list" where
  "log_times l \<equiv> map lr_now (log_rows (l_log l))"

definition log_ok :: "l1_sm \<Rightarrow> bool" where
  "log_ok l \<longleftrightarrow> sorted_wrt (\<lambda>a b. a + 1000000000 \<le> b) (log_times l) \<and> (\<forall>t \<in> set (log_times l). t \<le> l_drops_last_report l)
     \<and> (l_drops_last_report l = 0 \<longrightarrow> log_times l = [])
     \<and> (\<forall>r \<in> set (log_rows (l_log l)). lr_total r = sum_list (lr_counts r))"

lemma log_ok_cong: "l_log l' = l_log l \<Longrightarrow> l_drops_last_report l' = l_drops_last_report l \<Longrightarrow> log_ok l' = log_ok l"
  by (simp add: log_ok_def)

lemma total_drops_sum: "total_drops l = sum_list (map (l_drops l) drop_order)"
  by (simp add: total_drops_def drop_order_def ac_simps)

lemma log_drops_rows:
  assumes "tot = total_drops l"
  shows "log_rows (l_log (log_drops X now tot l)) = log_rows (l_log l)
    \<or> (\<exists>r. log_rows (l_log (log_drops X now tot l)) = log_rows (l_log l) @ [r] \<and> lr_now r = now
        \<and> lr_total r = sum_list (lr_counts r))"
  using assms by (auto simp: log_drops_def Let_def total_drops_sum)

lemma maybe_log_drops_ok:
  assumes "log_ok l" "\<And>k. 0 < x_clock X k"
  shows "log_ok (maybe_log_drops X l)"
proof -
  define now where "now = x_clock X (l_clock_reads l)"
  define l1 where "l1 = l\<lparr>l_clock_reads := l_clock_reads l + 1\<rparr>"
  define l2 where "l2 = l1\<lparr>l_drops_last_report := now\<rparr>"
  define l3 where "l3 = log_drops X now (total_drops l2) (l2\<lparr>l_drops_last_total := total_drops l2\<rparr>)"
  have eq: "maybe_log_drops X l =
      (if l_drops_last_report l \<noteq> 0 \<and> now - l_drops_last_report l < 1000000000 then l1
       else if total_drops l2 = l_drops_last_total l2 then l2 else l3)"
    by (simp add: maybe_log_drops_def Let_def now_def l1_def l2_def l3_def)
  show ?thesis
  proof (cases "l_drops_last_report l \<noteq> 0 \<and> now - l_drops_last_report l < 1000000000")
    case True
    then show ?thesis using assms(1) unfolding eq l1_def by (simp add: log_ok_def)
  next
    case False
    then have gap: "t + 1000000000 \<le> now" if "t \<in> set (log_times l)" for t
      using that assms(1) unfolding log_ok_def by force
    have pos: "0 < now" using assms(2) by (simp add: now_def)
    have "log_ok l2"
      using assms(1) gap pos unfolding log_ok_def by (force simp: l2_def l1_def)
    moreover have "log_ok l3"
    proof -
      have rep: "l_drops_last_report l3 = now" by (simp add: l3_def l2_def)
      have rows: "l_log l2 = l_log l" by (simp add: l2_def l1_def)
      have "total_drops l2 = total_drops (l2\<lparr>l_drops_last_total := total_drops l2\<rparr>)" by (simp add: total_drops_def)
      from log_drops_rows[OF this, of X now, folded l3_def]
      consider "log_rows (l_log l3) = log_rows (l_log l)"
        | r where "log_rows (l_log l3) = log_rows (l_log l) @ [r]" "lr_now r = now" "lr_total r = sum_list (lr_counts r)"
        by (auto simp: rows)
      then show ?thesis
      proof cases
        case 1
        then show ?thesis using \<open>log_ok l2\<close> unfolding log_ok_def by (simp add: rep rows) (simp add: l2_def)
      next
        case 2
        have "t \<le> now" if "t \<in> set (log_times l)" for t using gap[OF that] by simp
        then show ?thesis
          using assms(1) gap pos 2 unfolding log_ok_def by (auto simp: rep sorted_wrt_append)
      qed
    qed
    ultimately show ?thesis unfolding eq using False by auto
  qed
qed

lemma log_ok_updates [simp]:
  "log_ok (l\<lparr>l_sent := x1\<rparr>) = log_ok l" "log_ok (l\<lparr>l_encoded_buf := x2\<rparr>) = log_ok l"
  "log_ok (l\<lparr>l_sub_calls := x3\<rparr>) = log_ok l" "log_ok (l\<lparr>l_shm_writer := x4\<rparr>) = log_ok l"
  "log_ok (l\<lparr>l_drops := x5\<rparr>) = log_ok l" "log_ok (read_tnow X f l) = log_ok l"
  "log_ok (begin_slot X s l) = log_ok l" "log_ok (check_geometry s l) = log_ok l"
  by (simp_all add: log_ok_def)

lemma note_drop_ok: "log_ok l \<Longrightarrow> (\<And>k. 0 < x_clock X k) \<Longrightarrow> log_ok (note_drop X d l)"
  unfolding note_drop_def by (rule maybe_log_drops_ok) simp_all

lemma emit_all_ok: "log_ok l \<Longrightarrow> (\<And>k. 0 < x_clock X k) \<Longrightarrow> log_ok (fold (emit_one X) ds l)"
proof (induction ds arbitrary: l)
  case (Cons d ds)
  have "log_ok (emit_one X d l)"
    unfolding emit_one_def Let_def using Cons.prems note_drop_ok[of _ X EmitFailed] by simp
  then show ?case using Cons by simp
qed simp

lemma publish_slot_log_ok:
  assumes "publish_slot X s subs l = Some l'" "log_ok l" "\<And>k. 0 < x_clock X k"
  shows "log_ok l'"
proof -
  obtain b r l1 where row: "place_row X s (l1_ports_clamped s l) (begin_slot X s l) = Some ((b, r), l1)"
    using assms(1) by (auto simp: publish_slot_def Let_def split: option.splits)
  obtain w where l1: "l1 = begin_slot X s l\<lparr>l_shm_writer := w\<rparr>" using place_row_frame(1)[OF row] by blast
  have "log_ok (fail_slot X (read_tnow X f (l1\<lparr>l_encoded_buf := []\<rparr>)))" for f
    unfolding fail_slot_def using assms(2) by (intro note_drop_ok[OF _ assms(3)]) (simp add: l1)
  moreover have "log_ok (emit_slot X payload subs (read_tnow X f (l1\<lparr>l_encoded_buf := []\<rparr>)))" for f payload
    unfolding emit_slot_def Let_def log_ok_updates using assms(2) by (intro emit_all_ok[OF _ assms(3)]) (simp add: l1)
  ultimately show ?thesis using assms(1) row by (auto simp: publish_slot_def Let_def split: option.splits)
qed

lemma on_sample_log_ok:
  assumes "on_sample X s l = Some l'" "log_ok l" "\<And>k. 0 < x_clock X k"
  shows "log_ok l'"
proof -
  obtain d l2 where src: "check_source s (check_geometry s l) = (d, l2)" by fastforce
  have l2: "log_ok l2"
    using assms(2) log_ok_cong[OF check_source_frame(10,11)[OF src]] by simp
  let ?l3 = "l2\<lparr>l_sub_calls := l_sub_calls l2 + 1\<rparr>"
  have "l' \<in> {note_drop X NotRunning l, note_drop X SlotFiltered l, note_drop X GeometryMismatch (check_geometry s l),
        note_drop X (the d) l2, note_drop X NoSubscribers ?l3}
      \<or> publish_slot X s (x_subscribers X (l_sub_calls l2)) ?l3 = Some l'"
    using assms(1) src unfolding on_sample_def Let_def by (auto split: if_splits option.splits)
  then show ?thesis
    using note_drop_ok[OF _ assms(3)] publish_slot_log_ok[OF _ _ assms(3)] assms(2) l2 by auto
qed

text \<open>C22.
  The drop log stays off the slot path's rate and every line is meaningful alone: in every state reachable
  from a new service model, consecutive rows were written at least one second apart on the steady clock,
  and in each row the reported total is the sum of the columns for the reasons.\<close>

theorem drop_log_throttled:
  assumes "(l1_step X)\<^sup>*\<^sup>* (E3SMLayer1 cfg) l" and "\<And>k. 0 < x_clock X k"
  shows "sorted_wrt (\<lambda>a b. a + 1000000000 \<le> b) (log_times l)
    \<and> (\<forall>r \<in> set (log_rows (l_log l)). lr_total r = sum_list (lr_counts r))"
proof -
  have "log_ok l"
    using assms(1)
  proof (induction rule: rtranclp_induct)
    case base
    then show ?case by (simp add: log_ok_def E3SMLayer1_def)
  next
    case (step l1 l2)
    from step(2) show ?case
    proof (cases rule: l1_step.cases)
      case (l1_sample s)
      then show ?thesis using step(3) assms(2) by (rule on_sample_log_ok)
    next
      case (l1_starts L rc p hs env out p' hs' env')
      then show ?thesis using l1_start_frame(4,5)[OF l1_starts] step(3) by (simp add: log_ok_def)
    next
      case (l1_stops L p hs env p' hs' env')
      then show ?thesis using l1_stop_frame(4,5)[OF l1_stops] step(3) by (simp add: log_ok_def)
    next
      case (l1_control m rc)
      then show ?thesis using step(3) by (auto simp: l1_handle_control_action_def log_ok_def)
    qed
  qed
  then show ?thesis by (simp add: log_ok_def)
qed

theorem drop_log_throttled_witness:
  "\<exists>l. l1_step demo_ext (E3SMLayer1 default_ControllerConfig) l \<and> l_drops l NotRunning = 1
     \<and> sorted_wrt (\<lambda>a b. a + 1000000000 \<le> b) (log_times l)"
proof -
  let ?l = "note_drop demo_ext NotRunning (E3SMLayer1 default_ControllerConfig)"
  have step: "l1_step demo_ext (E3SMLayer1 default_ControllerConfig) ?l"
    by (rule l1_sample[of _ demo_slot]) (simp add: on_sample_def E3SMLayer1_def)
  have "\<And>k. 0 < x_clock demo_ext k" by (simp add: demo_ext_sel)
  from drop_log_throttled[OF r_into_rtranclp this] step
  have "sorted_wrt (\<lambda>a b. a + 1000000000 \<le> b) (log_times ?l)" by blast
  then show ?thesis using step by (intro exI[of _ ?l]) (simp add: E3SMLayer1_def)
qed

section \<open>The contract of a telemetry service model\<close>

interpretation l1_telemetry: telemetry_sm L1_RAN_FUNCTION_ID l_running l_sent "on_sample X" for X
proof (unfold_locales, goal_cases)
  case (1 s l l')
  then show ?case by (cases rule: on_sample_cases) (auto dest: publish_slot_frame(2))
next
  case (2 s l l')
  have none: "\<exists>emit payload subs. xs = xs @ fan_out emit L1_RAN_FUNCTION_ID payload (length xs) subs" for xs
    by (rule exI, rule exI, rule exI[of _ "[]"]) simp
  from 2 show ?case
  proof (cases rule: on_sample_cases)
    case (1 d)
    then show ?thesis using none by simp
  next
    case (2 l1)
    have "l_sent l1 = l_sent l" by (simp add: 2(2))
    with 2(6) show ?thesis using none by (cases rule: publish_slot_cases) auto
  qed
next
  case (3 l s l')
  then show ?case by (auto simp: on_sample_def)
qed

section \<open>The lifecycle\<close>

definition l1_inv :: "l1_sm \<times> l1_sm option slot_pipeline \<times> l1_handlers \<times> jbpf_env \<Rightarrow> bool" where
  "l1_inv = (\<lambda>(l, rest). slot_inv rest \<and> l_running l = sp_running (fst rest))"

interpretation l1_life: lifecycle l1_inv "\<lambda>s. l_running (fst s)"
  "\<lambda>a s. l1_start (fst a) (snd a) slot_callback (fst s) (fst (snd s)) (fst (snd (snd s))) (snd (snd (snd s)))"
  "\<lambda>a s. l1_stop (fst a) (fst s) (fst (snd s)) (fst (snd (snd s))) (snd (snd (snd s)))"
proof (unfold_locales, goal_cases)
  case (1 s a)
  then show ?case
    using slot_start_call[where L = "fst a" and rc = "snd a", of "fst (snd s)" "fst (snd (snd s))" "snd (snd (snd s))"]
    by (auto simp: l1_inv_def l1_start_def Let_def split: prod.splits)
next
  case (2 s a)
  then show ?case by (simp add: l1_start_def)
next
  case (3 s a)
  then show ?case
    using slot_start_call(2)[where L = "fst a" and rc = "snd a", of "fst (snd s)" "fst (snd (snd s))" "snd (snd (snd s))"]
    by (auto simp: l1_inv_def l1_start_def Let_def split: prod.splits)
next
  case (4 s a)
  then show ?case by (auto simp: l1_start_def Let_def split: prod.splits)
next
  case (5 s a)
  then show ?case
    using slot_stop_call[where L = "fst a" and p = "fst (snd s)" and hs = "fst (snd (snd s))" and env = "snd (snd (snd s))"]
    by (auto simp: l1_inv_def l1_stop_def split: prod.splits)
next
  case (6 a s)
  then show ?case by (simp add: l1_stop_def)
next
  case (7 s a)
  then show ?case by (simp add: l1_stop_def)
qed

end
