(* ===== verification/Spectrum_Sm.thy ===== *)
theory Spectrum_Sm
  imports Iq_Pipeline L1_Encode
begin

text \<open>
  The Spectrum service model (\<^verbatim>\<open>src/e3sm/sm_spectrum/\<close>): the consumer of the eCPRI pipeline that
  zero-pads a decompressed section to an FFT size, encodes it and fans it out, and the PRB blacklist
  control.  The asn1c runtime is a parameter, as in \<open>L1_Encode\<close>; the answers of libe3, the clocks and the
  file system are in \<open>spectrum_ext\<close>.  The loop that looks for the FFT size is a partial function on
  32-bit words, so that it may fail to return.
\<close>

section \<open>Payload structures\<close>

record SpectrumIQIndication =
  si_iq_data :: "u8 list"
  si_sample_count :: u32
  si_timestamp :: u32

record SpectrumPRBBlacklistControl =
  pb_blacklisted_prbs :: "i32 list"
  pb_sampling_threshold :: i32
  pb_validity_period :: i32

text \<open>The asn1c structures: \<^verbatim>\<open>long\<close> members, pointers for OPTIONAL ones.\<close>

record Spectrum_IQDataIndication =
  sd_iqSamples :: "u8 list"
  sd_sampleCount :: i64
  sd_timestamp :: "i64 option"

record Spectrum_PRBBlacklistControl =
  sb_blacklistedPRBs :: "i64 list"
  sb_samplingThreshold :: "i64 option"
  sb_validityPeriod :: "i64 option"

definition SPECTRUM_RAN_FUNCTION_NAME :: string where
  "SPECTRUM_RAN_FUNCTION_NAME = ''spectrum_sm''"

definition SPECTRUM_RAN_FUNCTION_DESCRIPTION :: string where
  "SPECTRUM_RAN_FUNCTION_DESCRIPTION = ''Spectrum service model for IQ indication and PRB blacklist control''"

definition SPECTRUM_RAN_FUNCTION_VERSION :: int where
  "SPECTRUM_RAN_FUNCTION_VERSION = 1"

section \<open>Encoders and the decoder\<close>

definition spectrum_iq_struct :: "SpectrumIQIndication \<Rightarrow> Spectrum_IQDataIndication" where
  "spectrum_iq_struct i =
     \<lparr>sd_iqSamples = si_iq_data i, sd_sampleCount = ucast (si_sample_count i), sd_timestamp = Some (ucast (si_timestamp i))\<rparr>"

definition encode_spectrum_iq_indication ::
    "(Spectrum_IQDataIndication \<Rightarrow> (nat \<times> u8 list) option) \<Rightarrow> bool \<Rightarrow> bool \<Rightarrow> SpectrumIQIndication \<Rightarrow> u8 list option" where
  "encode_spectrum_iq_indication aper iq_ok ts_ok i =
     (if \<not> iq_ok then None
      else if \<not> ts_ok then None
      else aper_bytes (aper (spectrum_iq_struct i)))"

text \<open>The constraints of \<^verbatim>\<open>Spectrum-IQDataIndication\<close> in \<^verbatim>\<open>e3sm_spectrum.asn\<close>, outside which there is no encoding.\<close>

definition iq_schema_ok :: "Spectrum_IQDataIndication \<Rightarrow> bool" where
  "iq_schema_ok d \<longleftrightarrow> 1 \<le> length (sd_iqSamples d) \<and> length (sd_iqSamples d) \<le> 16384
     \<and> 0 \<le> sint (sd_sampleCount d) \<and> sint (sd_sampleCount d) \<le> 32768
     \<and> (case sd_timestamp d of None \<Rightarrow> True | Some t \<Rightarrow> 0 \<le> sint t \<and> sint t \<le> 2147483647)"

text \<open>One allocation and one list insertion per PRB, then one allocation for each of the two numbers.\<close>

definition encode_spectrum_prb_blacklist_control ::
    "(Spectrum_PRBBlacklistControl \<Rightarrow> (nat \<times> u8 list) option) \<Rightarrow> (nat \<Rightarrow> bool) \<Rightarrow> bool \<Rightarrow> bool
      \<Rightarrow> SpectrumPRBBlacklistControl \<Rightarrow> u8 list option" where
  "encode_spectrum_prb_blacklist_control aper prb_ok st_ok vp_ok c =
     (if list_ex (\<lambda>k. \<not> prb_ok k) [0..<length (pb_blacklisted_prbs c)] then None
      else if \<not> st_ok then None
      else if \<not> vp_ok then None
      else aper_bytes (aper \<lparr>sb_blacklistedPRBs = map scast (pb_blacklisted_prbs c),
             sb_samplingThreshold = Some (scast (pb_sampling_threshold c)),
             sb_validityPeriod = Some (scast (pb_validity_period c))\<rparr>))"

definition spectrum_ran_function_data_struct :: RanFunctionData where
  "spectrum_ran_function_data_struct =
     \<lparr>rfd_name = SPECTRUM_RAN_FUNCTION_NAME, rfd_version = SPECTRUM_RAN_FUNCTION_VERSION,
      rfd_description = SPECTRUM_RAN_FUNCTION_DESCRIPTION\<rparr>"

definition encode_spectrum_ran_function_data ::
    "(RanFunctionData \<Rightarrow> (nat \<times> u8 list) option) \<Rightarrow> bool \<Rightarrow> bool \<Rightarrow> u8 list option" where
  "encode_spectrum_ran_function_data aper name_ok desc_ok =
     (if \<not> name_ok then None
      else if \<not> desc_ok then None
      else aper_bytes (aper spectrum_ran_function_data_struct))"

text \<open>\<open>aper_decode\<close> gives the structure when the code is \<^verbatim>\<open>RC_OK\<close> and the pointer is not null.\<close>

definition decode_spectrum_prb_blacklist_control ::
    "(u8 list \<Rightarrow> Spectrum_PRBBlacklistControl option) \<Rightarrow> u8 list \<Rightarrow> SpectrumPRBBlacklistControl option" where
  "decode_spectrum_prb_blacklist_control aper_decode bytes =
     (case aper_decode bytes of
        None \<Rightarrow> None
      | Some ctrl \<Rightarrow> Some
          \<lparr>pb_blacklisted_prbs = map ucast (sb_blacklistedPRBs ctrl),
           pb_sampling_threshold = (case sb_samplingThreshold ctrl of Some v \<Rightarrow> ucast v | None \<Rightarrow> 0),
           pb_validity_period = (case sb_validityPeriod ctrl of Some v \<Rightarrow> ucast v | None \<Rightarrow> 0)\<rparr>)"

section \<open>State\<close>

record stats_row =
  sr_sample_seq :: u64
  sr_gnb_to_codelet_us :: u64
  sr_codelet_to_dispatch_us :: u64
  sr_dispatch_to_handler_us :: u64
  sr_decompress_ns :: u64
  sr_encode_ns :: int
  sr_emit_ns :: int
  sr_fft_size :: u32
  sr_payload_bytes :: u16

record spectrum_ext =
  z_subscribers :: "nat \<Rightarrow> u32 list"
  z_emit :: "nat \<Rightarrow> ErrorCode"
  z_encoding :: EncodingFormat
  z_aper :: "Spectrum_IQDataIndication \<Rightarrow> (nat \<times> u8 list) option"
  z_iq_alloc :: bool
  z_ts_alloc :: bool
  z_decode :: "u8 list \<Rightarrow> Spectrum_PRBBlacklistControl option"
  z_realtime_ns :: "nat \<Rightarrow> u64"
  z_encode_ns :: "nat \<Rightarrow> int"
  z_emit_ns :: "nat \<Rightarrow> int"
  z_stats_opens :: "nat \<Rightarrow> bool"

record spectrum_sm =
  e_running :: bool
  e_warned :: bool
  e_padded_buf :: "i16 list"
  e_encoded_buf :: "u8 list"
  e_indication :: SpectrumIQIndication
  e_stats_log_path :: string
  e_stats_open :: bool
  e_stats :: "stats_row list"
  e_sample_publish_seq :: u64
  e_sent :: sent_pdus
  e_sub_calls :: nat
  e_entries :: nat
  e_open_calls :: nat

definition E3SMSpectrum :: "string \<Rightarrow> spectrum_sm" where
  "E3SMSpectrum stats_log_path =
     \<lparr>e_running = False, e_warned = False, e_padded_buf = [], e_encoded_buf = [],
      e_indication = \<lparr>si_iq_data = [], si_sample_count = 0, si_timestamp = 0\<rparr>,
      e_stats_log_path = stats_log_path, e_stats_open = False, e_stats = [], e_sample_publish_seq = 0, e_sent = [],
      e_sub_calls = 0, e_entries = 0, e_open_calls = 0\<rparr>"

definition SPECTRUM_RAN_FUNCTION_ID :: u32 where
  "SPECTRUM_RAN_FUNCTION_ID = 1"

section \<open>Zero padding\<close>

text \<open>\<^verbatim>\<open>while (fft_size < ofdm_sym_size) fft_size <<= 1;\<close>\<close>

partial_function (option) fft_grow :: "u32 \<Rightarrow> u32 \<Rightarrow> u32 option" where
  "fft_grow ofdm_sym_size fft_size =
     (if fft_size < ofdm_sym_size then fft_grow ofdm_sym_size (push_bit 1 fft_size) else Some fft_size)"

text \<open>\<^verbatim>\<open>memcpy\<close> of a list over the elements from \<open>i\<close>.\<close>

definition copy_at :: "nat \<Rightarrow> 'a list \<Rightarrow> 'a list \<Rightarrow> 'a list" where
  "copy_at i src dst = take i dst @ src @ drop (i + length src) dst"

definition zero_pad :: "u32 \<Rightarrow> u32 \<Rightarrow> i16 list \<Rightarrow> i16 list" where
  "zero_pad fft_size ofdm_sym_size iq =
     (let half_sc = ofdm_sym_size div 2;
          first_carrier_offset = fft_size - half_sc;
          n = unat half_sc * 2
      in copy_at 0 (take n (drop n iq))
           (copy_at (unat first_carrier_offset * 2) (take n iq) (replicate (unat fft_size * 2) 0)))"

text \<open>The bytes of the 16-bit buffer, low byte first.\<close>

definition i16_bytes :: "i16 list \<Rightarrow> u8 list" where
  "i16_bytes xs = concat (map (\<lambda>v. [ucast v, ucast (drop_bit 8 v)]) xs)"

section \<open>The consumer\<close>

definition sat_us :: "u64 \<Rightarrow> u64 \<Rightarrow> u64" where
  "sat_us lhs rhs = (if lhs > rhs then (lhs - rhs) div 1000 else 0)"

text \<open>The statistics line of a published sample; a stream that did not open swallows it.\<close>

definition log_stats :: "spectrum_ext \<Rightarrow> u64 \<Rightarrow> u32 \<Rightarrow> DecompressedSample \<Rightarrow> spectrum_sm \<Rightarrow> spectrum_sm" where
  "log_stats Z handler_entry_ns fft_size s e =
     (if e_stats_log_path e = [] then e
      else
        let opened = e_stats_open e \<or> z_stats_opens Z (e_open_calls e);
            e1 = (if e_stats_open e then e else e\<lparr>e_open_calls := e_open_calls e + 1, e_stats_open := opened\<rparr>)
        in if \<not> opened then e1
           else e1\<lparr>e_stats := e_stats e1 @
             [\<lparr>sr_sample_seq = e_sample_publish_seq e1,
               sr_gnb_to_codelet_us = sat_us (ds_codelet_ts_ns s) (ds_gnb_ts_ns s),
               sr_codelet_to_dispatch_us = sat_us (ds_dispatch_ts_ns s) (ds_codelet_ts_ns s),
               sr_dispatch_to_handler_us = sat_us handler_entry_ns (ds_dispatch_ts_ns s),
               sr_decompress_ns = ds_decompress_ns s, sr_encode_ns = z_encode_ns Z (e_entries e1),
               sr_emit_ns = z_emit_ns Z (e_entries e1), sr_fft_size = fft_size,
               sr_payload_bytes = iq_payload_size (ds_raw s)\<rparr>]\<rparr>)"

definition spectrum_emit_one :: "spectrum_ext \<Rightarrow> u32 \<Rightarrow> spectrum_sm \<Rightarrow> spectrum_sm" where
  "spectrum_emit_one Z dapp_id e =
     e\<lparr>e_sent := e_sent e @
       [(IndicationPdu dapp_id SPECTRUM_RAN_FUNCTION_ID (e_encoded_buf e), z_emit Z (length (e_sent e)))]\<rparr>"

text \<open>
  From the padding to the end; \<open>None\<close> when the search for the FFT size does not return.  The null checks of
  the two pointers of a sample have no counterpart: the pipeline always sets both.
\<close>

definition publish_section :: "spectrum_ext \<Rightarrow> u64 \<Rightarrow> u32 list \<Rightarrow> DecompressedSample \<Rightarrow> spectrum_sm \<Rightarrow> spectrum_sm option" where
  "publish_section Z handler_entry_ns subs s e =
     (let ofdm_sym_size = ucast (iq_num_prbu (ds_raw s)) * 12
      in if ofdm_sym_size = 0 then Some e
         else case fft_grow ofdm_sym_size 1 of
           None \<Rightarrow> None
         | Some fft_size \<Rightarrow>
             if length (ds_decompressed_iq s) < unat ofdm_sym_size * 2 then Some e
             else
               let padded = zero_pad fft_size ofdm_sym_size (ds_decompressed_iq s);
                   ind = \<lparr>si_iq_data = i16_bytes padded, si_sample_count = fft_size,
                     si_timestamp = ucast (iq_timestamp (ds_raw s))\<rparr>;
                   e1 = e\<lparr>e_padded_buf := padded, e_indication := ind, e_encoded_buf := []\<rparr>
               in (case encode_spectrum_iq_indication (z_aper Z) (z_iq_alloc Z) (z_ts_alloc Z) ind of
                    None \<Rightarrow> Some e1
                  | Some payload \<Rightarrow>
                      let e2 = fold (spectrum_emit_one Z) subs (e1\<lparr>e_encoded_buf := payload\<rparr>)
                      in Some (log_stats Z handler_entry_ns fft_size s
                           (e2\<lparr>e_sample_publish_seq := e_sample_publish_seq e2 + 1\<rparr>))))"

definition spectrum_on_sample :: "spectrum_ext \<Rightarrow> DecompressedSample \<Rightarrow> spectrum_sm \<Rightarrow> spectrum_sm option" where
  "spectrum_on_sample Z s e0 =
     (if \<not> e_running e0 then Some e0
      else
        let subs = z_subscribers Z (e_sub_calls e0);
            e = e0\<lparr>e_sub_calls := e_sub_calls e0 + 1\<rparr>
        in if subs = [] then Some e
           else
             let handler_entry_ns = z_realtime_ns Z (e_entries e);
                 e1 = e\<lparr>e_entries := e_entries e + 1\<rparr>
             in if z_encoding Z \<noteq> ASN1 then Some (e1\<lparr>e_warned := True\<rparr>)
                else publish_section Z handler_entry_ns subs s e1)"

section \<open>Lifecycle and control\<close>

definition spectrum_consumer :: "spectrum_ext \<Rightarrow> spectrum_sm option IqConsumer" where
  "spectrum_consumer Z s w = Option.bind w (spectrum_on_sample Z s)"

definition spectrum_init ::
    "spectrum_ext \<Rightarrow> spectrum_sm \<Rightarrow> spectrum_sm option iq_pipeline \<Rightarrow> ErrorCode \<times> spectrum_sm \<times> spectrum_sm option iq_pipeline" where
  "spectrum_init Z e p = (SUCCESS, e, iq_register_consumer (spectrum_consumer Z) p)"

definition spectrum_start ::
    "lcm_limits \<Rightarrow> i32 \<Rightarrow> 's BufferHandler \<Rightarrow> spectrum_sm \<Rightarrow> 'w iq_pipeline \<Rightarrow> 's handlers \<Rightarrow> jbpf_env
      \<Rightarrow> start_outcome \<times> spectrum_sm \<times> 'w iq_pipeline \<times> 's handlers \<times> jbpf_env" where
  "spectrum_start L load_rc cb e p hs env =
     (if e_running e then (Returned SUCCESS, e, p, hs, env)
      else case iq_start L load_rc cb p hs env of
        (out, p1, hs1, env1) \<Rightarrow>
          if out = Returned SUCCESS then (out, e\<lparr>e_running := True\<rparr>, p1, hs1, env1) else (out, e, p1, hs1, env1))"

definition spectrum_stop ::
    "lcm_limits \<Rightarrow> spectrum_sm \<Rightarrow> 'w iq_pipeline \<Rightarrow> 's handlers \<Rightarrow> jbpf_env
      \<Rightarrow> spectrum_sm \<times> 'w iq_pipeline \<times> 's handlers \<times> jbpf_env" where
  "spectrum_stop L e p hs env = (if \<not> e_running e then (e, p, hs, env) else (e\<lparr>e_running := False\<rparr>, iq_stop L p hs env))"

definition spectrum_destroy ::
    "lcm_limits \<Rightarrow> spectrum_sm \<Rightarrow> 'w iq_pipeline \<Rightarrow> 's handlers \<Rightarrow> jbpf_env
      \<Rightarrow> spectrum_sm \<times> 'w iq_pipeline \<times> 's handlers \<times> jbpf_env" where
  "spectrum_destroy L e p hs env = spectrum_stop L e p hs env"

definition spectrum_ran_function_data :: "(RanFunctionData \<Rightarrow> (nat \<times> u8 list) option) \<Rightarrow> bool \<Rightarrow> bool \<Rightarrow> u8 list" where
  "spectrum_ran_function_data aper name_ok desc_ok =
     (case encode_spectrum_ran_function_data aper name_ok desc_ok of None \<Rightarrow> [] | Some encoded \<Rightarrow> encoded)"

definition spectrum_reply :: "spectrum_ext \<Rightarrow> u32 \<Rightarrow> ResponseCode \<Rightarrow> spectrum_sm \<Rightarrow> spectrum_sm" where
  "spectrum_reply Z m r e = e\<lparr>e_sent := e_sent e @ [(MessageAckPdu m r, z_emit Z (length (e_sent e)))]\<rparr>"

definition spectrum_handle_control_action :: "spectrum_ext \<Rightarrow> u32 \<Rightarrow> u8 list \<Rightarrow> spectrum_sm \<Rightarrow> ErrorCode \<times> spectrum_sm" where
  "spectrum_handle_control_action Z request_message_id action_data e =
     (case decode_spectrum_prb_blacklist_control (z_decode Z) action_data of
        None \<Rightarrow> (DECODE_FAILED, spectrum_reply Z request_message_id NEGATIVE e)
      | Some ctrl \<Rightarrow> (SUCCESS, spectrum_reply Z request_message_id POSITIVE e))"

section \<open>The FFT size\<close>

lemma unat_pow2: "j < 32 \<Longrightarrow> unat (2 ^ j :: u32) = 2 ^ j"
proof -
  assume "j < 32"
  then have "(2::nat) ^ j < 2 ^ 32" by (intro power_strict_increasing) simp_all
  then have "unat (of_nat (2 ^ j) :: u32) = 2 ^ j" by (simp only: unat_of_nat_mod) simp
  then show ?thesis by simp
qed

lemma fft_grow_pow:
  assumes "j \<le> 31" "unat sz \<le> 2 ^ 31"
  shows "\<exists>k. j \<le> k \<and> k \<le> 31 \<and> fft_grow sz (2 ^ j) = Some (2 ^ k) \<and> unat sz \<le> 2 ^ k
    \<and> (j < k \<longrightarrow> 2 ^ (k - 1) < unat sz)"
  using assms(1)
proof (induction "31 - j" arbitrary: j)
  case 0
  then have "j = 31" by simp
  then show ?case
    using assms(2) unat_pow2[of 31] fft_grow.simps[of sz "2 ^ 31"]
    by (intro exI[of _ 31]) (simp add: word_less_nat_alt)
next
  case (Suc n)
  show ?case
  proof (cases "unat sz \<le> 2 ^ j")
    case True
    then show ?thesis
      using Suc.prems unat_pow2[of j] fft_grow.simps[of sz "2 ^ j"] by (intro exI[of _ j]) (simp add: word_less_nat_alt)
  next
    case False
    have "j < 31" using Suc(2) by simp
    have "push_bit 1 (2 ^ j :: u32) = 2 ^ Suc j" by (simp add: push_bit_eq_mult)
    then have step: "fft_grow sz (2 ^ j) = fft_grow sz (2 ^ Suc j)"
      using False unat_pow2[of j] \<open>j < 31\<close> fft_grow.simps[of sz "2 ^ j"] by (simp add: word_less_nat_alt mult.commute)
    have "n = 31 - Suc j" using Suc(2) by simp
    from Suc(1)[OF this] \<open>j < 31\<close> obtain k where k: "Suc j \<le> k" "k \<le> 31" "fft_grow sz (2 ^ Suc j) = Some (2 ^ k)"
        "unat sz \<le> 2 ^ k" "Suc j < k \<longrightarrow> 2 ^ (k - 1) < unat sz"
      by auto
    have "2 ^ (k - 1) < unat sz" using k(1,5) False by (cases "Suc j < k") (auto simp: not_le dest: le_antisym)
    then show ?thesis using k step by (intro exI[of _ k]) simp
  qed
qed

lemma fft_grow_returns:
  assumes "0 < unat sz" "unat sz \<le> 2 ^ 31"
  obtains k where "k \<le> 31" "fft_grow sz 1 = Some (2 ^ k)" "unat (2 ^ k :: u32) = 2 ^ k" "unat sz \<le> 2 ^ k"
    "2 ^ k < 2 * unat sz"
proof -
  obtain k where k: "k \<le> 31" "fft_grow sz (2 ^ 0) = Some (2 ^ k)" "unat sz \<le> 2 ^ k" "0 < k \<longrightarrow> 2 ^ (k - 1) < unat sz"
    using fft_grow_pow[of 0 sz] assms(2) by auto
  have "2 ^ k < 2 * unat sz"
  proof (cases k)
    case 0
    then show ?thesis using assms(1) by simp
  next
    case (Suc m)
    then show ?thesis using k(4) by simp
  qed
  then show thesis using that[of k] k unat_pow2[of k] by simp
qed

lemma fft_grow_result:
  assumes "fft_grow sz v = Some r"
  shows "sz \<le> r \<and> (\<exists>j. r = push_bit j v)"
proof (rule fft_grow.raw_induct[of "\<lambda>sz v r. sz \<le> r \<and> (\<exists>j. r = push_bit j v)", OF _ assms], goal_cases)
  case (1 f sz v r)
  show ?case
  proof (cases "v < sz")
    case True
    then obtain j where "sz \<le> r" "r = push_bit j (push_bit 1 v)" using 1(1)[of sz "push_bit 1 v" r] 1(2) by auto
    then show ?thesis by (intro conjI exI[of _ "j + 1"]) simp_all
  next
    case False
    then show ?thesis using 1(2) by (auto intro!: exI[of _ 0])
  qed
qed

lemma fft_grow_bound:
  assumes "fft_grow sz 1 = Some r"
  shows "unat sz \<le> 2 ^ 31"
proof -
  obtain j where r: "sz \<le> r" "r = push_bit j 1" using fft_grow_result[OF assms] by blast
  have "unat r \<le> 2 ^ 31"
  proof (cases "j < 32")
    case True
    then have "unat r = 2 ^ j" using unat_pow2[of j] by (simp add: r(2) push_bit_eq_mult)
    moreover have "(2::nat) ^ j \<le> 2 ^ 31" using True by (intro power_increasing) simp_all
    ultimately show ?thesis by simp
  next
    case False
    then have "r = 0" unfolding r(2) by (intro bit_word_eqI) (auto simp: bit_simps)
    then show ?thesis by simp
  qed
  then show ?thesis using r(1) by (simp add: word_le_nat_alt)
qed

lemma least_power:
  assumes "m \<le> (2::nat) ^ k" "0 < k \<longrightarrow> 2 ^ (k - 1) < m"
  shows "(LEAST i. m \<le> 2 ^ i) = k"
proof (rule Least_equality)
  fix i assume i: "m \<le> 2 ^ i"
  show "k \<le> i"
  proof (rule ccontr)
    assume "\<not> k \<le> i"
    then have k: "0 < k" "i \<le> k - 1" by auto
    have "(2::nat) ^ i \<le> 2 ^ (k - 1)" using k(2) by (intro power_increasing) simp_all
    then show False using assms(2) i k(1) by linarith
  qed
qed (rule assms(1))

text \<open>C40.
  What the search for the FFT size computes.  For sizes up to \<open>2 ^ 31\<close> it returns the least power of two that is
  not below the size; beyond that the doubled candidate is shifted out of its 32 bits and the loop never ends.  The
  16-bit PRB count of a section keeps the size below \<open>2 ^ 20\<close>, so the loop of the code always returns: the power is
  the least one that holds the \<open>12 * n\<close> subcarriers, computed without wrap-around.\<close>

theorem fft_grow_value:
  "fft_grow sz 1 = (if unat sz \<le> 2 ^ 31 then Some (2 ^ (LEAST k. unat sz \<le> 2 ^ k)) else None)
    \<and> fft_grow (ucast (n :: u16) * 12) 1 = Some (2 ^ (LEAST k. 12 * unat n \<le> 2 ^ k))"
proof -
  have val: "fft_grow sz 1 = (if unat sz \<le> 2 ^ 31 then Some (2 ^ (LEAST k. unat sz \<le> 2 ^ k)) else None)" for sz
  proof (cases "unat sz \<le> 2 ^ 31")
    case True
    then obtain k where k: "fft_grow sz 1 = Some (2 ^ k)" "unat sz \<le> 2 ^ k" "0 < k \<longrightarrow> 2 ^ (k - 1) < unat sz"
      using fft_grow_pow[of 0 sz] by auto
    then show ?thesis using True least_power[OF k(2,3)] by simp
  next
    case False
    then have "fft_grow sz 1 = None" using fft_grow_bound[of sz] by (cases "fft_grow sz 1") simp_all
    then show ?thesis using False by simp
  qed
  moreover have n: "unat n < 65536" using unat_word_less[of n] by simp
  moreover have "unat (ucast n * 12 :: u32) = 12 * unat n" using n by (subst unat_mult_no_wrap) simp_all
  ultimately show ?thesis by simp
qed

section \<open>The padded layout\<close>

lemma copy_at_end: "copy_at (length xs) src (xs @ ys) = xs @ src @ drop (length src) ys"
  by (simp add: copy_at_def)

lemma zero_pad_form:
  assumes "unat ofdm = 2 * h" "2 * h \<le> unat fft" "4 * h \<le> length iq"
  shows "zero_pad fft ofdm iq
    = take (2 * h) (drop (2 * h) iq) @ replicate (2 * (unat fft - 2 * h)) 0 @ take (2 * h) iq"
proof -
  have half: "unat (ofdm div 2) = h" using assms(1) by (simp add: unat_div)
  have first: "unat (fft - ofdm div 2) = unat fft - h" using assms(2) by (subst unat_sub_no_wrap) (simp_all add: half)
  let ?a = "take (2 * h) iq" and ?b = "take (2 * h) (drop (2 * h) iq)"
  have len: "length ?a = 2 * h" "length ?b = 2 * h" using assms(3) by simp_all
  have z: "replicate (unat fft * 2) (0::i16)
      = replicate (2 * h) 0 @ replicate (2 * (unat fft - 2 * h)) 0 @ replicate (2 * h) 0"
    using assms(2) by (simp flip: replicate_add)
  have "copy_at ((unat fft - h) * 2) ?a (replicate (unat fft * 2) 0)
      = replicate (2 * h) 0 @ replicate (2 * (unat fft - 2 * h)) 0 @ ?a"
    using copy_at_end[of "replicate (2 * h) 0 @ replicate (2 * (unat fft - 2 * h)) 0" ?a "replicate (2 * h) 0"]
      assms(2) len unfolding z by (simp add: algebra_simps)
  then have "zero_pad fft ofdm iq = copy_at 0 ?b (replicate (2 * h) 0 @ replicate (2 * (unat fft - 2 * h)) 0 @ ?a)"
    by (simp add: zero_pad_def Let_def half first mult.commute)
  also have "\<dots> = ?b @ replicate (2 * (unat fft - 2 * h)) 0 @ ?a"
    using copy_at_end[of "[]" ?b "replicate (2 * h) 0 @ replicate (2 * (unat fft - 2 * h)) 0 @ ?a"] len by simp
  finally show ?thesis .
qed

section \<open>Publishing a section\<close>

lemma spectrum_emit_all:
  "fold (spectrum_emit_one Z) ds e =
     e\<lparr>e_sent := e_sent e @ fan_out (z_emit Z) SPECTRUM_RAN_FUNCTION_ID (e_encoded_buf e) (length (e_sent e)) ds\<rparr>"
proof (induction ds arbitrary: e)
  case (Cons d ds)
  then show ?case by (simp add: spectrum_emit_one_def)
qed simp

lemma log_stats_frame [simp]:
  "e_sent (log_stats Z t fft s e) = e_sent e" "e_running (log_stats Z t fft s e) = e_running e"
  "e_padded_buf (log_stats Z t fft s e) = e_padded_buf e" "e_indication (log_stats Z t fft s e) = e_indication e"
  "e_sample_publish_seq (log_stats Z t fft s e) = e_sample_publish_seq e"
  by (simp_all add: log_stats_def Let_def)

lemma ofdm_size: "unat (ucast n * 12 :: u32) = 2 * (6 * unat n)" for n :: u16
proof -
  have "unat n < 65536" using unat_word_less[of n] by simp
  then show ?thesis by (subst unat_mult_no_wrap) simp_all
qed

text \<open>
  What is sent for a section: the encoding of the indication that the service model holds, to the
  subscribers in order.
\<close>

definition section_pdus :: "spectrum_ext \<Rightarrow> u32 list \<Rightarrow> spectrum_sm \<Rightarrow> nat \<Rightarrow> sent_pdus" where
  "section_pdus Z subs e k =
     (case encode_spectrum_iq_indication (z_aper Z) (z_iq_alloc Z) (z_ts_alloc Z) (e_indication e) of
        None \<Rightarrow> []
      | Some payload \<Rightarrow> fan_out (z_emit Z) SPECTRUM_RAN_FUNCTION_ID payload k subs)"

lemma section_published:
  assumes "e_running e" and "z_subscribers Z (e_sub_calls e) \<noteq> []" and "z_encoding Z = ASN1"
    and "n = unat (iq_num_prbu (ds_raw s))" and "0 < n" and "24 * n \<le> length (ds_decompressed_iq s)"
  shows "\<exists>e' k. spectrum_on_sample Z s e = Some e' \<and> 12 * n \<le> 2 ^ k \<and> 2 ^ k < 24 * n
    \<and> length (e_padded_buf e') = 2 * 2 ^ k
    \<and> drop (2 * 2 ^ k - 12 * n) (e_padded_buf e') @ take (12 * n) (e_padded_buf e') = take (24 * n) (ds_decompressed_iq s)
    \<and> (\<forall>i. 12 * n \<le> i \<longrightarrow> i < 2 * 2 ^ k - 12 * n \<longrightarrow> e_padded_buf e' ! i = 0)
    \<and> e_indication e' = \<lparr>si_iq_data = i16_bytes (e_padded_buf e'), si_sample_count = 2 ^ k,
        si_timestamp = ucast (iq_timestamp (ds_raw s))\<rparr>
    \<and> e_sent e' = e_sent e @ section_pdus Z (z_subscribers Z (e_sub_calls e)) e' (length (e_sent e))"
proof -
  let ?size = "ucast (iq_num_prbu (ds_raw s)) * 12 :: u32" and ?iq = "ds_decompressed_iq s"
  have sz: "unat ?size = 2 * (6 * n)" using ofdm_size[of "iq_num_prbu (ds_raw s)"] assms(4) by simp
  have "n < 65536" using unat_word_less[of "iq_num_prbu (ds_raw s)"] assms(4) by simp
  then obtain k where k: "fft_grow ?size 1 = Some (2 ^ k)" "unat (2 ^ k :: u32) = 2 ^ k" "unat ?size \<le> 2 ^ k" "2 ^ k < 2 * unat ?size"
    using fft_grow_returns[of ?size] sz assms(5) by auto
  define P where "P = zero_pad (2 ^ k) ?size ?iq"
  let ?a = "take (12 * n) ?iq" and ?b = "take (12 * n) (drop (12 * n) ?iq)"
  have P: "P = ?b @ replicate (2 * (2 ^ k - 12 * n)) 0 @ ?a"
    using zero_pad_form[OF sz, of "2 ^ k" ?iq] k(2,3) sz assms(6) by (simp add: P_def)
  have len: "length ?a = 12 * n" "length ?b = 12 * n" using assms(6) by simp_all
  have bound: "12 * n \<le> 2 ^ k" using k(3) sz by simp
  have halves: "drop (2 * 2 ^ k - 12 * n) P @ take (12 * n) P = take (24 * n) ?iq"
  proof -
    have "drop (2 * 2 ^ k - 12 * n) P = ?a" using len bound by (simp add: P)
    moreover have "take (12 * n) P = ?b" using len by (simp add: P)
    ultimately show ?thesis using take_add[of "12 * n" "12 * n" ?iq] by simp
  qed
  have zeros: "P ! i = 0" if "12 * n \<le> i" "i < 2 * 2 ^ k - 12 * n" for i
  proof -
    have "i - 12 * n < 2 * (2 ^ k - 12 * n)" using that bound by simp
    then show ?thesis using that(1) len by (simp add: P nth_append)
  qed
  have plen: "length P = 2 * 2 ^ k" using len bound by (simp add: P)
  let ?ind = "\<lparr>si_iq_data = i16_bytes P, si_sample_count = 2 ^ k, si_timestamp = ucast (iq_timestamp (ds_raw s))\<rparr>"
  have nz: "?size \<noteq> 0" using sz assms(5) by (auto simp flip: unat_eq_zero)
  have enough: "\<not> length ?iq < unat ?size * 2" using sz assms(6) by simp
  obtain e' where e': "spectrum_on_sample Z s e = Some e'" "e_padded_buf e' = P" "e_indication e' = ?ind"
      "e_sent e' = e_sent e @ section_pdus Z (z_subscribers Z (e_sub_calls e)) e' (length (e_sent e))"
  proof (cases "encode_spectrum_iq_indication (z_aper Z) (z_iq_alloc Z) (z_ts_alloc Z) ?ind")
    case None
    then show ?thesis
      using that assms(1-3) k(1) nz enough
      by (simp add: spectrum_on_sample_def publish_section_def Let_def P_def[symmetric] section_pdus_def)
  next
    case (Some payload)
    then show ?thesis
      using that assms(1-3) k(1) nz enough
      by (simp add: spectrum_on_sample_def publish_section_def Let_def P_def[symmetric] section_pdus_def spectrum_emit_all)
  qed
  show ?thesis
    using e' halves zeros plen bound k(4) sz by (intro exI[of _ e'] exI[of _ k]) simp
qed

text \<open>C31.
  The service model turns a section of \<open>n\<close> PRBs, \<open>12 * n\<close> subcarriers, into an FFT input and always
  returns: the loop ends with the least power of two that holds the subcarriers; the buffer has the second
  half of the section at its start, the first half at its end and zeros between, so the section can be
  read back from it; exactly that buffer, with its length and the codelet's time stamp, is what every
  subscriber is sent, once, when the encoder accepts it.\<close>

theorem spectrum_section_published:
  assumes "e_running e" and "z_subscribers Z (e_sub_calls e) \<noteq> []" and "z_encoding Z = ASN1"
    and "n = unat (iq_num_prbu (ds_raw s))" and "0 < n" and "24 * n \<le> length (ds_decompressed_iq s)"
  shows "\<exists>e' k. spectrum_on_sample Z s e = Some e' \<and> 12 * n \<le> 2 ^ k \<and> 2 ^ k < 24 * n
    \<and> length (e_padded_buf e') = 2 * 2 ^ k
    \<and> drop (2 * 2 ^ k - 12 * n) (e_padded_buf e') @ take (12 * n) (e_padded_buf e') = take (24 * n) (ds_decompressed_iq s)
    \<and> (\<forall>i. 12 * n \<le> i \<longrightarrow> i < 2 * 2 ^ k - 12 * n \<longrightarrow> e_padded_buf e' ! i = 0)
    \<and> e_indication e' = \<lparr>si_iq_data = i16_bytes (e_padded_buf e'), si_sample_count = 2 ^ k,
        si_timestamp = ucast (iq_timestamp (ds_raw s))\<rparr>
    \<and> e_sent e' = e_sent e @ section_pdus Z (z_subscribers Z (e_sub_calls e)) e' (length (e_sent e))"
  by (rule section_published[OF assms])

definition demo_spectrum_ext :: spectrum_ext where
  "demo_spectrum_ext =
     \<lparr>z_subscribers = (\<lambda>_. [4]), z_emit = (\<lambda>_. SUCCESS), z_encoding = ASN1,
      z_aper = (\<lambda>i. Some (8, [9])), z_iq_alloc = True, z_ts_alloc = True, z_decode = (\<lambda>_. None),
      z_realtime_ns = (\<lambda>_. 0), z_encode_ns = (\<lambda>_. 0), z_emit_ns = (\<lambda>_. 0), z_stats_opens = (\<lambda>_. True)\<rparr>"

definition demo_section :: DecompressedSample where
  "demo_section =
     \<lparr>ds_raw = \<lparr>iq_gnb_ts_ns = 0, iq_codelet_ts_ns = 0, iq_timestamp = 77, iq_direction = 1, iq_frame_id = 0,
        iq_comp_method = 1, iq_iq_width = 9, iq_subframe_id = 0, iq_slot_id = 0, iq_symbol_id = 0, iq_section_id = 0,
        iq_start_prbu = 0, iq_num_prbu = 1, iq_payload_size = 28, iq_payload = []\<rparr>,
      ds_decompressed_iq = replicate 12 5 @ replicate 12 6, ds_recv_us = 0, ds_sample_id = 1, ds_gnb_ts_ns = 0,
      ds_codelet_ts_ns = 0, ds_dispatch_ts_ns = 0, ds_decompress_ns = 0\<rparr>"

theorem spectrum_section_published_witness:
  "\<exists>e' k. spectrum_on_sample demo_spectrum_ext demo_section ((E3SMSpectrum [])\<lparr>e_running := True\<rparr>) = Some e'
     \<and> (12::nat) \<le> 2 ^ k \<and> (2::nat) ^ k < 24
     \<and> drop (2 * 2 ^ k - 12) (e_padded_buf e') @ take 12 (e_padded_buf e') = replicate 12 5 @ replicate 12 6"
proof -
  let ?e = "(E3SMSpectrum [])\<lparr>e_running := True\<rparr>"
  have d: "1 = unat (iq_num_prbu (ds_raw demo_section))" "ds_decompressed_iq demo_section = replicate 12 5 @ replicate 12 6"
    by (simp_all add: demo_section_def)
  have x: "e_running ?e" "z_subscribers demo_spectrum_ext k \<noteq> []" "z_encoding demo_spectrum_ext = ASN1" for k
    by (simp_all add: demo_spectrum_ext_def)
  have l: "24 * 1 \<le> length (ds_decompressed_iq demo_section)" by (simp add: d(2))
  have t: "take 24 (replicate 12 5 @ replicate 12 6) = replicate 12 (5::i16) @ replicate 12 6" by simp
  from spectrum_section_published[OF x(1) x(2) x(3) d(1) zero_less_one l]
  show ?thesis unfolding d(2) t mult_1_right by (elim exE conjE) (intro exI conjI; assumption)
qed

lemma sequence_option_length: "sequence_option xs = Some ys \<Longrightarrow> length ys = length xs"
  by (auto simp: sequence_option_def split: if_splits)

text \<open>The decoder accepts at most 292 PRBs: a payload fits its array of 8192 bytes.\<close>

lemma decoded_prbs:
  assumes "decompress_bfp_9bit data (ucast (len :: u16)) num_prbu = BfpTrue iq" "unat len \<le> MAX_IQ_PAYLOAD_BYTES"
  shows "unat num_prbu \<le> 292" "length iq = 24 * unat num_prbu"
proof -
  have "\<not> ucast len < (ucast num_prbu * of_nat BFP_PRB_SIZE :: size_t)"
    using assms(1) by (auto simp: decompress_bfp_9bit_def Let_def split: if_splits)
  then have "unat num_prbu * 28 \<le> unat len"
    by (simp add: word_less_nat_alt expected_len_exact not_less)
  then show "unat num_prbu \<le> 292" using assms(2) by (simp add: MAX_IQ_PAYLOAD_BYTES_def)
  show "length iq = 24 * unat num_prbu"
    using assms(1) sequence_option_length
    by (fastforce simp: decompress_bfp_9bit_def Let_def INT16_PER_PRB_def length_concat comp_def sum_list_triv
        split: if_splits option.splits)
qed

lemma i16_bytes_length: "length (i16_bytes xs) = 2 * length xs"
  by (induction xs) (simp_all add: i16_bytes_def)

lemma power_le_4096:
  assumes "12 * n \<le> 2 ^ k" "(2::nat) ^ k < 24 * n"
  shows "2 ^ k \<le> (4096 :: nat) \<longleftrightarrow> n \<le> 341"
proof
  assume "n \<le> 341"
  then have "(2::nat) ^ k < 2 ^ 13" using assms(2) by simp
  then have "k \<le> 12" using power_less_imp_less_exp[of "2::nat" k 13] by simp
  then show "2 ^ k \<le> (4096 :: nat)" using power_increasing[of k 12 "2::nat"] by simp
qed (use assms(1) in simp)

text \<open>C32.
  Which sections the schema can carry.  The indication that the service model builds for a section of \<open>n\<close> PRBs
  satisfies the size and range constraints of \<^verbatim>\<open>Spectrum-IQDataIndication\<close> exactly when \<open>n\<close> is at most 341 and the
  time stamp, cut to 32 bits, is below \<open>2 ^ 31\<close>: 4096 points of four bytes are the 16384 bytes that the schema
  allows, one more PRB would need 8192 points.  A section that comes out of the pipeline meets both: its
  payload of at most 8192 bytes holds at most 292 PRBs, and the codelet reduces the time stamp modulo \<open>2 ^ 31\<close>.\<close>

theorem spectrum_section_encodable:
  assumes "e_running e" and "z_subscribers Z (e_sub_calls e) \<noteq> []" and "z_encoding Z = ASN1"
    and "n = unat (iq_num_prbu (ds_raw s))" and "0 < n" and "24 * n \<le> length (ds_decompressed_iq s)"
  shows "\<exists>e'. spectrum_on_sample Z s e = Some e'
    \<and> (iq_schema_ok (spectrum_iq_struct (e_indication e')) \<longleftrightarrow> n \<le> 341 \<and> unat (iq_timestamp (ds_raw s)) mod 2 ^ 32 < 2 ^ 31)
    \<and> (decompress_bfp_9bit (iq_payload (ds_raw s)) (ucast (iq_payload_size (ds_raw s))) (iq_num_prbu (ds_raw s))
          = BfpTrue (ds_decompressed_iq s)
        \<longrightarrow> unat (iq_payload_size (ds_raw s)) \<le> MAX_IQ_PAYLOAD_BYTES
        \<longrightarrow> iq_timestamp (ds_raw s) = us AND 0x7FFFFFFF
        \<longrightarrow> iq_schema_ok (spectrum_iq_struct (e_indication e')))"
proof -
  obtain e' k where e': "spectrum_on_sample Z s e = Some e'" "12 * n \<le> 2 ^ k" "2 ^ k < 24 * n"
      "length (e_padded_buf e') = 2 * 2 ^ k"
      "e_indication e' = \<lparr>si_iq_data = i16_bytes (e_padded_buf e'), si_sample_count = 2 ^ k,
        si_timestamp = ucast (iq_timestamp (ds_raw s))\<rparr>"
    using section_published[OF assms] by blast
  have "n < 65536" using unat_word_less[of "iq_num_prbu (ds_raw s)"] assms(4) by simp
  then have "(2::nat) ^ k < 2 ^ 21" using e'(3) by simp
  then have "k < 32" using power_less_imp_less_exp[of "2::nat" k 21] by simp
  then have count: "uint (2 ^ k :: u32) = int (2 ^ k)" unfolding uint_nat by (simp only: unat_pow2)
  define t where "t = unat (iq_timestamp (ds_raw s)) mod 2 ^ 32"
  have ts: "uint (ucast (iq_timestamp (ds_raw s)) :: u32) = int t"
    unfolding uint_nat t_def by (simp only: unsigned_ucast_eq take_bit_eq_mod) simp
  have ok: "iq_schema_ok (spectrum_iq_struct (e_indication e')) \<longleftrightarrow> n \<le> 341 \<and> t < 2 ^ 31"
  proof -
    have "int (2 ^ k) \<le> 32768" if "n \<le> 341"
      using power_le_4096[OF e'(2,3)] that by linarith
    then show ?thesis
      using power_le_4096[OF e'(2,3)]
      by (auto simp: iq_schema_ok_def spectrum_iq_struct_def e'(4,5) i16_bytes_length count ts simp del: of_nat_power)
  qed
  let ?r = "ds_raw s"
  have pipe: "iq_schema_ok (spectrum_iq_struct (e_indication e'))"
    if dec: "decompress_bfp_9bit (iq_payload ?r) (ucast (iq_payload_size ?r)) (iq_num_prbu ?r) = BfpTrue (ds_decompressed_iq s)"
      and size: "unat (iq_payload_size ?r) \<le> MAX_IQ_PAYLOAD_BYTES" and us: "iq_timestamp ?r = us AND 0x7FFFFFFF"
  proof -
    have "n \<le> 341" using decoded_prbs(1)[OF dec size] assms(4) by simp
    moreover have "us AND 0x7FFFFFFF \<le> 0x7FFFFFFF" by (rule word_and_le1)
    then have "unat (iq_timestamp ?r) < 2 ^ 31" unfolding us word_le_nat_alt by simp
    then have "t < 2 ^ 31" unfolding t_def by (rule le_less_trans[OF mod_less_eq_dividend])
    ultimately show ?thesis using ok by blast
  qed
  show ?thesis by (rule exI[of _ e']) (intro conjI impI; fact e'(1) ok[unfolded t_def] pipe)
qed

text \<open>A section of one PRB as the decoder returns it.\<close>

definition demo_decoded_section :: DecompressedSample where
  "demo_decoded_section = demo_section\<lparr>ds_raw := (ds_raw demo_section)\<lparr>iq_payload := bfp_compress [(3, replicate 24 (-5))] @ [7]\<rparr>,
     ds_decompressed_iq := replicate 24 (-40)\<rparr>"

theorem spectrum_section_encodable_witness:
  "\<exists>e'. spectrum_on_sample demo_spectrum_ext demo_decoded_section ((E3SMSpectrum [])\<lparr>e_running := True\<rparr>) = Some e'
     \<and> iq_schema_ok (spectrum_iq_struct (e_indication e'))"
proof -
  let ?e = "(E3SMSpectrum [])\<lparr>e_running := True\<rparr>" and ?s = demo_decoded_section
  have x: "e_running ?e" "z_subscribers demo_spectrum_ext k \<noteq> []" "z_encoding demo_spectrum_ext = ASN1" for k
    by (simp_all add: demo_spectrum_ext_def)
  have d: "1 = unat (iq_num_prbu (ds_raw ?s))" "24 * 1 \<le> length (ds_decompressed_iq ?s)"
      "iq_timestamp (ds_raw ?s) = 77" "iq_payload_size (ds_raw ?s) = 28" "iq_num_prbu (ds_raw ?s) = 1"
      "iq_payload (ds_raw ?s) = bfp_compress [(3, replicate 24 (-5))] @ [7]" "ds_decompressed_iq ?s = replicate 24 (-40)"
    by (simp_all add: demo_decoded_section_def demo_section_def)
  have "decompress_bfp_9bit (bfp_compress [(3, replicate 24 (-5))] @ [7]) 28 1
      = BfpTrue (concat (map (\<lambda>(e, ms). map (\<lambda>m. word_of_int (m * 2 ^ unat e)) ms) [(3 :: u8, replicate 24 (-5))]))"
    by (rule decompress_packed) (simp_all add: bfp_block_ok_def)
  then have dec: "decompress_bfp_9bit (bfp_compress [(3, replicate 24 (-5))] @ [7]) 28 1 = BfpTrue (replicate 24 (-40))" by simp
  from spectrum_section_encodable[OF x(1) x(2) x(3) d(1) zero_less_one d(2), of 77] dec
  show ?thesis unfolding d(3-7) by (auto simp: MAX_IQ_PAYLOAD_BYTES_def)
qed

section \<open>Control\<close>

lemma ucast_scast_i32: "ucast (scast x :: i64) = x" for x :: i32
  by (rule bit_word_eqI) (simp add: bit_ucast_iff bit_signed_iff)

text \<open>
  A PRB blacklist control survives the trip over the wire: whatever 32-bit values it carries, when the
  asn1c decoder inverts the encoder, decoding the encoded control gives the same control back, and the
  service model answers it with a positive acknowledgement; undecodable bytes get a negative one and
  \<^verbatim>\<open>DECODE_FAILED\<close>.  Neither sends an indication or changes anything else.  What is encoded and decoded is a bare
  \<^verbatim>\<open>Spectrum-PRBBlacklistControl\<close>, without the \<^verbatim>\<open>Spectrum-DAppControlData\<close> envelope that the schema's comments
  prescribe.\<close>

theorem blacklist_roundtrip:
  assumes "\<And>a bytes. aper_bytes (aper a) = Some bytes \<Longrightarrow> z_decode Z bytes = Some a"
    and "encode_spectrum_prb_blacklist_control aper prb_ok st_ok vp_ok c = Some bytes"
    and "z_decode Z garbage = None"
  shows "decode_spectrum_prb_blacklist_control (z_decode Z) bytes = Some c
    \<and> spectrum_handle_control_action Z m bytes e
      = (SUCCESS, e\<lparr>e_sent := e_sent e @ [(MessageAckPdu m POSITIVE, z_emit Z (length (e_sent e)))]\<rparr>)
    \<and> spectrum_handle_control_action Z m garbage e
      = (DECODE_FAILED, e\<lparr>e_sent := e_sent e @ [(MessageAckPdu m NEGATIVE, z_emit Z (length (e_sent e)))]\<rparr>)"
proof -
  let ?a = "\<lparr>sb_blacklistedPRBs = map scast (pb_blacklisted_prbs c),
    sb_samplingThreshold = Some (scast (pb_sampling_threshold c)), sb_validityPeriod = Some (scast (pb_validity_period c))\<rparr>"
  have "aper_bytes (aper ?a) = Some bytes"
    using assms(2) by (auto simp: encode_spectrum_prb_blacklist_control_def split: if_splits)
  then have "z_decode Z bytes = Some ?a" by (rule assms(1))
  then have "decode_spectrum_prb_blacklist_control (z_decode Z) bytes = Some c"
    by (simp add: decode_spectrum_prb_blacklist_control_def ucast_scast_i32 comp_def)
  moreover have "decode_spectrum_prb_blacklist_control (z_decode Z) garbage = None"
    using assms(3) by (simp add: decode_spectrum_prb_blacklist_control_def)
  ultimately show ?thesis by (simp add: spectrum_handle_control_action_def spectrum_reply_def)
qed

definition demo_control_ext :: spectrum_ext where
  "demo_control_ext = demo_spectrum_ext\<lparr>z_decode := (\<lambda>bytes. if bytes = [] then None else
     Some \<lparr>sb_blacklistedPRBs = [3], sb_samplingThreshold = Some 1, sb_validityPeriod = Some (of_nat (length bytes))\<rparr>)\<rparr>"

text \<open>A codec that carries the validity period of a fixed control as the number of bytes.\<close>

definition demo_aper :: "Spectrum_PRBBlacklistControl \<Rightarrow> (nat \<times> u8 list) option" where
  "demo_aper a = (case sb_validityPeriod a of
     Some v \<Rightarrow> if sb_blacklistedPRBs a = [3] \<and> sb_samplingThreshold a = Some 1 \<and> v = 2 then Some (16, [0, 0]) else None
   | None \<Rightarrow> None)"

theorem blacklist_roundtrip_witness:
  "\<exists>bytes. encode_spectrum_prb_blacklist_control demo_aper (\<lambda>_. True) True True
       \<lparr>pb_blacklisted_prbs = [3], pb_sampling_threshold = 1, pb_validity_period = 2\<rparr> = Some bytes
     \<and> decode_spectrum_prb_blacklist_control (z_decode demo_control_ext) bytes
       = Some \<lparr>pb_blacklisted_prbs = [3], pb_sampling_threshold = 1, pb_validity_period = 2\<rparr>"
proof -
  let ?c = "\<lparr>pb_blacklisted_prbs = [3], pb_sampling_threshold = 1, pb_validity_period = 2\<rparr>"
  have inv: "z_decode demo_control_ext bytes = Some a" if "aper_bytes (demo_aper a) = Some bytes" for a bytes
    using that by (cases a) (auto simp: demo_aper_def demo_control_ext_def split: option.splits if_splits)
  have enc: "encode_spectrum_prb_blacklist_control demo_aper (\<lambda>_. True) True True ?c = Some [0, 0]"
    by (simp add: encode_spectrum_prb_blacklist_control_def demo_aper_def list_ex_iff)
  have "z_decode demo_control_ext [] = None" by (simp add: demo_control_ext_def)
  from blacklist_roundtrip[OF inv enc this] enc show ?thesis by blast
qed

section \<open>Contracts\<close>

lemma publish_section_frame:
  assumes "publish_section Z t subs s e = Some e'"
  shows "e_running e' = e_running e"
    "e_sent e' = e_sent e \<or> (\<exists>payload. e_sent e' = e_sent e @ fan_out (z_emit Z) SPECTRUM_RAN_FUNCTION_ID payload (length (e_sent e)) subs)"
  using assms by (auto simp: publish_section_def Let_def spectrum_emit_all split: if_splits option.splits)

interpretation spectrum_telemetry: telemetry_sm SPECTRUM_RAN_FUNCTION_ID e_running e_sent "spectrum_on_sample Z" for Z
proof (unfold_locales, goal_cases)
  case (1 s e e')
  then show ?case
    by (auto simp: spectrum_on_sample_def Let_def split: if_splits dest: publish_section_frame(1))
next
  case (2 s e e')
  have none: "\<exists>emit payload subs. xs = xs @ fan_out emit SPECTRUM_RAN_FUNCTION_ID payload (length xs) subs" for xs
    by (rule exI, rule exI, rule exI[of _ "[]"]) simp
  have "e_sent e' = e_sent e \<or> (\<exists>payload subs. e_sent e' = e_sent e @ fan_out (z_emit Z) SPECTRUM_RAN_FUNCTION_ID payload (length (e_sent e)) subs)"
    using 2 by (fastforce simp: spectrum_on_sample_def Let_def split: if_splits dest: publish_section_frame(2))
  then show ?case using none by metis
next
  case (3 e s e')
  then show ?case by (simp add: spectrum_on_sample_def)
qed

definition spectrum_inv ::
    "spectrum_sm \<times> 'w iq_pipeline \<times> (iq_inputs, 'w iq_pipeline) cb_state handlers \<times> jbpf_env \<Rightarrow> bool" where
  "spectrum_inv = (\<lambda>(e, rest). iq_inv rest \<and> e_running e = ip_running (fst rest))"

interpretation spectrum_life: lifecycle spectrum_inv "\<lambda>s. e_running (fst s)"
  "\<lambda>a s. spectrum_start (fst a) (snd a) iq_callback (fst s) (fst (snd s)) (fst (snd (snd s))) (snd (snd (snd s)))"
  "\<lambda>a s. spectrum_stop (fst a) (fst s) (fst (snd s)) (fst (snd (snd s))) (snd (snd (snd s)))"
proof (unfold_locales, goal_cases)
  case (1 s a)
  then show ?case
    using iq_start_call[where L = "fst a" and rc = "snd a" and p = "fst (snd s)" and hs = "fst (snd (snd s))" and env = "snd (snd (snd s))"]
    by (auto simp: spectrum_inv_def spectrum_start_def Let_def split: prod.splits)
next
  case (2 s a)
  then show ?case by (simp add: spectrum_start_def)
next
  case (3 s a)
  then show ?case
    using iq_start_call(2)[where L = "fst a" and rc = "snd a" and p = "fst (snd s)" and hs = "fst (snd (snd s))" and env = "snd (snd (snd s))"]
    by (auto simp: spectrum_inv_def spectrum_start_def Let_def split: prod.splits)
next
  case (4 s a)
  then show ?case by (auto simp: spectrum_start_def Let_def split: prod.splits)
next
  case (5 s a)
  then show ?case
    using iq_stop_call[where L = "fst a" and p = "fst (snd s)" and hs = "fst (snd (snd s))" and env = "snd (snd (snd s))"]
      iq_life.stop_stopped[of "(fst a, undefined)" "snd s"]
    by (auto simp: spectrum_inv_def spectrum_stop_def split: prod.splits)
next
  case (6 a s)
  then show ?case by (simp add: spectrum_stop_def)
next
  case (7 s a)
  then show ?case by (simp add: spectrum_stop_def)
qed

end
