(* ===== verification/Slot_Codelet.thy ===== *)
theory Slot_Codelet
  imports Jbpf_Io
begin

text \<open>
  The uplink slot codelet (\<^verbatim>\<open>codelets/uplink_slot_samples/uplink_slot_collect.c\<close>), which runs in the gNB once per
  uplink slot: it takes over new control messages, applies the slot selector, asks the gNB-side helper to
  publish the grid and reports a descriptor.  jbpf, the helper and the hook context are not in the
  repository: one firing gets their answers in \<open>fire_io\<close> and the context in \<open>jbpf_ran_slot_ctx\<close>; the calls
  of the helper are recorded.  The grid enters only through its size, \<open>data_end - data\<close>.
\<close>

section \<open>State and inputs\<close>

definition E3_SLOT_BYTES_2P :: u64 where "E3_SLOT_BYTES_2P = 366912"
definition E3_SLOT_BYTES_4P :: u64 where "E3_SLOT_BYTES_4P = 733824"
definition E3_SLOT_BYTES_8P :: u64 where "E3_SLOT_BYTES_8P = 1467648"

record jbpf_ran_slot_ctx =
  c_data_len :: u64
  c_gnb_ts_ns :: u64
  c_sfn :: u16
  c_subframe_id :: u16
  c_slot_id :: u16
  c_ctx_id :: u16
  c_nof_ports :: u16
  c_nof_symbols :: u16
  c_nof_subcarriers :: u16

record fire_io =
  f_entry_ts_ns :: u64
  f_shm_msg :: "e3_shm_cfg option"
  f_sel_msg :: "e3_slot_sel option"
  f_sel_store :: bool
  f_sel_lookup :: bool
  f_publish_rc :: "u64 \<Rightarrow> e3_slot_sel \<Rightarrow> i64"
  f_output_buf :: bool
  f_exit_ts_ns :: u64
  f_send_rc :: i32

datatype helper_call = Attach e3_shm_cfg | PublishSlot u64 e3_slot_sel

section \<open>The codelet\<close>

text \<open>The temporal filter: \<open>None\<close> for a slot that is not selected, otherwise the flag it leaves.\<close>

definition temporal_filter :: "e3_slot_sel \<Rightarrow> jbpf_ran_slot_ctx \<Rightarrow> u8 option" where
  "temporal_filter sel ctx =
     (if sel_sfn_mod sel > 1 \<and> c_sfn ctx mod sel_sfn_mod sel \<noteq> sel_sfn_offset sel then None
      else
        let filtered = (if sel_sfn_mod sel > 1 then E3_SLOT_FLAG_FILTERED else 0)
        in if sel_slot_mask sel \<noteq> 0 then
             let sid = c_slot_id ctx
             in if sid \<ge> 64 then None
                else if drop_bit (unat sid) (sel_slot_mask sel) AND 1 = 0 then None
                else Some E3_SLOT_FLAG_FILTERED
           else Some filtered)"

text \<open>The ladder of literal sizes, largest first.\<close>

definition ladder :: "u64 \<Rightarrow> u64 option" where
  "ladder data_len =
     (if E3_SLOT_BYTES_8P \<le> data_len then Some E3_SLOT_BYTES_8P
      else if E3_SLOT_BYTES_4P \<le> data_len then Some E3_SLOT_BYTES_4P
      else if E3_SLOT_BYTES_2P \<le> data_len then Some E3_SLOT_BYTES_2P
      else None)"

text \<open>Result of the publish step: the return code, the bytes reported, the flags and the helper call.\<close>

definition publish_grid ::
    "fire_io \<Rightarrow> e3_slot_sel \<Rightarrow> u8 \<Rightarrow> jbpf_ran_slot_ctx \<Rightarrow> i64 \<times> u32 \<times> u8 \<times> helper_call list" where
  "publish_grid io sel filtered ctx =
     (case ladder (c_data_len ctx) of
        None \<Rightarrow> (-1, 0, filtered OR E3_SLOT_FLAG_TRUNCATED, [])
      | Some n \<Rightarrow>
          let rc = f_publish_rc io n sel
          in if sint rc < 0 \<and> filtered AND E3_SLOT_FLAG_TRUNCATED = 0
             then (0, 0, filtered OR E3_SLOT_FLAG_TRUNCATED, [PublishSlot n sel])
             else (rc, ucast n, filtered, [PublishSlot n sel]))"

definition slot_desc_of :: "fire_io \<Rightarrow> jbpf_ran_slot_ctx \<Rightarrow> i64 \<Rightarrow> u32 \<Rightarrow> u8 \<Rightarrow> e3_slot_desc" where
  "slot_desc_of io ctx rc published flags =
     \<lparr>d_gnb_ts_ns = c_gnb_ts_ns ctx, d_codelet_entry_ts_ns = f_entry_ts_ns io, d_codelet_ts_ns = f_exit_ts_ns io,
      d_bytes_written = published, d_fh_write_index = ucast (rc AND 0xFFFFFFFF),
      d_fh_buffer_index = ucast (drop_bit 32 rc AND 0xFF), d_flags = flags, d_sfn = c_sfn ctx,
      d_subframe_id = c_subframe_id ctx, d_slot_id = c_slot_id ctx, d_sector_id = c_ctx_id ctx,
      d_nof_ports = c_nof_ports ctx, d_nof_symbols = c_nof_symbols ctx, d_nof_subcarriers = c_nof_subcarriers ctx\<rparr>"

text \<open>
  One firing on the cached selector \<open>cache\<close>, the one element of the array map \<^verbatim>\<open>sel_state\<close>: the return code,
  the helper calls, the descriptor sent and the new cache.
\<close>

definition slot_main ::
    "fire_io \<Rightarrow> jbpf_ran_slot_ctx \<Rightarrow> e3_slot_sel
      \<Rightarrow> codelet_ret \<times> helper_call list \<times> e3_slot_desc option \<times> e3_slot_sel" where
  "slot_main io ctx cache =
     (let attach = (case f_shm_msg io of None \<Rightarrow> [] | Some cfg \<Rightarrow> [Attach cfg]);
          sel = (case f_sel_msg io of None \<Rightarrow> cache | Some incoming \<Rightarrow> if f_sel_store io then incoming else cache)
      in if \<not> f_sel_lookup io then (CODELET_FAILURE, attach, None, sel)
         else case temporal_filter sel ctx of
           None \<Rightarrow> (CODELET_SUCCESS, attach, None, sel)
         | Some filtered \<Rightarrow>
             (case publish_grid io sel filtered ctx of
                (rc, published, flags, calls) \<Rightarrow>
                  if \<not> f_output_buf io then (CODELET_FAILURE, attach @ calls, None, sel)
                  else if sint (f_send_rc io) < 0 then (CODELET_FAILURE, attach @ calls, None, sel)
                  else (CODELET_SUCCESS, attach @ calls, Some (slot_desc_of io ctx rc published flags), sel)))"

section \<open>What the selector admits\<close>

definition slot_selected :: "e3_slot_sel \<Rightarrow> nat \<Rightarrow> nat \<Rightarrow> bool" where
  "slot_selected sel sfn slot \<longleftrightarrow>
     (1 < unat (sel_sfn_mod sel) \<longrightarrow> sfn mod unat (sel_sfn_mod sel) = unat (sel_sfn_offset sel))
     \<and> (sel_slot_mask sel \<noteq> 0 \<longrightarrow> bit (sel_slot_mask sel) slot)"

lemma mask_bit: "drop_bit n w AND 1 = 0 \<longleftrightarrow> \<not> bit w n" for w :: u64
  by (simp add: and_one_eq bit_iff_odd_drop_bit even_iff_mod_2_eq_zero)

lemma temporal_filter_iff:
  "temporal_filter sel ctx \<noteq> None \<longleftrightarrow> slot_selected sel (unat (c_sfn ctx)) (unat (c_slot_id ctx))"
proof -
  have m: "(c_sfn ctx mod sel_sfn_mod sel = sel_sfn_offset sel)
      = (unat (c_sfn ctx) mod unat (sel_sfn_mod sel) = unat (sel_sfn_offset sel))"
    by (metis unat_mod unsigned_word_eqI)
  have w: "bit (sel_slot_mask sel) n \<Longrightarrow> n < 64" for n using bit_imp_le_length by fastforce
  show ?thesis
    using w[of "unat (c_slot_id ctx)"]
    by (auto simp: temporal_filter_def slot_selected_def Let_def m mask_bit word_less_nat_alt word_le_nat_alt)
qed

section \<open>The descriptor\<close>

lemma ladder_le: "ladder n = Some k \<Longrightarrow> k \<le> n \<and> 0 < unat k \<and> unat k \<le> 1467648"
  by (auto simp: ladder_def E3_SLOT_BYTES_2P_def E3_SLOT_BYTES_4P_def E3_SLOT_BYTES_8P_def split: if_splits)

lemma rc_row: "ucast ((push_bit 32 (ucast b) OR ucast r :: i64) AND 0xFFFFFFFF) = r" for b :: u8 and r :: u32
proof -
  have m: "(0xFFFFFFFF :: i64) = mask 32" by (simp add: mask_eq_exp_minus_1)
  show ?thesis unfolding m by (rule bit_word_eqI) (auto simp: bit_simps)
qed

lemma rc_buffer: "ucast (drop_bit 32 (push_bit 32 (ucast b) OR ucast r :: i64) AND 0xFF) = b" for b :: u8 and r :: u32
proof -
  have m: "(0xFF :: i64) = mask 8" by (simp add: mask_eq_exp_minus_1)
  have "\<not> bit r (32 + n)" for n using bit_imp_le_length[of r "32 + n"] by auto
  then show ?thesis unfolding m by (intro bit_word_eqI) (auto simp: bit_simps)
qed

lemma filter_flag: "temporal_filter sel ctx = Some f \<Longrightarrow> f = 0 \<or> f = E3_SLOT_FLAG_FILTERED"
  by (auto simp: temporal_filter_def Let_def split: if_splits)

lemmas flag_defs = E3_SLOT_FLAG_FILTERED_def E3_SLOT_FLAG_TRUNCATED_def

lemma publish_grid_cases:
  assumes "publish_grid io sel f ctx = (rc, published, flags, calls)" "f = 0 \<or> f = E3_SLOT_FLAG_FILTERED"
  obtains "published = 0" "flags AND E3_SLOT_FLAG_TRUNCATED \<noteq> 0"
    | n where "ladder (c_data_len ctx) = Some n" "rc = f_publish_rc io n sel" "0 \<le> sint rc" "published = ucast n" "flags = f"
      "calls = [PublishSlot n sel]" "flags AND E3_SLOT_FLAG_TRUNCATED = 0"
proof -
  have tf: "f AND E3_SLOT_FLAG_TRUNCATED = 0" "(f OR E3_SLOT_FLAG_TRUNCATED) AND E3_SLOT_FLAG_TRUNCATED \<noteq> 0"
    using assms(2) by (auto simp: flag_defs)
  show thesis
  proof (cases "ladder (c_data_len ctx)")
    case None
    then show ?thesis using assms(1) tf that(1) by (simp add: publish_grid_def)
  next
    case (Some n)
    then show ?thesis
      using assms(1) tf that by (cases "sint (f_publish_rc io n sel) < 0") (simp_all add: publish_grid_def Let_def)
  qed
qed

lemma descriptor_context:
  assumes "slot_main io ctx cache = (ret, calls, Some d, sel)"
  shows "d_gnb_ts_ns d = c_gnb_ts_ns ctx" "d_sfn d = c_sfn ctx" "d_slot_id d = c_slot_id ctx" "d_nof_ports d = c_nof_ports ctx"
    "d_nof_symbols d = c_nof_symbols ctx" "d_nof_subcarriers d = c_nof_subcarriers ctx"
  using assms by (auto simp: slot_main_def slot_desc_of_def Let_def split: if_splits option.splits prod.splits)

lemma descriptor_faithful:
  assumes "slot_main io ctx cache = (ret, calls, Some d, sel)"
    and "\<And>n. 0 \<le> sint (f_publish_rc io n sel) \<Longrightarrow>
      f_publish_rc io n sel = push_bit 32 (ucast (b n :: u8)) OR ucast (r n :: u32)"
  shows "slot_selected sel (unat (d_sfn d)) (unat (d_slot_id d))
    \<and> (if d_bytes_written d = 0 then d_flags d AND E3_SLOT_FLAG_TRUNCATED \<noteq> 0
       else d_flags d AND E3_SLOT_FLAG_TRUNCATED = 0
         \<and> (\<exists>n. PublishSlot n sel \<in> set calls \<and> n \<le> c_data_len ctx \<and> unat (d_bytes_written d) = unat n
             \<and> d_fh_buffer_index d = b n \<and> d_fh_write_index d = r n))"
proof -
  let ?at = "case f_shm_msg io of None \<Rightarrow> [] | Some cfg \<Rightarrow> [Attach cfg]"
  obtain f rc published flags cs where f: "temporal_filter sel ctx = Some f"
    and g: "publish_grid io sel f ctx = (rc, published, flags, cs)"
    and d: "d = slot_desc_of io ctx rc published flags" and calls: "calls = ?at @ cs"
    using assms(1) by (auto simp: slot_main_def Let_def split: if_splits option.splits prod.splits)
  have sel: "slot_selected sel (unat (d_sfn d)) (unat (d_slot_id d))"
    using temporal_filter_iff[of sel ctx] f by (simp add: d slot_desc_of_def)
  from g filter_flag[OF f] show ?thesis
  proof (cases rule: publish_grid_cases)
    case 1
    then show ?thesis using sel by (simp add: d slot_desc_of_def)
  next
    case (2 n)
    note le = ladder_le[OF 2(1)]
    have len: "unat (ucast n :: u32) = unat n"
      using le by (simp add: unsigned_ucast_eq take_bit_nat_eq_self)
    have rc: "rc = push_bit 32 (ucast (b n)) OR ucast (r n)" using 2(2,3) assms(2)[of n] by simp
    have row: "ucast (rc AND 0xFFFFFFFF) = r n" and buf: "ucast (drop_bit 32 rc AND 0xFF) = b n"
      unfolding rc by (rule rc_row, rule rc_buffer)
    have "published \<noteq> 0" using len le 2(4) by (auto simp flip: unat_eq_zero)
    then show ?thesis
      using sel le len 2(4-7) by (auto simp: d slot_desc_of_def calls row buf)
  qed
qed

text \<open>C33.
  A descriptor never lies about its row: it is sent only for a slot that the current selector admits, and
  either it is flagged as truncated and reports no bytes, or the helper was called with a part of the grid
  that lies inside it, accepted it, and the descriptor carries the size of that part and exactly the buffer
  and row that the helper's documented return value names.\<close>

theorem slot_descriptor_faithful:
  assumes "slot_main io ctx cache = (ret, calls, Some d, sel)"
    and "\<And>n. 0 \<le> sint (f_publish_rc io n sel) \<Longrightarrow>
      f_publish_rc io n sel = push_bit 32 (ucast (b n :: u8)) OR ucast (r n :: u32)"
  shows "slot_selected sel (unat (d_sfn d)) (unat (d_slot_id d))
    \<and> (if d_bytes_written d = 0 then d_flags d AND E3_SLOT_FLAG_TRUNCATED \<noteq> 0
       else d_flags d AND E3_SLOT_FLAG_TRUNCATED = 0
         \<and> (\<exists>n. PublishSlot n sel \<in> set calls \<and> n \<le> c_data_len ctx \<and> unat (d_bytes_written d) = unat n
             \<and> d_fh_buffer_index d = b n \<and> d_fh_write_index d = r n))"
  by (rule descriptor_faithful[OF assms])

text \<open>The ladder reports the whole grid only for 2, 4 and 8 ports.  With the 273-PRB grid of 14 symbols (183456
  bytes per port) a single port matches no rung and is reported as truncated, but 3, 5, 6 and 7 ports match
  the next smaller rung: a prefix of the antennas is published and nothing flags it.\<close>

theorem ladder_per_port_count:
  assumes "p \<le> 8"
  shows "ladder (of_nat p * 183456) = (if p = 8 then Some (8 * 183456) else if 4 \<le> p then Some (4 * 183456)
      else if 2 \<le> p then Some (2 * 183456) else None)
    \<and> ((\<exists>n. ladder (of_nat p * 183456) = Some n \<and> n \<noteq> of_nat p * 183456) \<longleftrightarrow> p \<in> {3, 5, 6, 7})"
proof -
  have "p \<in> {0, 1, 2, 3, 4, 5, 6, 7, 8}" using assms by auto
  then show ?thesis
    by (auto simp: ladder_def E3_SLOT_BYTES_2P_def E3_SLOT_BYTES_4P_def E3_SLOT_BYTES_8P_def)
qed

theorem ladder_per_port_count_witness: "ladder (6 * 183456) = Some (4 * 183456)"
  using ladder_per_port_count[of 6] by simp

definition demo_fire :: fire_io where
  "demo_fire = \<lparr>f_entry_ts_ns = 5, f_shm_msg = None,
     f_sel_msg = Some \<lparr>sel_version = 1, sel_nof_slots_per_frame = 20, sel_slot_mask = 0x300, sel_sfn_mod = 2, sel_sfn_offset = 1\<rparr>,
     f_sel_store = True, f_sel_lookup = True,
     f_publish_rc = (\<lambda>n sel. push_bit 32 (ucast (1 :: u8)) OR ucast (42 :: u32)), f_output_buf = True, f_exit_ts_ns = 9,
     f_send_rc = 0\<rparr>"

definition demo_ctx :: jbpf_ran_slot_ctx where
  "demo_ctx = \<lparr>c_data_len = 733824, c_gnb_ts_ns = 1, c_sfn = 7, c_subframe_id = 4, c_slot_id = 8, c_ctx_id = 0,
     c_nof_ports = 4, c_nof_symbols = 14, c_nof_subcarriers = 3276\<rparr>"

definition demo_sel :: e3_slot_sel where
  "demo_sel = \<lparr>sel_version = 0, sel_nof_slots_per_frame = 0, sel_slot_mask = 0, sel_sfn_mod = 0, sel_sfn_offset = 0\<rparr>"

theorem slot_descriptor_faithful_witness:
  "\<exists>calls d sel. slot_main demo_fire demo_ctx demo_sel = (CODELET_SUCCESS, calls, Some d, sel)
     \<and> d_fh_buffer_index d = 1 \<and> d_fh_write_index d = 42"
proof -
  obtain calls d sel where m: "slot_main demo_fire demo_ctx demo_sel = (CODELET_SUCCESS, calls, Some d, sel)"
    and w: "d_bytes_written d = 733824"
    by (simp add: slot_main_def demo_fire_def demo_ctx_def temporal_filter_def publish_grid_def ladder_def Let_def
        E3_SLOT_BYTES_8P_def E3_SLOT_BYTES_4P_def slot_desc_of_def flag_defs)
  have "f_publish_rc demo_fire n sel = push_bit 32 (ucast (1 :: u8)) OR ucast (42 :: u32)" for n
    by (simp only: demo_fire_def fire_io.simps)
  from slot_descriptor_faithful[OF m this] w m show ?thesis by auto
qed

end
