(* ===== verification/Ecpri_Codelet.thy ===== *)
theory Ecpri_Codelet
  imports Jbpf_Io
begin

text \<open>
  The eCPRI codelet (\<^verbatim>\<open>codelets/ecpri_iq_samples/ecpri_iq_collect.c\<close>), which runs in the gNB on every fronthaul
  packet: it parses the Ethernet, VLAN, eCPRI, radio application, data section and compression headers
  (\<^verbatim>\<open>codelets/include/xran_format.h\<close>), keeps symbol 13 of slot 19, applies the PRB filter and the sampling
  period, and copies the compressed samples out.  A packet is a byte list; reading past its end is the
  outcome \<open>OutOfBounds\<close>.  jbpf is not in the repository: the answers of its calls are in \<open>ecpri_io\<close>.
  The multi-byte fields of the headers are big-endian.
\<close>

section \<open>State and inputs\<close>

record jbpf_ran_ofh_ctx =
  o_packet :: "u8 list"
  o_meta_data :: u64
  o_direction :: u8

record ecpri_io =
  v_entry_ns :: u64
  v_prb_msg :: "prb_filter_config option"
  v_prb_store :: bool
  v_prb_lookup :: bool
  v_period_lookup :: bool
  v_counter_lookup :: bool
  v_tmp_lookup :: bool
  v_codelet_ns :: u64
  v_output_rc :: i32

text \<open>The single elements of the array maps.\<close>

record ecpri_maps =
  m_prb_filter :: prb_filter_config
  m_sampling_period :: u32
  m_symbol_counter :: u32
  m_output_tmp :: iq_sample_data

definition zero_sample :: iq_sample_data where
  "zero_sample =
     \<lparr>iq_gnb_ts_ns = 0, iq_codelet_ts_ns = 0, iq_timestamp = 0, iq_direction = 0, iq_frame_id = 0,
      iq_comp_method = 0, iq_iq_width = 0, iq_subframe_id = 0, iq_slot_id = 0, iq_symbol_id = 0, iq_section_id = 0,
      iq_start_prbu = 0, iq_num_prbu = 0, iq_payload_size = 0, iq_payload = replicate MAX_IQ_PAYLOAD_BYTES 0\<rparr>"

section \<open>Parsing\<close>

definition ETH_P_8021Q :: u16 where "ETH_P_8021Q = 0x8100"
definition ECPRI_ETH_TYPE :: u16 where "ECPRI_ETH_TYPE = 0xAEFE"
definition ECPRI_IQ_DATA :: u8 where "ECPRI_IQ_DATA = 0"
definition SLOTS_PER_SUBFRAME :: u16 where "SLOTS_PER_SUBFRAME = 2"
definition TARGET_ABS_SLOT :: u16 where "TARGET_ABS_SLOT = 19"
definition TARGET_SYMBOL_ID :: u16 where "TARGET_SYMBOL_ID = 13"

text \<open>The parser stops with a return of the codelet or with a read outside the packet.\<close>

datatype stop = OutOfBounds | Return codelet_ret

fun bind_r :: "stop + 'a \<Rightarrow> ('a \<Rightarrow> stop + 'b) \<Rightarrow> stop + 'b" where
  "bind_r (Inl e) f = Inl e"
| "bind_r (Inr x) f = f x"

definition byte_at :: "u8 list \<Rightarrow> nat \<Rightarrow> stop + u8" where
  "byte_at pkt i = (if i < length pkt then Inr (pkt ! i) else Inl OutOfBounds)"

definition be16 :: "u8 list \<Rightarrow> nat \<Rightarrow> stop + u16" where
  "be16 pkt i = bind_r (byte_at pkt i) (\<lambda>a. bind_r (byte_at pkt (i + 1)) (\<lambda>b. Inr (push_bit 8 (ucast a) OR ucast b)))"

definition be32 :: "u8 list \<Rightarrow> nat \<Rightarrow> stop + u32" where
  "be32 pkt i = bind_r (be16 pkt i) (\<lambda>a. bind_r (be16 pkt (i + 2)) (\<lambda>b. Inr (push_bit 16 (ucast a) OR ucast b)))"

text \<open>\<^verbatim>\<open>if ((void *)(hdr + 1) >= pkt_end) return JBPF_CODELET_FAILURE;\<close>\<close>

definition room :: "u8 list \<Rightarrow> nat \<Rightarrow> stop + unit" where
  "room pkt hdr_end = (if hdr_end \<ge> length pkt then Inl (Return CODELET_FAILURE) else Inr ())"

definition parse_link :: "u8 list \<Rightarrow> stop + u16 \<times> nat" where
  "parse_link pkt =
     bind_r (room pkt 14) (\<lambda>_. bind_r (be16 pkt 12) (\<lambda>ether_type.
       if ether_type = ETH_P_8021Q
       then bind_r (room pkt 18) (\<lambda>_. bind_r (be16 pkt 16) (\<lambda>encapsulated. Inr (encapsulated, 18)))
       else Inr (ether_type, 14)))"

definition parse_ecpri :: "u8 list \<Rightarrow> stop + nat" where
  "parse_ecpri pkt =
     bind_r (parse_link pkt) (\<lambda>(ether_type, off).
       if ether_type \<noteq> ECPRI_ETH_TYPE then Inl (Return CODELET_FAILURE)
       else bind_r (room pkt (off + 8)) (\<lambda>_. bind_r (byte_at pkt (off + 1)) (\<lambda>mesg_type.
         if mesg_type \<noteq> ECPRI_IQ_DATA then Inl (Return CODELET_SUCCESS) else Inr (off + 8))))"

definition parse_radio_app :: "u8 list \<Rightarrow> stop + u16 \<times> nat" where
  "parse_radio_app pkt =
     bind_r (parse_ecpri pkt) (\<lambda>off.
       bind_r (room pkt (off + 4)) (\<lambda>_. bind_r (be16 pkt (off + 2)) (\<lambda>sf_slot_sym.
         let subframe_id = drop_bit 12 sf_slot_sym AND 0xF;
             slot_id = drop_bit 6 sf_slot_sym AND 0x3F;
             abs_slot = subframe_id * SLOTS_PER_SUBFRAME + slot_id;
             symbol_id = sf_slot_sym AND 0x3F
         in if abs_slot \<noteq> TARGET_ABS_SLOT then Inl (Return CODELET_SUCCESS)
            else if symbol_id \<noteq> TARGET_SYMBOL_ID then Inl (Return CODELET_SUCCESS)
            else Inr (sf_slot_sym, off))))"

text \<open>What the codelet keeps of the headers, and the offset of the samples.\<close>

record section_hdrs =
  k_frame_id :: u8
  k_sf_slot_sym :: u16
  k_sec_bits :: u32
  k_ud_comp_hdr :: u8
  k_iq_start :: nat

definition parse_packet :: "u8 list \<Rightarrow> stop + section_hdrs" where
  "parse_packet pkt =
     bind_r (parse_radio_app pkt) (\<lambda>(sf_slot_sym, app).
       bind_r (room pkt (app + 8)) (\<lambda>_. bind_r (room pkt (app + 10)) (\<lambda>_.
       bind_r (be32 pkt (app + 4)) (\<lambda>sec_bits. bind_r (byte_at pkt (app + 1)) (\<lambda>frame_id.
       bind_r (byte_at pkt (app + 8)) (\<lambda>ud_comp_hdr.
         Inr \<lparr>k_frame_id = frame_id, k_sf_slot_sym = sf_slot_sym, k_sec_bits = sec_bits,
              k_ud_comp_hdr = ud_comp_hdr, k_iq_start = app + 10\<rparr>))))))"

definition num_prbu_of :: "u32 \<Rightarrow> u16" where
  "num_prbu_of sec_bits = (let num_prbu = ucast (sec_bits AND 0xFF) in if num_prbu = 0 then 273 else num_prbu)"

section \<open>Filter, sampling and output\<close>

text \<open>The filter state after a waiting configuration, if any, is taken over.\<close>

definition prb_update :: "ecpri_io \<Rightarrow> ecpri_maps \<Rightarrow> ecpri_maps" where
  "prb_update io s =
     (case v_prb_msg io of
        Some new_cfg \<Rightarrow> if v_prb_store io then s\<lparr>m_prb_filter := new_cfg\<rparr> else s
      | None \<Rightarrow> s)"

definition prb_rejects :: "ecpri_io \<Rightarrow> u16 \<Rightarrow> ecpri_maps \<Rightarrow> bool" where
  "prb_rejects io num_prbu s \<longleftrightarrow>
     v_prb_lookup io \<and> expected_num_prbu (m_prb_filter s) > 0 \<and> num_prbu \<noteq> expected_num_prbu (m_prb_filter s)"

text \<open>Whether this packet is output, and the counter.\<close>

definition sample_tick :: "u32 \<Rightarrow> u32 \<Rightarrow> bool \<times> u32" where
  "sample_tick sampling_period counter =
     (if sampling_period > 0
      then let cnt = counter + 1 in if cnt < sampling_period then (False, cnt) else (True, 0)
      else (True, counter))"

text \<open>The bounded copy loop: \<open>src\<close> are the bytes up to \<^verbatim>\<open>pkt_end\<close>, \<open>dst\<close> is \<^verbatim>\<open>iq_payload\<close>.\<close>

function copy_payload :: "u8 list \<Rightarrow> nat \<Rightarrow> nat \<Rightarrow> u8 list \<Rightarrow> u8 list" where
  "copy_payload src copy_size i dst =
     (if i < MAX_IQ_PAYLOAD_BYTES then
        if i \<ge> copy_size then dst
        else if i + 1 > length src then dst
        else copy_payload src copy_size (i + 1) (dst[i := src ! i])
      else dst)"
  by pat_completeness auto
termination by (relation "measure (\<lambda>(_, _, i, _). MAX_IQ_PAYLOAD_BYTES - i)") auto

declare copy_payload.simps [simp del]

definition copy_size_of :: "nat \<Rightarrow> u16" where
  "copy_size_of avail =
     (let copy_size = of_nat avail in if unat copy_size > MAX_IQ_PAYLOAD_BYTES then of_nat MAX_IQ_PAYLOAD_BYTES else copy_size)"

definition fill_sample ::
    "ecpri_io \<Rightarrow> jbpf_ran_ofh_ctx \<Rightarrow> section_hdrs \<Rightarrow> iq_sample_data \<Rightarrow> iq_sample_data" where
  "fill_sample io ctx h tmp =
     (let sf_slot_sym = k_sf_slot_sym h;
          sec_bits = k_sec_bits h;
          src = drop (k_iq_start h) (o_packet ctx);
          copy_size = copy_size_of (length (o_packet ctx) - k_iq_start h)
      in \<lparr>iq_gnb_ts_ns = o_meta_data ctx, iq_codelet_ts_ns = v_codelet_ns io,
          iq_timestamp = (v_entry_ns io div 1000) AND 0x7FFFFFFF, iq_direction = o_direction ctx,
          iq_frame_id = k_frame_id h, iq_comp_method = k_ud_comp_hdr h AND 0xF, iq_iq_width = drop_bit 4 (k_ud_comp_hdr h),
          iq_subframe_id = drop_bit 12 sf_slot_sym AND 0xF, iq_slot_id = drop_bit 6 sf_slot_sym AND 0x3F,
          iq_symbol_id = sf_slot_sym AND 0x3F, iq_section_id = ucast (drop_bit 20 sec_bits AND 0xFFF),
          iq_start_prbu = ucast (drop_bit 8 sec_bits AND 0x3FF), iq_num_prbu = num_prbu_of sec_bits,
          iq_payload_size = copy_size, iq_payload = copy_payload src (unat copy_size) 0 (iq_payload tmp)\<rparr>)"

text \<open>
  One firing: the return code, the sample put into the ring buffer and the maps; \<open>None\<close> is a read outside the packet.
  \<^verbatim>\<open>jbpf_map_clear\<close> zeroes the entries of an array map, as jbpf documents it.
\<close>

definition ecpri_output ::
    "ecpri_io \<Rightarrow> jbpf_ran_ofh_ctx \<Rightarrow> section_hdrs \<Rightarrow> ecpri_maps \<Rightarrow> codelet_ret \<times> iq_sample_data option \<times> ecpri_maps" where
  "ecpri_output io ctx h s0 =
     (let s = prb_update io s0
      in if prb_rejects io (num_prbu_of (k_sec_bits h)) s then (CODELET_SUCCESS, None, s)
         else if \<not> v_period_lookup io then (CODELET_FAILURE, None, s)
         else if \<not> v_counter_lookup io then (CODELET_FAILURE, None, s)
         else case sample_tick (m_sampling_period s) (m_symbol_counter s) of
           (emit, counter) \<Rightarrow>
             let s1 = s\<lparr>m_symbol_counter := counter\<rparr>
             in if \<not> emit then (CODELET_SUCCESS, None, s1)
                else if \<not> v_tmp_lookup io then (CODELET_FAILURE, None, s1)
                else
                  let out = fill_sample io ctx h (m_output_tmp s1);
                      s2 = s1\<lparr>m_output_tmp := zero_sample\<rparr>
                  in if sint (v_output_rc io) < 0 then (CODELET_FAILURE, None, s2)
                     else (CODELET_SUCCESS, Some out, s2))"

definition ecpri_main ::
    "ecpri_io \<Rightarrow> jbpf_ran_ofh_ctx \<Rightarrow> ecpri_maps \<Rightarrow> (codelet_ret \<times> iq_sample_data option \<times> ecpri_maps) option" where
  "ecpri_main io ctx s =
     (case parse_packet (o_packet ctx) of
        Inl OutOfBounds \<Rightarrow> None
      | Inl (Return r) \<Rightarrow> Some (r, None, s)
      | Inr h \<Rightarrow> Some (ecpri_output io ctx h s))"

section \<open>Every read is inside the packet\<close>

lemma bind_r_Inr: "bind_r m f = Inr y \<longleftrightarrow> (\<exists>x. m = Inr x \<and> f x = Inr y)"
  by (cases m) auto

lemma bind_r_oob: "bind_r m f = Inl OutOfBounds \<longleftrightarrow> m = Inl OutOfBounds \<or> (\<exists>x. m = Inr x \<and> f x = Inl OutOfBounds)"
  by (cases m) auto

lemma room_Inr: "room pkt n = Inr x \<longleftrightarrow> n < length pkt"
  by (cases x) (simp add: room_def)

lemma room_oob: "room pkt n \<noteq> Inl OutOfBounds"
  by (simp add: room_def)

lemma reads_inside:
  "byte_at pkt i = Inl OutOfBounds \<longleftrightarrow> length pkt \<le> i"
  "be16 pkt i = Inl OutOfBounds \<longleftrightarrow> length pkt \<le> i + 1"
  "be32 pkt i = Inl OutOfBounds \<longleftrightarrow> length pkt \<le> i + 3"
proof -
  show b: "byte_at pkt i = Inl OutOfBounds \<longleftrightarrow> length pkt \<le> i" for i by (simp add: byte_at_def)
  show h: "be16 pkt i = Inl OutOfBounds \<longleftrightarrow> length pkt \<le> i + 1" for i
    by (auto simp: be16_def bind_r_oob b) (auto simp: byte_at_def)
  show "be32 pkt i = Inl OutOfBounds \<longleftrightarrow> length pkt \<le> i + 3"
    by (auto simp: be32_def bind_r_oob h) (auto simp: be16_def byte_at_def)
qed

lemmas parser_simps = bind_r_Inr bind_r_oob room_Inr room_oob reads_inside

lemma parse_link_inside: "parse_link pkt = Inr (t, off) \<Longrightarrow> off < length pkt" "parse_link pkt \<noteq> Inl OutOfBounds"
  by (auto simp: parse_link_def parser_simps split: if_splits)

lemma parse_ecpri_inside: "parse_ecpri pkt = Inr off \<Longrightarrow> off < length pkt" "parse_ecpri pkt \<noteq> Inl OutOfBounds"
  by (auto simp: parse_ecpri_def parser_simps parse_link_inside split: if_splits)

definition slot_time_ok :: "u16 \<Rightarrow> bool" where
  "slot_time_ok v \<longleftrightarrow> (drop_bit 12 v AND 0xF) * SLOTS_PER_SUBFRAME + (drop_bit 6 v AND 0x3F) = TARGET_ABS_SLOT
     \<and> v AND 0x3F = TARGET_SYMBOL_ID"

lemma parse_radio_app_inside:
  "parse_radio_app pkt = Inr (v, off) \<Longrightarrow> off + 4 < length pkt \<and> slot_time_ok v"
  "parse_radio_app pkt \<noteq> Inl OutOfBounds"
  by (auto simp: parse_radio_app_def parser_simps parse_ecpri_inside slot_time_ok_def Let_def split: if_splits)

lemma parse_packet_inside:
  "parse_packet pkt = Inr h \<Longrightarrow> k_iq_start h < length pkt \<and> slot_time_ok (k_sf_slot_sym h)"
  "parse_packet pkt \<noteq> Inl OutOfBounds"
  by (auto simp: parse_packet_def parser_simps parse_radio_app_inside split: if_splits
      dest: parse_radio_app_inside(1))

lemma copy_payload_prefix:
  assumes "copy_size \<le> length src" "copy_size \<le> MAX_IQ_PAYLOAD_BYTES" "i \<le> copy_size"
    and "length dst = MAX_IQ_PAYLOAD_BYTES"
  shows "copy_payload src copy_size i dst = take i dst @ drop i (take copy_size src) @ drop copy_size dst"
  using assms
proof (induction src copy_size i dst rule: copy_payload.induct)
  case (1 src n i dst)
  show ?case
  proof (cases "i < n")
    case True
    then have "copy_payload src n i dst = copy_payload src n (i + 1) (dst[i := src ! i])"
      using 1(2,3) by (subst copy_payload.simps) simp
    also have "\<dots> = take (i + 1) (dst[i := src ! i]) @ drop (i + 1) (take n src) @ drop n (dst[i := src ! i])"
      using 1 True by simp
    also have "\<dots> = take i dst @ drop i (take n src) @ drop n dst"
      using True 1(2,3,5) Cons_nth_drop_Suc[of i "take n src"] by (simp add: take_Suc_conv_app_nth)
    finally show ?thesis .
  next
    case False
    then have "i = n" using 1(4) by simp
    then show ?thesis by (subst copy_payload.simps) simp
  qed
qed

lemma copy_size_bounds: "unat (copy_size_of avail) \<le> avail" "unat (copy_size_of avail) \<le> MAX_IQ_PAYLOAD_BYTES"
proof -
  have "unat (of_nat avail :: u16) \<le> avail" by (simp add: unat_of_nat_mod)
  moreover have "unat (of_nat MAX_IQ_PAYLOAD_BYTES :: u16) = MAX_IQ_PAYLOAD_BYTES" by (simp add: MAX_IQ_PAYLOAD_BYTES_def)
  ultimately show "unat (copy_size_of avail) \<le> avail" "unat (copy_size_of avail) \<le> MAX_IQ_PAYLOAD_BYTES"
    by (auto simp: copy_size_of_def Let_def)
qed

lemma copy_size_exact: "avail < 65536 \<Longrightarrow> unat (copy_size_of avail) = min avail MAX_IQ_PAYLOAD_BYTES"
  by (auto simp: copy_size_of_def Let_def unat_of_nat_mod MAX_IQ_PAYLOAD_BYTES_def min_def)

lemma fill_sample_payload:
  assumes "length (iq_payload tmp) = MAX_IQ_PAYLOAD_BYTES"
  shows "iq_payload (fill_sample io ctx h tmp)
    = take (unat (iq_payload_size (fill_sample io ctx h tmp))) (drop (k_iq_start h) (o_packet ctx))
      @ drop (unat (iq_payload_size (fill_sample io ctx h tmp))) (iq_payload tmp)"
  using assms copy_size_bounds[of "length (o_packet ctx) - k_iq_start h"]
  by (simp add: fill_sample_def Let_def copy_payload_prefix)

section \<open>One firing\<close>

lemma ecpri_output_cases:
  assumes "ecpri_output io ctx h s = (ret, out, s')"
  shows "m_output_tmp s' = m_output_tmp s \<and> out = None
    \<or> m_output_tmp s' = zero_sample \<and> (out = None \<or> out = Some (fill_sample io ctx h (m_output_tmp s)))"
proof -
  have [simp]: "m_output_tmp (prb_update io s) = m_output_tmp s" by (simp add: prb_update_def split: option.split)
  show ?thesis using assms by (auto simp: ecpri_output_def Let_def split: if_splits prod.splits)
qed

lemma slot_time_fields:
  assumes "slot_time_ok v"
  shows "unat (drop_bit 12 v AND 0xF) * 2 + unat (drop_bit 6 v AND 0x3F) = 19" "v AND 0x3F = 13"
proof -
  have m: "(0xF :: u16) = mask 4" "(0x3F :: u16) = mask 6" by (simp_all add: mask_eq_exp_minus_1)
  have a: "unat (drop_bit 12 v AND 0xF) < 16" "unat (drop_bit 6 v AND 0x3F) < 64"
    unfolding m by (simp_all add: unat_and_mask)
  then have "unat ((drop_bit 12 v AND 0xF) * SLOTS_PER_SUBFRAME + (drop_bit 6 v AND 0x3F))
      = unat (drop_bit 12 v AND 0xF) * 2 + unat (drop_bit 6 v AND 0x3F)"
    by (simp add: SLOTS_PER_SUBFRAME_def unat_word_ariths)
  moreover have "unat TARGET_ABS_SLOT = 19" by (simp add: TARGET_ABS_SLOT_def)
  ultimately show "unat (drop_bit 12 v AND 0xF) * 2 + unat (drop_bit 6 v AND 0x3F) = 19"
    using assms by (simp add: slot_time_ok_def)
  show "v AND 0x3F = 13" using assms by (simp add: slot_time_ok_def TARGET_SYMBOL_ID_def)
qed

text \<open>C35.
  Whatever bytes arrive, the codelet reads only inside the packet and returns, and leaves its scratch
  element cleared for the next firing.  A sample it outputs belongs to symbol 13 of slot 19, claims at most
  8192 payload bytes, and its payload array holds exactly that many consecutive bytes of the packet, from
  behind the headers, followed by zeros: nothing of an earlier packet leaks into it.\<close>

theorem ecpri_fire_safe:
  assumes "m_output_tmp s = zero_sample"
  shows "\<exists>ret out s'. ecpri_main io ctx s = Some (ret, out, s') \<and> m_output_tmp s' = zero_sample
    \<and> (\<forall>d. out = Some d \<longrightarrow> iq_symbol_id d = 13 \<and> unat (iq_subframe_id d) * 2 + unat (iq_slot_id d) = 19
        \<and> unat (iq_payload_size d) \<le> 8192
        \<and> (\<exists>hdrs n rest. n = unat (iq_payload_size d) \<and> o_packet ctx = hdrs @ take n (iq_payload d) @ rest
            \<and> length (take n (iq_payload d)) = n \<and> drop n (iq_payload d) = replicate (8192 - n) 0))"
proof (cases "parse_packet (o_packet ctx)")
  case (Inl e)
  then obtain r where "e = Return r" using parse_packet_inside(2)[of "o_packet ctx"] by (cases e) auto
  then show ?thesis using Inl assms by (simp add: ecpri_main_def)
next
  case (Inr h)
  obtain ret out s' where o: "ecpri_output io ctx h s = (ret, out, s')" by (cases "ecpri_output io ctx h s")
  let ?d = "fill_sample io ctx h zero_sample"
  let ?n = "unat (iq_payload_size ?d)" and ?src = "drop (k_iq_start h) (o_packet ctx)"
  have z: "length (iq_payload zero_sample) = MAX_IQ_PAYLOAD_BYTES" by (simp add: zero_sample_def)
  note ins = parse_packet_inside(1)[OF Inr]
  have n: "?n \<le> length ?src" "?n \<le> 8192"
    using copy_size_bounds[of "length (o_packet ctx) - k_iq_start h"]
    by (simp_all add: fill_sample_def Let_def MAX_IQ_PAYLOAD_BYTES_def)
  have pay: "take ?n (iq_payload ?d) = take ?n ?src" "drop ?n (iq_payload ?d) = replicate (8192 - ?n) 0"
    using n by (simp_all add: fill_sample_payload[OF z]) (simp add: zero_sample_def MAX_IQ_PAYLOAD_BYTES_def)
  have "o_packet ctx = take (k_iq_start h) (o_packet ctx) @ take ?n (iq_payload ?d) @ drop ?n ?src"
    unfolding pay append_take_drop_id by simp
  then have "\<exists>hdrs n rest. n = ?n \<and> o_packet ctx = hdrs @ take n (iq_payload ?d) @ rest
      \<and> length (take n (iq_payload ?d)) = n \<and> drop n (iq_payload ?d) = replicate (8192 - n) 0"
    using n pay by (metis length_take min.absorb2)
  moreover have "iq_symbol_id ?d = 13" "unat (iq_subframe_id ?d) * 2 + unat (iq_slot_id ?d) = 19"
    using slot_time_fields[of "k_sf_slot_sym h"] ins by (simp_all add: fill_sample_def Let_def)
  ultimately show ?thesis
    using ecpri_output_cases[OF o] o Inr assms n(2) by (auto simp: ecpri_main_def)
qed

section \<open>Sampling\<close>






section \<open>Packets on the wire\<close>

text \<open>
  An uplink user-plane packet as the O-RAN fronthaul specification lays it out, in transmission order: field
  values as numbers, multi-byte fields big-endian.  \<open>ofh_bytes\<close> is written independently of the parser.
\<close>

record ofh_packet =
  pk_macs :: "u8 list"
  pk_vlan_tci :: "u16 option"
  pk_ecpri_version :: u8
  pk_ecpri_payl_size :: u16
  pk_xtc_id :: u16
  pk_seq_id :: u16
  pk_data_feature :: u8
  pk_frame :: u8
  pk_subframe :: nat
  pk_slot :: nat
  pk_symbol :: nat
  pk_section :: nat
  pk_rb :: nat
  pk_sym_inc :: nat
  pk_start_prbu :: nat
  pk_num_prbu :: nat
  pk_iq_width :: nat
  pk_comp_meth :: nat
  pk_reserved :: u8
  pk_payload :: "u8 list"

definition u16_be :: "u16 \<Rightarrow> u8 list" where
  "u16_be v = [ucast (drop_bit 8 v), ucast v]"

definition u32_be :: "u32 \<Rightarrow> u8 list" where
  "u32_be v = u16_be (ucast (drop_bit 16 v)) @ u16_be (ucast v)"

definition pk_sf_slot_sym :: "ofh_packet \<Rightarrow> u16" where
  "pk_sf_slot_sym p = of_nat (pk_subframe p * 4096 + pk_slot p * 64 + pk_symbol p)"

definition pk_sec_bits :: "ofh_packet \<Rightarrow> u32" where
  "pk_sec_bits p = of_nat (pk_section p * 1048576 + pk_rb p * 524288 + pk_sym_inc p * 262144 + pk_start_prbu p * 256 + pk_num_prbu p)"

definition ofh_bytes :: "ofh_packet \<Rightarrow> u8 list" where
  "ofh_bytes p = pk_macs p
     @ (case pk_vlan_tci p of None \<Rightarrow> [] | Some tci \<Rightarrow> u16_be 0x8100 @ u16_be tci) @ u16_be 0xAEFE
     @ [pk_ecpri_version p, 0] @ u16_be (pk_ecpri_payl_size p) @ u16_be (pk_xtc_id p) @ u16_be (pk_seq_id p)
     @ [pk_data_feature p, pk_frame p] @ u16_be (pk_sf_slot_sym p)
     @ u32_be (pk_sec_bits p)
     @ [of_nat (pk_iq_width p * 16 + pk_comp_meth p), pk_reserved p] @ pk_payload p"

definition ofh_ok :: "ofh_packet \<Rightarrow> bool" where
  "ofh_ok p \<longleftrightarrow> length (pk_macs p) = 12 \<and> pk_subframe p < 16 \<and> pk_slot p < 64 \<and> pk_symbol p < 64
     \<and> pk_section p < 4096 \<and> pk_rb p < 2 \<and> pk_sym_inc p < 2 \<and> pk_start_prbu p < 1024 \<and> pk_num_prbu p < 256
     \<and> pk_iq_width p < 16 \<and> pk_comp_meth p < 16 \<and> pk_payload p \<noteq> []"

lemma join16: "push_bit 8 (ucast (ucast (drop_bit 8 v) :: u8)) OR ucast (ucast v :: u8) = v" for v :: u16
  using u16_bytes_join[of v] by (simp add: or.commute)

lemma join32: "push_bit 16 (ucast (ucast (drop_bit 16 v) :: u16)) OR ucast (ucast v :: u16) = v" for v :: u32
  by (rule bit_word_eqI) (auto simp: bit_or_iff bit_push_bit_iff bit_ucast_iff bit_drop_bit_eq)

lemma byte_at_app: "i = length xs \<Longrightarrow> byte_at (xs @ b # ys) i = Inr b"
  by (simp add: byte_at_def)

lemma be16_app: "i = length xs \<Longrightarrow> be16 (xs @ u16_be v @ ys) i = Inr v"
  using join16[of v] by (simp add: be16_def byte_at_def u16_be_def nth_append)

lemma be32_app: "i = length xs \<Longrightarrow> be32 (xs @ u32_be v @ ys) i = Inr v"
proof -
  assume i: "i = length xs"
  have "be16 (xs @ u32_be v @ ys) i = Inr (ucast (drop_bit 16 v))"
    using be16_app[OF i, of "ucast (drop_bit 16 v)" "u16_be (ucast v) @ ys"] by (simp add: u32_be_def)
  moreover have "be16 ((xs @ u16_be (ucast (drop_bit 16 v))) @ u16_be (ucast v) @ ys) (i + 2) = Inr (ucast v)"
    by (rule be16_app) (simp add: i u16_be_def)
  then have "be16 (xs @ u32_be v @ ys) (i + 2) = Inr (ucast v)" by (simp add: u32_be_def)
  ultimately show ?thesis using join32[of v] by (simp only: be32_def bind_r.simps)
qed

definition pk_link :: "ofh_packet \<Rightarrow> u8 list" where
  "pk_link p = pk_macs p @ (case pk_vlan_tci p of None \<Rightarrow> [] | Some tci \<Rightarrow> u16_be 0x8100 @ u16_be tci) @ u16_be 0xAEFE"

definition pk_ecpri :: "ofh_packet \<Rightarrow> u8 list" where
  "pk_ecpri p = [pk_ecpri_version p, 0] @ u16_be (pk_ecpri_payl_size p) @ u16_be (pk_xtc_id p) @ u16_be (pk_seq_id p)"

lemma u16_be_length [simp]: "length (u16_be v) = 2"
  by (simp add: u16_be_def)

lemma u32_be_length [simp]: "length (u32_be v) = 4"
  by (simp add: u32_be_def)

lemma pk_ecpri_length [simp]: "length (pk_ecpri p) = 8"
  by (simp add: pk_ecpri_def)

text \<open>The tail of the packet behind the eCPRI header.\<close>

definition pk_app :: "ofh_packet \<Rightarrow> u8 list" where
  "pk_app p = [pk_data_feature p, pk_frame p] @ u16_be (pk_sf_slot_sym p) @ u32_be (pk_sec_bits p)
     @ [of_nat (pk_iq_width p * 16 + pk_comp_meth p), pk_reserved p] @ pk_payload p"

lemma ofh_bytes_parts: "ofh_bytes p = pk_link p @ pk_ecpri p @ pk_app p"
  by (simp add: ofh_bytes_def pk_link_def pk_ecpri_def pk_app_def)

lemma pk_app_length: "ofh_ok p \<Longrightarrow> 10 < length (pk_app p)"
  by (simp add: pk_app_def ofh_ok_def)

lemma parse_link_built:
  assumes "ofh_ok p"
  shows "parse_link (ofh_bytes p) = Inr (ECPRI_ETH_TYPE, length (pk_link p))"
proof -
  have m: "length (pk_macs p) = 12" using assms by (simp add: ofh_ok_def)
  let ?rest = "pk_ecpri p @ pk_app p"
  show ?thesis
  proof (cases "pk_vlan_tci p")
    case None
    then have b: "ofh_bytes p = pk_macs p @ u16_be 0xAEFE @ ?rest" by (simp add: ofh_bytes_parts pk_link_def)
    have "be16 (ofh_bytes p) 12 = Inr 0xAEFE" unfolding b by (rule be16_app) (simp add: m)
    moreover have "room (ofh_bytes p) 14 = Inr ()" by (simp add: room_Inr b m)
    ultimately show ?thesis using None m
      by (simp add: parse_link_def ETH_P_8021Q_def ECPRI_ETH_TYPE_def pk_link_def)
  next
    case (Some tci)
    then have b: "ofh_bytes p = pk_macs p @ u16_be 0x8100 @ (u16_be tci @ u16_be 0xAEFE @ ?rest)"
      by (simp add: ofh_bytes_parts pk_link_def)
    then have c: "ofh_bytes p = (pk_macs p @ u16_be 0x8100 @ u16_be tci) @ u16_be 0xAEFE @ ?rest" by simp
    have "be16 (ofh_bytes p) 12 = Inr 0x8100" unfolding b by (rule be16_app) (simp add: m)
    moreover have "be16 (ofh_bytes p) 16 = Inr 0xAEFE" unfolding c by (rule be16_app) (simp add: m)
    moreover have "room (ofh_bytes p) 14 = Inr ()" "room (ofh_bytes p) 18 = Inr ()" by (simp_all add: room_Inr b m)
    ultimately show ?thesis using Some m
      by (simp add: parse_link_def ETH_P_8021Q_def ECPRI_ETH_TYPE_def pk_link_def)
  qed
qed

lemma parse_ecpri_built:
  assumes "ofh_ok p"
  shows "parse_ecpri (ofh_bytes p) = Inr (length (pk_link p) + 8)"
proof -
  have "byte_at (ofh_bytes p) (length (pk_link p) + 1) = Inr 0"
    by (simp add: ofh_bytes_parts byte_at_def nth_append pk_ecpri_def)
  moreover have "room (ofh_bytes p) (length (pk_link p) + 8) = Inr ()"
    using pk_app_length[OF assms] by (auto simp: room_Inr ofh_bytes_parts)
  ultimately show ?thesis by (simp add: parse_ecpri_def parse_link_built[OF assms] ECPRI_IQ_DATA_def)
qed

lemma parse_radio_app_built:
  assumes "ofh_ok p"
  shows "parse_radio_app (ofh_bytes p) = (if slot_time_ok (pk_sf_slot_sym p)
    then Inr (pk_sf_slot_sym p, length (pk_link p) + 8) else Inl (Return CODELET_SUCCESS))"
proof -
  let ?off = "length (pk_link p) + 8"
  have b: "ofh_bytes p = (pk_link p @ pk_ecpri p @ [pk_data_feature p, pk_frame p]) @ u16_be (pk_sf_slot_sym p)
      @ (u32_be (pk_sec_bits p) @ [of_nat (pk_iq_width p * 16 + pk_comp_meth p), pk_reserved p] @ pk_payload p)"
    by (simp add: ofh_bytes_parts pk_app_def)
  have "be16 (ofh_bytes p) (?off + 2) = Inr (pk_sf_slot_sym p)" unfolding b by (rule be16_app) simp
  moreover have "room (ofh_bytes p) (?off + 4) = Inr ()"
    using pk_app_length[OF assms] by (simp add: room_Inr ofh_bytes_parts)
  ultimately show ?thesis
    by (auto simp: parse_radio_app_def parse_ecpri_built[OF assms] slot_time_ok_def Let_def)
qed

lemma parse_packet_built:
  assumes "ofh_ok p"
  shows "parse_packet (ofh_bytes p) = (if slot_time_ok (pk_sf_slot_sym p)
    then Inr \<lparr>k_frame_id = pk_frame p, k_sf_slot_sym = pk_sf_slot_sym p, k_sec_bits = pk_sec_bits p,
        k_ud_comp_hdr = of_nat (pk_iq_width p * 16 + pk_comp_meth p), k_iq_start = length (pk_link p) + 18\<rparr>
    else Inl (Return CODELET_SUCCESS))"
proof -
  let ?off = "length (pk_link p) + 8" and ?c = "of_nat (pk_iq_width p * 16 + pk_comp_meth p)"
  let ?pre = "pk_link p @ pk_ecpri p @ [pk_data_feature p, pk_frame p] @ u16_be (pk_sf_slot_sym p)"
  have b: "ofh_bytes p = ?pre @ u32_be (pk_sec_bits p) @ (?c # pk_reserved p # pk_payload p)"
    and d: "ofh_bytes p = (?pre @ u32_be (pk_sec_bits p)) @ ?c # (pk_reserved p # pk_payload p)"
    and e: "ofh_bytes p = (pk_link p @ pk_ecpri p @ [pk_data_feature p]) @ pk_frame p # drop 2 (pk_app p)"
    by (simp_all add: ofh_bytes_parts pk_app_def)
  have "be32 (ofh_bytes p) (?off + 4) = Inr (pk_sec_bits p)" unfolding b by (rule be32_app) simp
  moreover have "byte_at (ofh_bytes p) (?off + 8) = Inr ?c" unfolding d by (rule byte_at_app) simp
  moreover have "byte_at (ofh_bytes p) (?off + 1) = Inr (pk_frame p)" unfolding e by (rule byte_at_app) simp
  moreover have "room (ofh_bytes p) (?off + 8) = Inr ()" "room (ofh_bytes p) (?off + 10) = Inr ()"
    using pk_app_length[OF assms] by (simp_all add: room_Inr ofh_bytes_parts)
  ultimately show ?thesis by (simp add: parse_packet_def parse_radio_app_built[OF assms])
qed

section \<open>Fields\<close>

lemma word_field:
  fixes v :: "'a::len word"
  assumes "unat v = N" and "N div 2 ^ n mod 2 ^ k = x"
  shows "drop_bit n v AND mask k = of_nat x"
proof -
  have "unat (drop_bit n v AND mask k) = x"
    using assms by (simp add: unat_and_mask unat_drop_bit_eq drop_bit_eq_div[of n N])
  moreover have "of_nat (unat w) = w" for w :: "'a word" by simp
  ultimately show ?thesis by metis
qed

lemma nat_field: "r < m \<Longrightarrow> a < k \<Longrightarrow> ((h * k + a) * m + r) div m mod k = a" for r :: nat
  by simp

lemma sf_slot_sym_fields:
  assumes "ofh_ok p"
  shows "drop_bit 12 (pk_sf_slot_sym p) AND 0xF = of_nat (pk_subframe p)"
    and "drop_bit 6 (pk_sf_slot_sym p) AND 0x3F = of_nat (pk_slot p)"
    and "pk_sf_slot_sym p AND 0x3F = of_nat (pk_symbol p)"
proof -
  have m: "(0xF :: u16) = mask 4" "(0x3F :: u16) = mask 6" by (simp_all add: mask_eq_exp_minus_1)
  note b = assms[unfolded ofh_ok_def]
  let ?N = "pk_subframe p * 4096 + pk_slot p * 64 + pk_symbol p"
  have u: "unat (pk_sf_slot_sym p) = ?N" unfolding pk_sf_slot_sym_def unat_of_nat_mod using b by simp
  have d: "?N div 2 ^ 12 mod 2 ^ 4 = pk_subframe p" "?N div 2 ^ 6 mod 2 ^ 6 = pk_slot p" "?N div 2 ^ 0 mod 2 ^ 6 = pk_symbol p"
    using b nat_field[of "pk_slot p * 64 + pk_symbol p" 4096 "pk_subframe p" 16 0]
      nat_field[of "pk_symbol p" 64 "pk_slot p" 64 "pk_subframe p"]
      nat_field[of 0 1 "pk_symbol p" 64 "pk_subframe p * 64 + pk_slot p"]
    by (simp_all add: algebra_simps)
  show "drop_bit 12 (pk_sf_slot_sym p) AND 0xF = of_nat (pk_subframe p)"
    unfolding m by (rule word_field[OF u d(1)])
  show "drop_bit 6 (pk_sf_slot_sym p) AND 0x3F = of_nat (pk_slot p)"
    unfolding m by (rule word_field[OF u d(2)])
  show "pk_sf_slot_sym p AND 0x3F = of_nat (pk_symbol p)"
    unfolding m using word_field[OF u d(3)] by simp
qed

lemma sec_bits_fields:
  assumes "ofh_ok p"
  shows "drop_bit 20 (pk_sec_bits p) AND 0xFFF = of_nat (pk_section p)"
    and "drop_bit 8 (pk_sec_bits p) AND 0x3FF = of_nat (pk_start_prbu p)"
    and "pk_sec_bits p AND 0xFF = of_nat (pk_num_prbu p)"
proof -
  have m: "(0xFFF :: u32) = mask 12" "(0x3FF :: u32) = mask 10" "(0xFF :: u32) = mask 8"
    by (simp_all add: mask_eq_exp_minus_1)
  note b = assms[unfolded ofh_ok_def]
  let ?N = "pk_section p * 1048576 + pk_rb p * 524288 + pk_sym_inc p * 262144 + pk_start_prbu p * 256 + pk_num_prbu p"
  have u: "unat (pk_sec_bits p) = ?N" unfolding pk_sec_bits_def unat_of_nat_mod using b by simp
  have d: "?N div 2 ^ 20 mod 2 ^ 12 = pk_section p" "?N div 2 ^ 8 mod 2 ^ 10 = pk_start_prbu p"
    "?N div 2 ^ 0 mod 2 ^ 8 = pk_num_prbu p"
    using b nat_field[of "pk_rb p * 524288 + pk_sym_inc p * 262144 + pk_start_prbu p * 256 + pk_num_prbu p" 1048576
        "pk_section p" 4096 0]
      nat_field[of "pk_num_prbu p" 256 "pk_start_prbu p" 1024 "pk_section p * 4 + pk_rb p * 2 + pk_sym_inc p"]
      nat_field[of 0 1 "pk_num_prbu p" 256
        "pk_section p * 4096 + pk_rb p * 2048 + pk_sym_inc p * 1024 + pk_start_prbu p"]
    by (simp_all add: algebra_simps)
  show "drop_bit 20 (pk_sec_bits p) AND 0xFFF = of_nat (pk_section p)"
    unfolding m by (rule word_field[OF u d(1)])
  show "drop_bit 8 (pk_sec_bits p) AND 0x3FF = of_nat (pk_start_prbu p)"
    unfolding m by (rule word_field[OF u d(2)])
  show "pk_sec_bits p AND 0xFF = of_nat (pk_num_prbu p)"
    unfolding m using word_field[OF u d(3)] by simp
qed

lemma ud_comp_fields:
  assumes "w < 16" "c < 16"
  shows "(of_nat (w * 16 + c) :: u8) AND 0xF = of_nat c" "drop_bit 4 (of_nat (w * 16 + c) :: u8) = of_nat w"
proof -
  have m: "(0xF :: u8) = mask 4" by (simp add: mask_eq_exp_minus_1)
  have u: "unat (of_nat (w * 16 + c) :: u8) = w * 16 + c" unfolding unat_of_nat_mod using assms by simp
  have d: "(w * 16 + c) div 2 ^ 0 mod 2 ^ 4 = c" "(w * 16 + c) div 2 ^ 4 mod 2 ^ 8 = w" using assms by simp_all
  show "(of_nat (w * 16 + c) :: u8) AND 0xF = of_nat c" unfolding m using word_field[OF u d(1)] by simp
  have "drop_bit 4 (of_nat (w * 16 + c) :: u8) AND mask 8 = of_nat w" by (rule word_field[OF u d(2)])
  moreover have "x AND mask 8 = x" for x :: u8 by (simp flip: take_bit_eq_mask add: take_bit_word_eq_self)
  ultimately show "drop_bit 4 (of_nat (w * 16 + c) :: u8) = of_nat w" by (simp only:)
qed

lemma slot_time_built:
  assumes "ofh_ok p"
  shows "slot_time_ok (pk_sf_slot_sym p) \<longleftrightarrow> pk_subframe p * 2 + pk_slot p = 19 \<and> pk_symbol p = 13"
proof -
  have e: "(of_nat n :: u16) = of_nat k \<longleftrightarrow> n = k" if "n < 65536" "k < 65536" for n k
    using that by (simp add: word_unat_eq_iff unat_of_nat_mod)
  have "(of_nat (pk_subframe p) :: u16) * 2 + of_nat (pk_slot p) = of_nat (pk_subframe p * 2 + pk_slot p)" by simp
  then show ?thesis
    using assms e[of "pk_subframe p * 2 + pk_slot p" 19] e[of "pk_symbol p" 13]
    by (simp add: slot_time_ok_def sf_slot_sym_fields[OF assms] SLOTS_PER_SUBFRAME_def TARGET_ABS_SLOT_def
        TARGET_SYMBOL_ID_def ofh_ok_def)
qed

section \<open>A built packet comes out as it went in\<close>

text \<open>The sample of a packet, written from its fields.\<close>

definition sample_of_packet :: "u64 \<Rightarrow> u64 \<Rightarrow> u64 \<Rightarrow> u8 \<Rightarrow> ofh_packet \<Rightarrow> iq_sample_data" where
  "sample_of_packet entry_ns exit_ns meta dir p =
     (let data = take 8192 (pk_payload p)
      in \<lparr>iq_gnb_ts_ns = meta, iq_codelet_ts_ns = exit_ns, iq_timestamp = (entry_ns div 1000) AND 0x7FFFFFFF,
          iq_direction = dir, iq_frame_id = pk_frame p, iq_comp_method = of_nat (pk_comp_meth p),
          iq_iq_width = of_nat (pk_iq_width p), iq_subframe_id = of_nat (pk_subframe p), iq_slot_id = of_nat (pk_slot p),
          iq_symbol_id = of_nat (pk_symbol p), iq_section_id = of_nat (pk_section p), iq_start_prbu = of_nat (pk_start_prbu p),
          iq_num_prbu = (if pk_num_prbu p = 0 then 273 else of_nat (pk_num_prbu p)),
          iq_payload_size = of_nat (length data), iq_payload = data @ replicate (8192 - length data) 0\<rparr>)"

definition packet_num_prbu :: "ofh_packet \<Rightarrow> u16" where
  "packet_num_prbu p = (if pk_num_prbu p = 0 then 273 else of_nat (pk_num_prbu p))"

lemma num_prbu_built:
  assumes "ofh_ok p"
  shows "num_prbu_of (pk_sec_bits p) = packet_num_prbu p"
proof -
  have n: "pk_num_prbu p < 256" using assms by (simp add: ofh_ok_def)
  have "unat (ucast (of_nat (pk_num_prbu p) :: u32) :: u16) = pk_num_prbu p"
    using n by (simp add: unsigned_ucast_eq unsigned_of_nat take_bit_nat_eq_self)
  then have "ucast (of_nat (pk_num_prbu p) :: u32) = (of_nat (pk_num_prbu p) :: u16)"
    using n by (simp add: word_unat_eq_iff unat_of_nat_mod)
  moreover have "(of_nat (pk_num_prbu p) :: u16) = 0 \<longleftrightarrow> pk_num_prbu p = 0"
    using n by (simp add: word_unat_eq_iff unat_of_nat_mod)
  ultimately show ?thesis
    by (simp only: num_prbu_of_def packet_num_prbu_def Let_def sec_bits_fields(3)[OF assms])
qed

lemma ucast_of_nat_u32: "n < 65536 \<Longrightarrow> (ucast (of_nat n :: u32) :: u16) = of_nat n"
  by (simp add: word_unat_eq_iff unsigned_ucast_eq unsigned_of_nat take_bit_nat_eq_self)

lemma fill_sample_built:
  assumes "ofh_ok p" and "length (pk_payload p) < 65536" and "o_packet ctx = ofh_bytes p"
    and "k_frame_id h = pk_frame p" "k_sf_slot_sym h = pk_sf_slot_sym p" "k_sec_bits h = pk_sec_bits p"
      "k_ud_comp_hdr h = of_nat (pk_iq_width p * 16 + pk_comp_meth p)" "k_iq_start h = length (pk_link p) + 18"
  shows "fill_sample io ctx h zero_sample
    = sample_of_packet (v_entry_ns io) (v_codelet_ns io) (o_meta_data ctx) (o_direction ctx) p"
proof -
  let ?d = "fill_sample io ctx h zero_sample"
  have z: "length (iq_payload zero_sample) = MAX_IQ_PAYLOAD_BYTES" by (simp add: zero_sample_def)
  have src: "drop (k_iq_start h) (o_packet ctx) = pk_payload p"
    by (simp add: assms(3,8) ofh_bytes_parts pk_app_def)
  then have avail: "length (o_packet ctx) - k_iq_start h = length (pk_payload p)"
    by (metis length_drop)
  have n: "unat (iq_payload_size ?d) = min (length (pk_payload p)) 8192"
    using copy_size_exact[OF assms(2)] by (simp add: fill_sample_def Let_def avail MAX_IQ_PAYLOAD_BYTES_def)
  then have size: "iq_payload_size ?d = of_nat (min (length (pk_payload p)) 8192)"
    by (simp add: word_unat_eq_iff unat_of_nat_mod)
  have pay: "iq_payload ?d = take 8192 (pk_payload p) @ replicate (8192 - length (take 8192 (pk_payload p))) 0"
    using fill_sample_payload[OF z, of io ctx h] unfolding n src
    by (simp add: zero_sample_def MAX_IQ_PAYLOAD_BYTES_def min_def)
  have b: "pk_iq_width p < 16" "pk_comp_meth p < 16" "pk_section p < 4096" "pk_start_prbu p < 1024"
    using assms(1) by (simp_all add: ofh_ok_def)
  have f: "iq_gnb_ts_ns ?d = o_meta_data ctx" "iq_codelet_ts_ns ?d = v_codelet_ns io"
    "iq_timestamp ?d = (v_entry_ns io div 1000) AND 0x7FFFFFFF" "iq_direction ?d = o_direction ctx"
    "iq_frame_id ?d = pk_frame p" "iq_comp_method ?d = of_nat (pk_comp_meth p)" "iq_iq_width ?d = of_nat (pk_iq_width p)"
    by (simp_all only: fill_sample_def Let_def iq_sample_data.select_convs assms ud_comp_fields[OF b(1,2)])
  have g: "iq_subframe_id ?d = of_nat (pk_subframe p)" "iq_slot_id ?d = of_nat (pk_slot p)"
    "iq_symbol_id ?d = of_nat (pk_symbol p)" "iq_section_id ?d = of_nat (pk_section p)"
    "iq_start_prbu ?d = of_nat (pk_start_prbu p)" "iq_num_prbu ?d = packet_num_prbu p"
    using b by (simp_all only: fill_sample_def Let_def iq_sample_data.select_convs assms sf_slot_sym_fields[OF assms(1)]
        sec_bits_fields[OF assms(1)] num_prbu_built[OF assms(1)]) (simp_all add: ucast_of_nat_u32)
  show ?thesis
    by (rule iq_sample_data.equality)
      (simp_all add: f g pay size sample_of_packet_def packet_num_prbu_def Let_def min.commute)
qed

definition calls_succeed :: "ecpri_io \<Rightarrow> bool" where
  "calls_succeed io \<longleftrightarrow> v_prb_lookup io \<and> v_period_lookup io \<and> v_counter_lookup io \<and> v_tmp_lookup io \<and> 0 \<le> sint (v_output_rc io)"

lemma ecpri_main_built:
  assumes "ofh_ok p" "length (pk_payload p) < 65536" "o_packet ctx = ofh_bytes p"
    and "m_output_tmp s = zero_sample" "m_sampling_period s = 0" "calls_succeed io" "v_prb_msg io = None"
  shows "ecpri_main io ctx s = Some (CODELET_SUCCESS,
      if pk_subframe p * 2 + pk_slot p = 19 \<and> pk_symbol p = 13
        \<and> (expected_num_prbu (m_prb_filter s) = 0 \<or> packet_num_prbu p = expected_num_prbu (m_prb_filter s))
      then Some (sample_of_packet (v_entry_ns io) (v_codelet_ns io) (o_meta_data ctx) (o_direction ctx) p) else None, s)"
proof (cases "slot_time_ok (pk_sf_slot_sym p)")
  case False
  then show ?thesis
    using slot_time_built[OF assms(1)] by (auto simp: ecpri_main_def assms(3) parse_packet_built[OF assms(1)])
next
  case True
  let ?h = "\<lparr>k_frame_id = pk_frame p, k_sf_slot_sym = pk_sf_slot_sym p, k_sec_bits = pk_sec_bits p,
      k_ud_comp_hdr = of_nat (pk_iq_width p * 16 + pk_comp_meth p), k_iq_start = length (pk_link p) + 18\<rparr>"
  have m: "ecpri_main io ctx s = Some (ecpri_output io ctx ?h s)"
    using True by (simp only: ecpri_main_def assms(3) parse_packet_built[OF assms(1)] if_True sum.case)
  have f: "fill_sample io ctx ?h zero_sample
      = sample_of_packet (v_entry_ns io) (v_codelet_ns io) (o_meta_data ctx) (o_direction ctx) p"
    by (rule fill_sample_built[OF assms(1-3)]) simp_all
  have u: "prb_update io s = s" "s\<lparr>m_output_tmp := zero_sample\<rparr> = s" "sample_tick 0 c = (True, c)"
    "s\<lparr>m_symbol_counter := m_symbol_counter s\<rparr> = s" for c
    using assms(4,7) by (simp_all add: prb_update_def sample_tick_def)
  have pt: "pk_subframe p * 2 + pk_slot p = 19 \<and> pk_symbol p = 13"
    using True slot_time_built[OF assms(1)] by blast
  have r: "prb_rejects io (packet_num_prbu p) s
      \<longleftrightarrow> \<not> (expected_num_prbu (m_prb_filter s) = 0 \<or> packet_num_prbu p = expected_num_prbu (m_prb_filter s))"
    using assms(6) by (auto simp: prb_rejects_def calls_succeed_def word_neq_0_conv)
  show ?thesis
    using assms(6) pt unfolding m ecpri_output_def Let_def u section_hdrs.select_convs num_prbu_built[OF assms(1)] r
      assms(4,5) prod.case f
    by (auto simp: calls_succeed_def)
qed

text \<open>C34.
  The codelet extracts exactly what was sent: for any well-formed packet, with or without a VLAN tag, and with
  every jbpf call succeeding and no sampling, it outputs a sample that carries the packet's own numbers and
  its payload (its first 8192 bytes, zero-filled) when the packet belongs to symbol 13 of slot 19 and to the
  configured number of PRBs, and outputs nothing otherwise; an encoded PRB count of zero is read as 273.  The
  parser's offsets, byte order, bit positions and length checks are all confirmed by this.\<close>

theorem ecpri_packet_roundtrip:
  assumes "ofh_ok p" "length (pk_payload p) < 65536" "o_packet ctx = ofh_bytes p"
    and "m_output_tmp s = zero_sample" "m_sampling_period s = 0" "calls_succeed io" "v_prb_msg io = None"
  shows "ecpri_main io ctx s = Some (CODELET_SUCCESS,
      if pk_subframe p * 2 + pk_slot p = 19 \<and> pk_symbol p = 13
        \<and> (expected_num_prbu (m_prb_filter s) = 0 \<or> packet_num_prbu p = expected_num_prbu (m_prb_filter s))
      then Some (sample_of_packet (v_entry_ns io) (v_codelet_ns io) (o_meta_data ctx) (o_direction ctx) p) else None, s)"
  by (rule ecpri_main_built[OF assms])

section \<open>Concrete packets\<close>

definition demo_packet :: ofh_packet where
  "demo_packet = \<lparr>pk_macs = replicate 12 7, pk_vlan_tci = Some 3, pk_ecpri_version = 16, pk_ecpri_payl_size = 20,
     pk_xtc_id = 1, pk_seq_id = 9, pk_data_feature = 16, pk_frame = 42, pk_subframe = 9, pk_slot = 1, pk_symbol = 13,
     pk_section = 77, pk_rb = 0, pk_sym_inc = 0, pk_start_prbu = 5, pk_num_prbu = 0, pk_iq_width = 9, pk_comp_meth = 1,
     pk_reserved = 0, pk_payload = [11, 12, 13]\<rparr>"

definition demo_ofh_ctx :: jbpf_ran_ofh_ctx where
  "demo_ofh_ctx = \<lparr>o_packet = ofh_bytes demo_packet, o_meta_data = 1000, o_direction = 1\<rparr>"

definition demo_ecpri_io :: ecpri_io where
  "demo_ecpri_io = \<lparr>v_entry_ns = 2000, v_prb_msg = None, v_prb_store = True, v_prb_lookup = True,
     v_period_lookup = True, v_counter_lookup = True, v_tmp_lookup = True, v_codelet_ns = 3000, v_output_rc = 0\<rparr>"

definition demo_maps :: "u32 \<Rightarrow> ecpri_maps" where
  "demo_maps period = \<lparr>m_prb_filter = \<lparr>expected_num_prbu = 273\<rparr>, m_sampling_period = period, m_symbol_counter = 0,
     m_output_tmp = zero_sample\<rparr>"

lemma demo_packet_ok: "ofh_ok demo_packet" "length (pk_payload demo_packet) < 65536"
  by (simp_all add: ofh_ok_def demo_packet_def)

lemma demo_calls: "calls_succeed demo_ecpri_io" "v_prb_msg demo_ecpri_io = None"
  by (simp_all add: calls_succeed_def demo_ecpri_io_def)

theorem ecpri_packet_roundtrip_witness:
  "\<exists>d. ecpri_main demo_ecpri_io demo_ofh_ctx (demo_maps 0) = Some (CODELET_SUCCESS, Some d, demo_maps 0)
     \<and> iq_section_id d = 77 \<and> iq_num_prbu d = 273 \<and> iq_payload_size d = 3"
proof -
  have "o_packet demo_ofh_ctx = ofh_bytes demo_packet" "m_output_tmp (demo_maps 0) = zero_sample" "m_sampling_period (demo_maps 0) = 0"
    by (simp_all add: demo_ofh_ctx_def demo_maps_def)
  from ecpri_packet_roundtrip[OF demo_packet_ok this demo_calls] show ?thesis
    by (simp add: demo_packet_def demo_maps_def packet_num_prbu_def sample_of_packet_def Let_def)
qed

theorem ecpri_fire_safe_witness:
  "\<exists>ret out s'. ecpri_main demo_ecpri_io demo_ofh_ctx (demo_maps 0) = Some (ret, out, s') \<and> m_output_tmp s' = zero_sample"
  using ecpri_fire_safe[of "demo_maps 0" demo_ecpri_io demo_ofh_ctx] by (auto simp: demo_maps_def)


end
