(* ===== verification/Controller_System.thy ===== *)
theory Controller_System
  imports L1_Kpm Spectrum_Sm
begin

text \<open>
  The data plane of the running controller as \<^verbatim>\<open>main()\<close> in \<^verbatim>\<open>src/e3_controller.cpp\<close> assembles it: one dispatcher,
  the two pipelines and the two service models that start and stop them.  A step is a call of libe3 into a
  service model, an iteration of a worker, or one of the two halves of a dispatch by the poll thread: the lookup under the
  dispatcher's mutex, and, after the mutex is released, the call of the handler that was found.  Any other step
  can come between the halves, in particular a \<^verbatim>\<open>stop()\<close> that takes the handler out of the table.  The cleanup at the
  end of \<^verbatim>\<open>main()\<close> is \<open>ctl_shutdown\<close>.  The handlers of both streams share one table, so their state is
  that of both pipelines.
\<close>

section \<open>State\<close>

type_synonym ctl_cb =
  "(slot_inputs \<times> iq_inputs, l1_sm option slot_pipeline \<times> spectrum_sm option iq_pipeline) cb_state"

text \<open>
  \<open>g_in_flight\<close> is the dispatch that the poll thread has looked up and not yet called: it has the copied table entry,
  the stream and the batch.  There is one poll thread, so there is at most one.  Two fields are
  bookkeeping only: the buffers that jbpf has handed over so far, and whether a service model has ever stopped a
  pipeline whose handler was about to be called.
\<close>

record ctl =
  g_l1 :: "l1_sm option"
  g_slot :: "l1_sm option slot_pipeline"
  g_spectrum :: "spectrum_sm option"
  g_iq :: "spectrum_sm option iq_pipeline"
  g_handlers :: "ctl_cb handlers"
  g_env :: jbpf_env
  g_in_flight :: "((ctl_cb BufferHandler option \<times> bool) \<times> stream_id \<times> buf list) option"
  g_delivered :: "buf multiset"
  g_overtaken :: bool
  g_terminated :: bool

text \<open>The two configurations that \<^verbatim>\<open>main()\<close> derives from the file.\<close>

definition pipeline_cfg :: "ControllerConfig \<Rightarrow> IqConfig" where
  "pipeline_cfg config =
     default_IqConfig\<lparr>ic_lcm_socket_path := lcm_socket_path (jbpf config),
       ic_codelet_base_path := codelet_base_path (jbpf config), ic_expected_num_prbu := nof_prbs (radio config),
       ic_worker_core := worker_core (threads config)\<rparr>"

definition slot_pipeline_cfg :: "ControllerConfig \<Rightarrow> SlotConfig" where
  "slot_pipeline_cfg config =
     default_SlotConfig\<lparr>sc_lcm_socket_path := lcm_socket_path (jbpf config),
       sc_codelet_base_path := codelet_base_path (jbpf config), sc_worker_core := worker_core (threads config),
       sc_writer := writer (shm config), sc_shm_name := shm_name (shm config), sc_radio := radio config,
       sc_cbf16_scale := cbf16_scale (shm config)\<rparr>"

text \<open>The callbacks of the two streams on the common state.\<close>

definition slot_side :: "ctl_cb BufferHandler" where
  "slot_side sid bufs = (\<lambda>((i, j), (p, q), env).
     case slot_callback sid bufs (i, p, env) of (i', p', env') \<Rightarrow> ((i', j), (p', q), env'))"

definition iq_side :: "ctl_cb BufferHandler" where
  "iq_side sid bufs = (\<lambda>((i, j), (p, q), env).
     case iq_callback sid bufs (j, q, env) of (j', q', env') \<Rightarrow> ((i, j'), (p, q'), env'))"

text \<open>
  The state after both service models are registered: construction and \<^verbatim>\<open>init()\<close>, which registers the
  consumers; \<^verbatim>\<open>l1_init\<close> fails or is undefined as in \<open>L1_Kpm\<close>.
\<close>

definition ctl_init ::
    "l1_ext \<Rightarrow> spectrum_ext \<Rightarrow> bool \<Rightarrow> bool \<Rightarrow> bool \<Rightarrow> ControllerConfig \<Rightarrow> (ErrorCode \<times> ctl) option" where
  "ctl_init X Z shm_open_ok ftruncate_ok mmap_ok config =
     (case spectrum_init Z (E3SMSpectrum (spectrum_stats_log_path (logging config))) (IqPipeline (pipeline_cfg config)) of
        (rc1, e, q) \<Rightarrow>
          (case l1_init X shm_open_ok ftruncate_ok mmap_ok (E3SMLayer1 config) (SlotIqPipeline (slot_pipeline_cfg config)) of
             None \<Rightarrow> None
           | Some (rc2, l, p) \<Rightarrow>
               Some (rc2, \<lparr>g_l1 = Some l, g_slot = p, g_spectrum = Some e, g_iq = q, g_handlers = Map.empty, g_env = [],
                 g_in_flight = None, g_delivered = {#}, g_overtaken = False, g_terminated = False\<rparr>)))"

section \<open>Steps\<close>

text \<open>The poll thread is about to call the handler of stream \<open>sid\<close>.\<close>

definition handler_pending :: "stream_id \<Rightarrow> ctl \<Rightarrow> bool" where
  "handler_pending sid s =
     (case g_in_flight s of
        Some ((Some h, defer), sid', bs) \<Rightarrow> sid' = sid
      | _ \<Rightarrow> False)"

inductive ctl_step :: "lcm_limits \<Rightarrow> ctl \<Rightarrow> ctl \<Rightarrow> bool" for L :: lcm_limits where
  l1_subscribed:
    "g_l1 s = Some l \<Longrightarrow> l1_start L rc slot_side l (g_slot s) (g_handlers s) (g_env s) = (out, l', p, hs, env) \<Longrightarrow>
     ctl_step L s (s\<lparr>g_l1 := Some l', g_slot := p, g_handlers := hs, g_env := env,
       g_terminated := (g_terminated s \<or> out = Terminated)\<rparr>)"
| l1_unsubscribed:
    "g_l1 s = Some l \<Longrightarrow> l1_stop L l (g_slot s) (g_handlers s) (g_env s) = (l', p, hs, env) \<Longrightarrow>
     ctl_step L s (s\<lparr>g_l1 := Some l', g_slot := p, g_handlers := hs, g_env := env,
       g_overtaken := (g_overtaken s \<or> handler_pending slot_iq_stream_id s)\<rparr>)"
| spectrum_subscribed:
    "g_spectrum s = Some e \<Longrightarrow>
     spectrum_start L rc iq_side e (g_iq s) (g_handlers s) (g_env s) = (out, e', q, hs, env) \<Longrightarrow>
     ctl_step L s (s\<lparr>g_spectrum := Some e', g_iq := q, g_handlers := hs, g_env := env,
       g_terminated := (g_terminated s \<or> out = Terminated)\<rparr>)"
| spectrum_unsubscribed:
    "g_spectrum s = Some e \<Longrightarrow> spectrum_stop L e (g_iq s) (g_handlers s) (g_env s) = (e', q, hs, env) \<Longrightarrow>
     ctl_step L s (s\<lparr>g_spectrum := Some e', g_iq := q, g_handlers := hs, g_env := env,
       g_overtaken := (g_overtaken s \<or> handler_pending ecpri_iq_stream_id s)\<rparr>)"
| looked_up:
    "g_in_flight s = None \<Longrightarrow> 0 < sint (n :: i32) \<Longrightarrow>
     ctl_step L s (s\<lparr>g_in_flight := Some (lookup_handler (g_handlers s) sid, sid, take (nat (sint n)) bufs),
       g_delivered := g_delivered s + mset (take (nat (sint n)) bufs)\<rparr>)"
| called:
    "g_in_flight s = Some (entry, sid, bs) \<Longrightarrow>
     dispatch_call release_into entry sid bs (ij, (g_slot s, g_iq s), g_env s) = (ij', (p, q), env) \<Longrightarrow>
     ctl_step L s (s\<lparr>g_slot := p, g_iq := q, g_env := env, g_in_flight := None\<rparr>)"
| slot_worked:
    "slot_worker_step heap (g_slot s, g_env s, g_l1 s) = Some (p, env, l) \<Longrightarrow>
     ctl_step L s (s\<lparr>g_slot := p, g_env := env, g_l1 := l\<rparr>)"
| iq_worked:
    "iq_worker_step h (g_iq s, g_env s, g_spectrum s) = Some (q, env, e) \<Longrightarrow>
     ctl_step L s (s\<lparr>g_iq := q, g_env := env, g_spectrum := e\<rparr>)"

text \<open>The two \<^verbatim>\<open>stop()\<close> calls of the cleanup, slot pipeline first.\<close>

definition ctl_shutdown :: "lcm_limits \<Rightarrow> ctl \<Rightarrow> ctl" where
  "ctl_shutdown L s =
     (case slot_stop L (g_slot s) (g_handlers s) (g_env s) of
        (p, hs, env) \<Rightarrow>
          (case iq_stop L (g_iq s) hs env of
             (q, hs', env') \<Rightarrow> s\<lparr>g_slot := p, g_iq := q, g_handlers := hs', g_env := env'\<rparr>))"

section \<open>Pipelines whose queue may outlive them\<close>

text \<open>
  The invariants \<open>slot_core\<close> and \<open>iq_core\<close> without their last part, that a stopped pipeline has an empty queue: a
  handler that is called after \<^verbatim>\<open>stop()\<close> breaks it.
\<close>

definition slot_shape :: "'w slot_pipeline \<Rightarrow> bool" where
  "slot_shape p \<longleftrightarrow> slot_queue_ok p \<and> sp_worker_joinable p = sp_running p \<and> (sp_codelets_loaded p \<longrightarrow> sp_running p)"

definition iq_shape :: "'w iq_pipeline \<Rightarrow> bool" where
  "iq_shape p \<longleftrightarrow> iq_queue_ok p \<and> ip_worker_joinable p = ip_running p \<and> (ip_codelets_loaded p \<longrightarrow> ip_running p)"

abbreviation slot_bufs :: "'w slot_pipeline \<Rightarrow> buf multiset" where
  "slot_bufs p \<equiv> mset (map q_buf (slot_queued p))"

abbreviation iq_bufs :: "'w iq_pipeline \<Rightarrow> buf multiset" where
  "iq_bufs p \<equiv> mset (map q_buf (iq_queued p))"

text \<open>With the worker running or the queue empty these are the invariants of the pipelines.\<close>

lemma slot_shape_running: "slot_core p \<longleftrightarrow> slot_shape p \<and> (sp_running p \<or> slot_queued p = [])"
  by (auto simp: slot_core_def slot_shape_def)

lemma iq_shape_running: "iq_core p \<longleftrightarrow> iq_shape p \<and> (ip_running p \<or> iq_queued p = [])"
  by (auto simp: iq_core_def iq_shape_def)

lemma l1_start_effect:
  assumes "slot_shape p" "l1_start L rc cb l p hs env = (out, l', p', hs', env')"
  shows "slot_shape p' \<and> out \<noteq> Terminated \<and> slot_queued p' = slot_queued p \<and> released env' = released env
    \<and> hs' = (if sp_running p' \<and> \<not> sp_running p then register_stream slot_iq_stream_id (Some cb) True hs else hs)
    \<and> (sp_running p \<longrightarrow> sp_running p')"
  using assms
  by (auto simp: l1_start_def slot_start_def slot_shape_def slot_load_codelets_def Let_def split: if_splits prod.splits)

lemma spectrum_start_effect:
  assumes "iq_shape p" "spectrum_start L rc cb e p hs env = (out, e', p', hs', env')"
  shows "iq_shape p' \<and> out \<noteq> Terminated \<and> iq_queued p' = iq_queued p \<and> released env' = released env
    \<and> hs' = (if ip_running p' \<and> \<not> ip_running p then register_stream ecpri_iq_stream_id (Some cb) True hs else hs)
    \<and> (ip_running p \<longrightarrow> ip_running p')"
  using assms
  by (auto simp: spectrum_start_def iq_start_def iq_shape_def iq_load_codelets_def Let_def split: if_splits prod.splits)

lemma slot_stop_shape:
  assumes "slot_shape p" "slot_stop L p hs env = (p', hs', env')"
  shows "slot_shape p' \<and> \<not> sp_running p' \<and> slot_queued p' = (if sp_running p then [] else slot_queued p)
    \<and> mset (released env') + slot_bufs p' = mset (released env) + slot_bufs p
    \<and> hs' = (if sp_running p then unregister_stream slot_iq_stream_id hs else hs)"
proof (cases "sp_running p")
  case True
  then have c: "slot_core p" using assms(1) by (simp add: slot_shape_running)
  show ?thesis using slot_stop_effect[OF c assms(2)] True by (simp add: slot_shape_running)
next
  case False
  then show ?thesis using assms by (simp add: slot_stop_def)
qed

lemma iq_stop_shape:
  assumes "iq_shape p" "iq_stop L p hs env = (p', hs', env')"
  shows "iq_shape p' \<and> \<not> ip_running p' \<and> iq_queued p' = (if ip_running p then [] else iq_queued p)
    \<and> mset (released env') + iq_bufs p' = mset (released env) + iq_bufs p
    \<and> hs' = (if ip_running p then unregister_stream ecpri_iq_stream_id hs else hs)"
proof (cases "ip_running p")
  case True
  then have c: "iq_core p" using assms(1) by (simp add: iq_shape_running)
  show ?thesis using iq_stop_law[OF c assms(2)] True by (simp add: iq_shape_running)
next
  case False
  then show ?thesis using assms by (simp add: iq_stop_def)
qed

lemma l1_stop_effect:
  assumes "slot_shape p" "l1_stop L l p hs env = (l', p', hs', env')"
  shows "slot_shape p' \<and> mset (released env') + slot_bufs p' = mset (released env) + slot_bufs p
    \<and> hs' = (if sp_running p \<and> \<not> sp_running p' then unregister_stream slot_iq_stream_id hs else hs)
    \<and> (sp_running p' \<longrightarrow> sp_running p) \<and> (sp_running p \<longrightarrow> sp_running p' \<or> slot_queued p' = [])
    \<and> (\<not> sp_running p \<longrightarrow> slot_queued p' = slot_queued p)"
proof (cases "l_running l")
  case True
  then have "slot_stop L p hs env = (p', hs', env')" using assms(2) by (simp add: l1_stop_def)
  from slot_stop_shape[OF assms(1) this] show ?thesis by (cases "sp_running p") auto
next
  case False
  then show ?thesis using assms by (simp add: l1_stop_def)
qed

lemma spectrum_stop_effect:
  assumes "iq_shape p" "spectrum_stop L e p hs env = (e', p', hs', env')"
  shows "iq_shape p' \<and> mset (released env') + iq_bufs p' = mset (released env) + iq_bufs p
    \<and> hs' = (if ip_running p \<and> \<not> ip_running p' then unregister_stream ecpri_iq_stream_id hs else hs)
    \<and> (ip_running p' \<longrightarrow> ip_running p) \<and> (ip_running p \<longrightarrow> ip_running p' \<or> iq_queued p' = [])
    \<and> (\<not> ip_running p \<longrightarrow> iq_queued p' = iq_queued p)"
proof (cases "e_running e")
  case True
  then have "iq_stop L p hs env = (p', hs', env')" using assms(2) by (simp add: spectrum_stop_def)
  from iq_stop_shape[OF assms(1) this] show ?thesis by (cases "ip_running p") auto
next
  case False
  then show ?thesis using assms by (simp add: spectrum_stop_def)
qed

lemma slot_worker_shape:
  assumes "slot_shape p" "slot_worker_step heap (p, env, w) = Some (p', env', w')"
  shows "slot_shape p' \<and> sp_running p \<and> sp_running p' \<and> mset (released env') + slot_bufs p' = mset (released env) + slot_bufs p"
proof -
  have run: "sp_running p" using assms(2) by (auto simp: slot_worker_step_def split: if_splits)
  then have "slot_core p" using assms(1) by (simp add: slot_shape_running)
  from slot_worker_core[OF this assms(2)] run show ?thesis unfolding slot_shape_running by blast
qed

lemma iq_worker_shape:
  assumes "iq_shape p" "iq_worker_step h (p, env, w) = Some (p', env', w')"
  shows "iq_shape p' \<and> ip_running p \<and> ip_running p' \<and> mset (released env') + iq_bufs p' = mset (released env) + iq_bufs p"
proof -
  have run: "ip_running p" using assms(2) by (auto simp: iq_worker_step_def split: if_splits)
  then have "iq_core p" using assms(1) by (simp add: iq_shape_running)
  from iq_worker_law[OF this assms(2)] run show ?thesis unfolding iq_shape_running by blast
qed

lemma slot_side_shape:
  assumes "slot_shape p" "slot_side sid bs (ij, (p, q), env) = (ij', (p', q'), env')"
  shows "slot_shape p' \<and> sp_running p' = sp_running p \<and> q' = q
    \<and> mset (released env') + slot_bufs p' = mset (released env) + slot_bufs p + mset bs"
proof -
  obtain i j where ij: "ij = (i, j)" by (cases ij)
  obtain i' p1 env1 where cb: "slot_callback sid bs (i, p, env) = (i', p1, env1)" by (metis prod_cases3)
  have eq: "p' = p1" "env' = env1" "q' = q" using assms(2) cb by (simp_all add: slot_side_def ij)
  have r: "slot_process_buffers (in_heap i) (in_rc i) (in_src i) (in_tv_sec i) (in_tv_nsec i) bs (p, env) = (p', env')"
    using cb by (auto simp: slot_callback_def eq)
  have ok: "slot_state_ok (i, p, env)" using assms(1) by (simp add: slot_state_ok_def slot_shape_def)
  have q: "slot_queue_ok p" using assms(1) by (simp add: slot_shape_def)
  have "slot_shape p'" using process_frame[OF r] process_batch[OF q r] assms(1) unfolding slot_shape_def by metis
  moreover have "mset (released env') + slot_bufs p' = mset (released env) + slot_bufs p + mset bs"
    using slot_owner.handle_conserves[OF ok, of sid bs] by (simp add: cb eq slot_held_def slot_returned_def ac_simps)
  ultimately show ?thesis using process_frame(1)[OF r] eq(3) by blast
qed

lemma iq_side_shape:
  assumes "iq_shape q" "iq_side sid bs (ij, (p, q), env) = (ij', (p', q'), env')"
  shows "iq_shape q' \<and> ip_running q' = ip_running q \<and> p' = p
    \<and> mset (released env') + iq_bufs q' = mset (released env) + iq_bufs q + mset bs"
proof -
  obtain i j where ij: "ij = (i, j)" by (cases ij)
  obtain j' q1 env1 where cb: "iq_callback sid bs (j, q, env) = (j', q1, env1)" by (metis prod_cases3)
  have eq: "q' = q1" "env' = env1" "p' = p" using assms(2) cb by (simp_all add: iq_side_def ij)
  show ?thesis using iq_callback_law[OF _ cb] assms(1) eq by (simp add: iq_shape_def)
qed

section \<open>The invariant\<close>

abbreviation ctl_held :: "ctl \<Rightarrow> buf multiset" where
  "ctl_held s \<equiv> slot_bufs (g_slot s) + iq_bufs (g_iq s)"

definition ctl_flying :: "ctl \<Rightarrow> buf multiset" where
  "ctl_flying s = (case g_in_flight s of None \<Rightarrow> {#} | Some (entry, sid, bs) \<Rightarrow> mset bs)"

text \<open>Buffers queued on a pipeline that does not run, which only another start could get moving again.\<close>

definition ctl_stuck :: "ctl \<Rightarrow> buf multiset" where
  "ctl_stuck s = (if sp_running (g_slot s) then {#} else slot_bufs (g_slot s))
     + (if ip_running (g_iq s) then {#} else iq_bufs (g_iq s))"

definition table_ok :: "bool \<Rightarrow> bool \<Rightarrow> ctl_cb handlers \<Rightarrow> bool" where
  "table_ok slot_on iq_on hs \<longleftrightarrow> (\<forall>sid. lookup_handler hs sid =
     (if sid = slot_iq_stream_id \<and> slot_on then (Some slot_side, True)
      else if sid = ecpri_iq_stream_id \<and> iq_on then (Some iq_side, True)
      else (None, False)))"

definition flight_ok :: "ctl \<Rightarrow> bool" where
  "flight_ok s \<longleftrightarrow> (case g_in_flight s of
       None \<Rightarrow> True
     | Some (entry, sid, bs) \<Rightarrow> entry = (None, False) \<or> (entry = (Some slot_side, True) \<and> sid = slot_iq_stream_id)
         \<or> (entry = (Some iq_side, True) \<and> sid = ecpri_iq_stream_id))"

definition undisturbed :: "ctl \<Rightarrow> bool" where
  "undisturbed s \<longleftrightarrow> (sp_running (g_slot s) \<or> slot_queued (g_slot s) = [] \<and> \<not> handler_pending slot_iq_stream_id s)
     \<and> (ip_running (g_iq s) \<or> iq_queued (g_iq s) = [] \<and> \<not> handler_pending ecpri_iq_stream_id s)"

definition ctl_ok :: "ctl \<Rightarrow> bool" where
  "ctl_ok s \<longleftrightarrow> slot_shape (g_slot s) \<and> iq_shape (g_iq s) \<and> \<not> g_terminated s
     \<and> table_ok (sp_running (g_slot s)) (ip_running (g_iq s)) (g_handlers s) \<and> flight_ok s
     \<and> g_delivered s = mset (released (g_env s)) + ctl_held s + ctl_flying s
     \<and> (\<not> g_overtaken s \<longrightarrow> undisturbed s)"

lemma streams_differ: "slot_iq_stream_id \<noteq> ecpri_iq_stream_id" "ecpri_iq_stream_id \<noteq> slot_iq_stream_id"
  by (simp_all add: slot_iq_stream_id_def ecpri_iq_stream_id_def)

lemma table_changes:
  "table_ok a b hs \<Longrightarrow> table_ok True b (register_stream slot_iq_stream_id (Some slot_side) True hs)"
  "table_ok a b hs \<Longrightarrow> table_ok a True (register_stream ecpri_iq_stream_id (Some iq_side) True hs)"
  "table_ok a b hs \<Longrightarrow> table_ok False b (unregister_stream slot_iq_stream_id hs)"
  "table_ok a b hs \<Longrightarrow> table_ok a False (unregister_stream ecpri_iq_stream_id hs)"
  using streams_differ by (auto simp: table_ok_def)

text \<open>A start, a stop or a worker iteration leaves the batch in flight alone.\<close>

lemma same_flight:
  assumes "g_in_flight s' = g_in_flight s"
  shows "flight_ok s' = flight_ok s" "ctl_flying s' = ctl_flying s" "handler_pending sid s' = handler_pending sid s"
  using assms by (simp_all add: flight_ok_def ctl_flying_def handler_pending_def)

lemma ctl_ok_same_flight:
  assumes "ctl_ok s" "g_in_flight s' = g_in_flight s" "g_delivered s' = g_delivered s" "\<not> g_terminated s'"
    and "slot_shape (g_slot s')" "iq_shape (g_iq s')"
    and "table_ok (sp_running (g_slot s')) (ip_running (g_iq s')) (g_handlers s')"
    and "mset (released (g_env s')) + ctl_held s' = mset (released (g_env s)) + ctl_held s"
    and "\<not> g_overtaken s' \<Longrightarrow> undisturbed s'"
  shows "ctl_ok s'"
  using assms same_flight(1,2)[OF assms(2)] by (simp add: ctl_ok_def)

lemma undisturbed_same_flight:
  assumes "g_in_flight s' = g_in_flight s" "undisturbed s"
    and "sp_running (g_slot s) \<Longrightarrow> sp_running (g_slot s') \<or> slot_queued (g_slot s') = [] \<and> \<not> handler_pending slot_iq_stream_id s"
    and "ip_running (g_iq s) \<Longrightarrow> ip_running (g_iq s') \<or> iq_queued (g_iq s') = [] \<and> \<not> handler_pending ecpri_iq_stream_id s"
    and "\<not> sp_running (g_slot s) \<Longrightarrow> slot_queued (g_slot s') = slot_queued (g_slot s)"
    and "\<not> ip_running (g_iq s) \<Longrightarrow> iq_queued (g_iq s') = iq_queued (g_iq s)"
  shows "undisturbed s'"
  using assms(2-) unfolding undisturbed_def same_flight(3)[OF assms(1)] by metis

lemma l1_subscribed_ok:
  assumes "ctl_ok s" "l1_start L rc slot_side l (g_slot s) (g_handlers s) (g_env s) = (out, l', p, hs, env)"
  shows "ctl_ok (s\<lparr>g_l1 := Some l', g_slot := p, g_handlers := hs, g_env := env,
      g_terminated := (g_terminated s \<or> out = Terminated)\<rparr>)"
    (is "ctl_ok ?s'")
proof -
  have ok: "slot_shape (g_slot s)" "table_ok (sp_running (g_slot s)) (ip_running (g_iq s)) (g_handlers s)"
      "slot_shape (g_slot s)" "iq_shape (g_iq s)" "\<not> g_terminated s" "\<not> g_overtaken s \<longrightarrow> undisturbed s"
    using assms(1) by (simp_all add: ctl_ok_def)
  note st = l1_start_effect[OF ok(1) assms(2)]
  have sh: "slot_shape p" "out \<noteq> Terminated" using st by simp_all
  have tab: "table_ok (sp_running p) (ip_running (g_iq s)) hs"
    using ok(2) st table_changes(1) by (cases "sp_running p \<and> \<not> sp_running (g_slot s)") auto
  have held: "mset (released env) + (slot_bufs p + iq_bufs (g_iq s)) = mset (released (g_env s)) + ctl_held s"
    using st by (simp add: ac_simps)
  have calm: "undisturbed ?s'" if "\<not> g_overtaken ?s'"
    by (rule undisturbed_same_flight[of _ s]) (use st that ok(6) in auto)
  show ?thesis by (rule ctl_ok_same_flight[OF assms(1)]) (use ok(3-5) sh tab held calm in simp_all)
qed

lemma spectrum_subscribed_ok:
  assumes "ctl_ok s" "spectrum_start L rc iq_side e (g_iq s) (g_handlers s) (g_env s) = (out, e', q, hs, env)"
  shows "ctl_ok (s\<lparr>g_spectrum := Some e', g_iq := q, g_handlers := hs, g_env := env,
      g_terminated := (g_terminated s \<or> out = Terminated)\<rparr>)"
    (is "ctl_ok ?s'")
proof -
  have ok: "iq_shape (g_iq s)" "table_ok (sp_running (g_slot s)) (ip_running (g_iq s)) (g_handlers s)"
      "slot_shape (g_slot s)" "iq_shape (g_iq s)" "\<not> g_terminated s" "\<not> g_overtaken s \<longrightarrow> undisturbed s"
    using assms(1) by (simp_all add: ctl_ok_def)
  note st = spectrum_start_effect[OF ok(1) assms(2)]
  have sh: "iq_shape q" "out \<noteq> Terminated" using st by simp_all
  have tab: "table_ok (sp_running (g_slot s)) (ip_running q) hs"
    using ok(2) st table_changes(2) by (cases "ip_running q \<and> \<not> ip_running (g_iq s)") auto
  have held: "mset (released env) + (slot_bufs (g_slot s) + iq_bufs q) = mset (released (g_env s)) + ctl_held s"
    using st by (simp add: ac_simps)
  have calm: "undisturbed ?s'" if "\<not> g_overtaken ?s'"
    by (rule undisturbed_same_flight[of _ s]) (use st that ok(6) in auto)
  show ?thesis by (rule ctl_ok_same_flight[OF assms(1)]) (use ok(3-5) sh tab held calm in simp_all)
qed

lemma l1_unsubscribed_ok:
  assumes "ctl_ok s" "l1_stop L l (g_slot s) (g_handlers s) (g_env s) = (l', p, hs, env)"
  shows "ctl_ok (s\<lparr>g_l1 := Some l', g_slot := p, g_handlers := hs, g_env := env,
      g_overtaken := (g_overtaken s \<or> handler_pending slot_iq_stream_id s)\<rparr>)"
    (is "ctl_ok ?s'")
proof -
  have ok: "slot_shape (g_slot s)" "table_ok (sp_running (g_slot s)) (ip_running (g_iq s)) (g_handlers s)"
      "slot_shape (g_slot s)" "iq_shape (g_iq s)" "\<not> g_terminated s" "\<not> g_overtaken s \<longrightarrow> undisturbed s"
    using assms(1) by (simp_all add: ctl_ok_def)
  note st = l1_stop_effect[OF ok(1) assms(2)]
  have sh: "slot_shape p" using st by simp_all
  have tab: "table_ok (sp_running p) (ip_running (g_iq s)) hs"
    using ok(2) st table_changes(3) by (cases "sp_running (g_slot s) \<and> \<not> sp_running p") auto
  have held: "mset (released env) + (slot_bufs p + iq_bufs (g_iq s)) = mset (released (g_env s)) + ctl_held s"
    using st by (simp add: ac_simps)
  have calm: "undisturbed ?s'" if "\<not> g_overtaken ?s'"
    by (rule undisturbed_same_flight[of _ s]) (use st that ok(6) in auto)
  show ?thesis by (rule ctl_ok_same_flight[OF assms(1)]) (use ok(3-5) sh tab held calm in simp_all)
qed

lemma spectrum_unsubscribed_ok:
  assumes "ctl_ok s" "spectrum_stop L e (g_iq s) (g_handlers s) (g_env s) = (e', q, hs, env)"
  shows "ctl_ok (s\<lparr>g_spectrum := Some e', g_iq := q, g_handlers := hs, g_env := env,
      g_overtaken := (g_overtaken s \<or> handler_pending ecpri_iq_stream_id s)\<rparr>)"
    (is "ctl_ok ?s'")
proof -
  have ok: "iq_shape (g_iq s)" "table_ok (sp_running (g_slot s)) (ip_running (g_iq s)) (g_handlers s)"
      "slot_shape (g_slot s)" "iq_shape (g_iq s)" "\<not> g_terminated s" "\<not> g_overtaken s \<longrightarrow> undisturbed s"
    using assms(1) by (simp_all add: ctl_ok_def)
  note st = spectrum_stop_effect[OF ok(1) assms(2)]
  have sh: "iq_shape q" using st by simp_all
  have tab: "table_ok (sp_running (g_slot s)) (ip_running q) hs"
    using ok(2) st table_changes(4) by (cases "ip_running (g_iq s) \<and> \<not> ip_running q") auto
  have held: "mset (released env) + (slot_bufs (g_slot s) + iq_bufs q) = mset (released (g_env s)) + ctl_held s"
    using st by (simp add: ac_simps)
  have calm: "undisturbed ?s'" if "\<not> g_overtaken ?s'"
    by (rule undisturbed_same_flight[of _ s]) (use st that ok(6) in auto)
  show ?thesis by (rule ctl_ok_same_flight[OF assms(1)]) (use ok(3-5) sh tab held calm in simp_all)
qed

lemma looked_up_ok:
  assumes "ctl_ok s" "g_in_flight s = None"
  shows "ctl_ok (s\<lparr>g_in_flight := Some (lookup_handler (g_handlers s) sid, sid, bs), g_delivered := g_delivered s + mset bs\<rparr>)"
    (is "ctl_ok ?s'")
proof -
  have l: "lookup_handler (g_handlers s) sid =
     (if sid = slot_iq_stream_id \<and> sp_running (g_slot s) then (Some slot_side, True)
      else if sid = ecpri_iq_stream_id \<and> ip_running (g_iq s) then (Some iq_side, True) else (None, False))"
    using assms(1) by (simp add: ctl_ok_def table_ok_def)
  have "flight_ok ?s'" by (simp add: flight_ok_def l)
  moreover have "\<not> g_overtaken s \<longrightarrow> undisturbed ?s'"
    using assms(1) streams_differ by (auto simp: ctl_ok_def undisturbed_def handler_pending_def l)
  ultimately show ?thesis using assms by (simp add: ctl_ok_def ctl_flying_def ac_simps)
qed

lemma called_ok:
  assumes "ctl_ok s" "g_in_flight s = Some (entry, sid, bs)"
    and "dispatch_call release_into entry sid bs (ij, (g_slot s, g_iq s), g_env s) = (ij', (p, q), env)"
  shows "ctl_ok (s\<lparr>g_slot := p, g_iq := q, g_env := env, g_in_flight := None\<rparr>)" (is "ctl_ok ?s'")
proof -
  have ok: "slot_shape (g_slot s)" "iq_shape (g_iq s)" "flight_ok s"
      "table_ok (sp_running (g_slot s)) (ip_running (g_iq s)) (g_handlers s)" "\<not> g_terminated s"
      "\<not> g_overtaken s \<longrightarrow> undisturbed s"
      "g_delivered s = mset (released (g_env s)) + ctl_held s + mset bs"
    using assms(1,2) by (simp_all add: ctl_ok_def ctl_flying_def)
  consider (unknown) "entry = (None, False)" | (slot) "entry = (Some slot_side, True)" "sid = slot_iq_stream_id"
    | (iq) "entry = (Some iq_side, True)" "sid = ecpri_iq_stream_id"
    using ok(3) assms(2) by (auto simp: flight_ok_def)
  then have eff: "slot_shape p \<and> iq_shape q \<and> sp_running p = sp_running (g_slot s) \<and> ip_running q = ip_running (g_iq s)
    \<and> g_delivered s = mset (released env) + slot_bufs p + iq_bufs q
    \<and> (handler_pending slot_iq_stream_id s \<or> slot_queued p = slot_queued (g_slot s))
    \<and> (handler_pending ecpri_iq_stream_id s \<or> iq_queued q = iq_queued (g_iq s))"
  proof cases
    case unknown
    then show ?thesis using assms(3) ok by (auto simp: call_unknown ac_simps)
  next
    case slot
    have "slot_side sid bs (ij, (g_slot s, g_iq s), g_env s) = (ij', (p, q), env)"
      using assms(3) slot(1) by (simp add: call_owned)
    from slot_side_shape[OF ok(1) this] ok slot assms(2) show ?thesis
      by (auto simp: handler_pending_def ac_simps)
  next
    case iq
    have "iq_side sid bs (ij, (g_slot s, g_iq s), g_env s) = (ij', (p, q), env)"
      using assms(3) iq(1) by (simp add: call_owned)
    from iq_side_shape[OF ok(2) this] ok iq assms(2) show ?thesis
      by (auto simp: handler_pending_def ac_simps)
  qed
  have "\<not> g_overtaken s \<longrightarrow> undisturbed ?s'" using ok(6) eff by (auto simp: undisturbed_def handler_pending_def)
  then show ?thesis using ok(4-6) eff by (simp add: ctl_ok_def flight_ok_def ctl_flying_def add.assoc)
qed

lemma slot_worked_ok:
  assumes "ctl_ok s" "slot_worker_step heap (g_slot s, g_env s, g_l1 s) = Some (p, env, l)"
  shows "ctl_ok (s\<lparr>g_slot := p, g_env := env, g_l1 := l\<rparr>)" (is "ctl_ok ?s'")
proof -
  have ok: "slot_shape (g_slot s)" "iq_shape (g_iq s)" "\<not> g_terminated s" "\<not> g_overtaken s \<longrightarrow> undisturbed s"
      "table_ok (sp_running (g_slot s)) (ip_running (g_iq s)) (g_handlers s)"
    using assms(1) by (simp_all add: ctl_ok_def)
  note w = slot_worker_shape[OF ok(1) assms(2)]
  have calm: "undisturbed ?s'" if "\<not> g_overtaken ?s'"
    by (rule undisturbed_same_flight[of _ s]) (use w that ok(4) in auto)
  have "mset (released env) + (slot_bufs p + iq_bufs (g_iq s)) = mset (released (g_env s)) + ctl_held s"
    using w by (simp add: add.assoc[symmetric])
  then show ?thesis by (intro ctl_ok_same_flight[OF assms(1)]) (use ok w calm in simp_all)
qed

lemma iq_worked_ok:
  assumes "ctl_ok s" "iq_worker_step h (g_iq s, g_env s, g_spectrum s) = Some (q, env, e)"
  shows "ctl_ok (s\<lparr>g_iq := q, g_env := env, g_spectrum := e\<rparr>)" (is "ctl_ok ?s'")
proof -
  have ok: "slot_shape (g_slot s)" "iq_shape (g_iq s)" "\<not> g_terminated s" "\<not> g_overtaken s \<longrightarrow> undisturbed s"
      "table_ok (sp_running (g_slot s)) (ip_running (g_iq s)) (g_handlers s)"
    using assms(1) by (simp_all add: ctl_ok_def)
  note w = iq_worker_shape[OF ok(2) assms(2)]
  have calm: "undisturbed ?s'" if "\<not> g_overtaken ?s'"
    by (rule undisturbed_same_flight[of _ s]) (use w that ok(4) in auto)
  have "mset (released env) + (slot_bufs (g_slot s) + iq_bufs q) = mset (released (g_env s)) + ctl_held s"
    using w by (simp add: add.left_commute)
  then show ?thesis by (intro ctl_ok_same_flight[OF assms(1)]) (use ok w calm in simp_all)
qed

lemma ctl_step_ok: "ctl_step L s s' \<Longrightarrow> ctl_ok s \<Longrightarrow> ctl_ok s'"
proof (induction rule: ctl_step.induct)
  case (l1_subscribed s l rc out l' p hs env)
  then show ?case by (intro l1_subscribed_ok)
next
  case (l1_unsubscribed s l l' p hs env)
  then show ?case by (intro l1_unsubscribed_ok)
next
  case (spectrum_subscribed s e rc out e' q hs env)
  then show ?case by (intro spectrum_subscribed_ok)
next
  case (spectrum_unsubscribed s e e' q hs env)
  then show ?case by (intro spectrum_unsubscribed_ok)
next
  case (looked_up s n sid bufs)
  then show ?case by (intro looked_up_ok)
next
  case (called s entry sid bs ij ij' p q env)
  then show ?case by (intro called_ok)
next
  case (slot_worked heap s p env l)
  then show ?case by (intro slot_worked_ok)
next
  case (iq_worked h s q env e)
  then show ?case by (intro iq_worked_ok)
qed

lemma ctl_init_pipes:
  assumes "ctl_init X Z a b c config = Some (rc, s)"
  shows "slot_shape (g_slot s)" "iq_shape (g_iq s)" "\<not> sp_running (g_slot s)" "\<not> ip_running (g_iq s)"
    "slot_queued (g_slot s) = []" "iq_queued (g_iq s) = []"
  using assms
  by (auto simp: ctl_init_def spectrum_init_def l1_init_def iq_register_consumer_def slot_register_consumer_def slot_shape_def
      iq_shape_def SlotIqPipeline_def IqPipeline_def split: option.splits prod.splits bool.splits)

lemma ctl_init_rest:
  assumes "ctl_init X Z a b c config = Some (rc, s)"
  shows "g_handlers s = Map.empty" "g_env s = []" "g_in_flight s = None" "g_delivered s = {#}" "\<not> g_terminated s"
  using assms by (auto simp: ctl_init_def split: option.splits prod.splits)

lemma ctl_init_ok:
  assumes "ctl_init X Z a b c config = Some (rc, s)"
  shows "ctl_ok s"
proof -
  note i = ctl_init_pipes[OF assms] and r = ctl_init_rest[OF assms]
  have "flight_ok s" "ctl_flying s = {#}" "\<not> handler_pending sid s" for sid
    using r(3) by (simp_all add: flight_ok_def ctl_flying_def handler_pending_def)
  moreover have "table_ok False False (g_handlers s)" by (simp add: r(1) table_ok_def lookup_handler_def)
  ultimately show ?thesis unfolding ctl_ok_def undisturbed_def using i r(2,4,5) by simp
qed

lemma ctl_reachable_ok: "(ctl_step L)\<^sup>*\<^sup>* s0 s \<Longrightarrow> ctl_ok s0 \<Longrightarrow> ctl_ok s"
  by (induction rule: rtranclp_induct) (simp_all add: ctl_step_ok)

lemma two_stops:
  fixes m :: "buf multiset"
  assumes "e1 + p = m + x" "e2 + q = e1 + y"
  shows "e2 + (p + q) = m + (x + y)"
proof -
  have "e2 + (p + q) = (e2 + q) + p" by (simp add: ac_simps)
  also have "\<dots> = (e1 + p) + y" unfolding assms(2) by (simp add: ac_simps)
  finally show ?thesis unfolding assms(1) by (simp add: ac_simps)
qed

lemma ctl_shutdown_effect:
  assumes "ctl_ok s" "s' = ctl_shutdown L s"
  shows "mset (released (g_env s')) + ctl_stuck s = mset (released (g_env s)) + ctl_held s" "ctl_held s' = ctl_stuck s"
    and "slot_shape (g_slot s')" "iq_shape (g_iq s')" "\<not> sp_running (g_slot s')" "\<not> ip_running (g_iq s')"
    and "table_ok False False (g_handlers s')"
proof -
  have ok: "slot_shape (g_slot s)" "iq_shape (g_iq s)" "table_ok (sp_running (g_slot s)) (ip_running (g_iq s)) (g_handlers s)"
    using assms(1) by (simp_all add: ctl_ok_def)
  obtain p hs env where st: "slot_stop L (g_slot s) (g_handlers s) (g_env s) = (p, hs, env)" by (metis prod_cases3)
  obtain q hs' env' where it: "iq_stop L (g_iq s) hs env = (q, hs', env')" by (metis prod_cases3)
  note a = slot_stop_shape[OF ok(1) st] and b = iq_stop_shape[OF ok(2) it]
  have s': "g_slot s' = p" "g_iq s' = q" "g_handlers s' = hs'" "g_env s' = env'"
    by (simp_all add: assms(2) ctl_shutdown_def st it)
  show "slot_shape (g_slot s')" "iq_shape (g_iq s')" "\<not> sp_running (g_slot s')" "\<not> ip_running (g_iq s')"
    using a b by (simp_all add: s')
  have left: "slot_bufs p + iq_bufs q = ctl_stuck s" using a b by (simp add: ctl_stuck_def)
  then show "ctl_held s' = ctl_stuck s" by (simp add: s')
  show "mset (released (g_env s')) + ctl_stuck s = mset (released (g_env s)) + ctl_held s"
    unfolding s' left[symmetric] by (rule two_stops) (use a b in blast)+
  have "table_ok False (ip_running (g_iq s)) hs" using a ok(3) table_changes(3) by (cases "sp_running (g_slot s)") auto
  then show "table_ok False False (g_handlers s')"
    unfolding s' using b table_changes(4) by (cases "ip_running (g_iq s)") auto
qed

text \<open>C4.
  The controller as a whole neither loses nor double-releases a buffer.  From the state in which both service models are
  registered, over every sequence of subscriptions, unsubscriptions, lookups and handler calls of the poll thread on either
  stream or on unknown ones, and worker iterations of either pipeline, every buffer handed over by jbpf has been released
  exactly once, or waits in exactly one of the two queues, or belongs to the batch whose handler is about to be
  called; and no second thread assignment terminates the process.  The cleanup of \<^verbatim>\<open>main()\<close> stops both workers,
  empties the table and releases everything that is queued on a running pipeline.  What it leaves are the
  buffers queued on a pipeline that was stopped before; there are none unless some service model
  stopped a pipeline between the lookup of its handler and the call.  The cleanup runs on the poll thread, so
  no batch is in flight then.  A start, a stop, a handler call and a worker iteration each count as one step here: how a
  handler call and a worker iteration interleave is the subject of \<open>Pipeline_Concurrency\<close> and \<open>Ring_Memory\<close>, and a handler
  call that runs at the same time as a \<^verbatim>\<open>stop()\<close> is taken to come before or after it.\<close>

theorem controller_shutdown_clean:
  assumes "ctl_init X Z a b c config = Some (rc, s0)" and "(ctl_step L)\<^sup>*\<^sup>* s0 s" and "s' = ctl_shutdown L s"
  shows "\<not> g_terminated s \<and> g_delivered s = mset (released (g_env s)) + ctl_held s + ctl_flying s
    \<and> g_delivered s = mset (released (g_env s')) + ctl_stuck s + ctl_flying s \<and> ctl_held s' = ctl_stuck s
    \<and> (\<not> g_overtaken s \<longrightarrow> ctl_stuck s = {#})
    \<and> \<not> sp_running (g_slot s') \<and> \<not> ip_running (g_iq s')
    \<and> \<not> sp_worker_joinable (g_slot s') \<and> \<not> ip_worker_joinable (g_iq s')
    \<and> (\<forall>sid. lookup_handler (g_handlers s') sid = (None, False))"
proof -
  have ok: "ctl_ok s" using ctl_reachable_ok[OF assms(2) ctl_init_ok[OF assms(1)]] .
  note e = ctl_shutdown_effect[OF ok assms(3)]
  have "\<not> g_overtaken s \<longrightarrow> ctl_stuck s = {#}" using ok by (auto simp: ctl_ok_def undisturbed_def ctl_stuck_def)
  moreover have "\<not> sp_worker_joinable (g_slot s')" "\<not> ip_worker_joinable (g_iq s')"
    using e(3-6) by (simp_all add: slot_shape_def iq_shape_def)
  moreover have "\<forall>sid. lookup_handler (g_handlers s') sid = (None, False)" using e(7) by (simp add: table_ok_def)
  moreover have "\<not> g_terminated s" "g_delivered s = mset (released (g_env s)) + ctl_held s + ctl_flying s"
    using ok by (simp_all add: ctl_ok_def)
  ultimately show ?thesis using e(1,2,5,6) by (simp only: simp_thms)
qed

text \<open>
  A batch for the slot stream, first called before the service model stops the pipeline, then after.
\<close>

lemma demo_init: "\<exists>s0. ctl_init demo_ext demo_spectrum_ext True True True default_ControllerConfig = Some (SUCCESS, s0)"
proof -
  have "\<exists>w. shm_open True True True ''/e3_ran_buffers'' (push_bit 30 1) default_RadioGeometry f32_one Gnb ShmIqWriter = Some (True, w)"
    by (simp add: shm_open_def Let_def ShmIqWriter_def row_bytes_def num_fh_samples_def u16_per_ant_def nof_subcarriers_def
        kScPerPrb_def default_RadioGeometry_def open_rows_def header_bytes_def)
  then show ?thesis
    by (auto simp: ctl_init_def spectrum_init_def l1_init_def E3SMLayer1_def default_ControllerConfig_def)
qed

lemma demo_looked_up:
  assumes "ctl_init demo_ext demo_spectrum_ext True True True default_ControllerConfig = Some (SUCCESS, s0)"
  shows "\<exists>s l. (ctl_step sample_limits)\<^sup>*\<^sup>* s0 s \<and> g_in_flight s = Some ((Some slot_side, True), slot_iq_stream_id, [9])
    \<and> g_delivered s = {#9#} \<and> sp_running (g_slot s) \<and> slot_queued (g_slot s) = [] \<and> iq_queued (g_iq s) = []
    \<and> \<not> g_overtaken s \<and> g_l1 s = Some l \<and> l_running l"
proof -
  note i = ctl_init_pipes[OF assms] and r = ctl_init_rest[OF assms]
  obtain l where l: "g_l1 s0 = Some l" "\<not> l_running l" and o: "\<not> g_overtaken s0"
    using assms by (auto simp: ctl_init_def l1_init_def E3SMLayer1_def split: option.splits prod.splits bool.splits)
  obtain out l' p hs env where
    start: "l1_start sample_limits 0 slot_side l (g_slot s0) (g_handlers s0) (g_env s0) = (out, l', p, hs, env)"
    by (metis prod_cases5)
  then have st: "out = Returned SUCCESS" "l_running l'" "sp_running p"
    using l(2) i(1,3) by (auto simp: l1_start_def slot_start_def slot_shape_def slot_load_codelets_def Let_def split: if_splits)
  note eff = l1_start_effect[OF i(1) start]
  let ?s1 = "s0\<lparr>g_l1 := Some l', g_slot := p, g_handlers := hs, g_env := env,
    g_terminated := (g_terminated s0 \<or> out = Terminated)\<rparr>"
  have "ctl_step sample_limits s0 ?s1" by (rule ctl_step.l1_subscribed[OF l(1) start])
  moreover have h: "lookup_handler hs slot_iq_stream_id = (Some slot_side, True)" using eff st(3) i(3) by simp
  let ?s2 = "?s1\<lparr>g_in_flight := Some (lookup_handler hs slot_iq_stream_id, slot_iq_stream_id, take (nat (sint (1 :: i32))) [9]),
    g_delivered := g_delivered s0 + mset (take (nat (sint (1 :: i32))) [9])\<rparr>"
  have "ctl_step sample_limits ?s1 ?s2" 
    using ctl_step.looked_up[where s = ?s1 and n = 1 and sid = slot_iq_stream_id and bufs = "[9]"] r(3) by simp
  ultimately have "(ctl_step sample_limits)\<^sup>*\<^sup>* s0 ?s2" by (rule converse_rtranclp_into_rtranclp[OF _ r_into_rtranclp])
  then show ?thesis using eff h st(2,3) i r o by (intro exI[of _ ?s2] exI[of _ l']) simp
qed

lemma slot_call_queues:
  assumes "slot_shape p" "slot_queued p = []" "slot_side sid [b] (ij, (p, q), env) = (ij', (p', q'), env')"
  shows "map q_buf (slot_queued p') = [b]"
proof -
  obtain i j where ij: "ij = (i, j)" by (cases ij)
  have "slot_process_buffers (in_heap i) (in_rc i) (in_src i) (in_tv_sec i) (in_tv_nsec i) [b] (p, env) = (p', env')"
    using assms(3) by (auto simp: slot_side_def slot_callback_def ij split: prod.splits)
  from process_batch[OF _ this] assms(1,2) show ?thesis by (simp add: slot_shape_def Let_def slot_entry_def)
qed

lemma demo_called:
  assumes "ctl_ok s" "g_in_flight s = Some ((Some slot_side, True), slot_iq_stream_id, [9])" "slot_queued (g_slot s) = []"
  shows "\<exists>s'. ctl_step L s s' \<and> g_in_flight s' = None \<and> slot_bufs (g_slot s') = {#9#} \<and> g_iq s' = g_iq s
    \<and> sp_running (g_slot s') = sp_running (g_slot s) \<and> g_overtaken s' = g_overtaken s \<and> g_delivered s' = g_delivered s"
proof -
  define ij :: "slot_inputs \<times> iq_inputs" where "ij =
    (\<lparr>in_heap = (\<lambda>_. sample_desc), in_rc = 0, in_src = 0, in_tv_sec = 0, in_tv_nsec = 0\<rparr>,
     \<lparr>iin_heap = (\<lambda>_. sample_iq), iin_rc = 0, iin_tv_sec = 0, iin_tv_nsec = 0\<rparr>)"
  obtain ij' p q env where c: "slot_side slot_iq_stream_id [9] (ij, (g_slot s, g_iq s), g_env s) = (ij', (p, q), env)"
    by (metis prod_cases3 prod.collapse)
  have sh: "slot_shape (g_slot s)" using assms(1) by (simp add: ctl_ok_def)
  have "dispatch_call release_into (Some slot_side, True) slot_iq_stream_id [9] (ij, (g_slot s, g_iq s), g_env s) = (ij', (p, q), env)"
    using c by (simp add: call_owned)
  from ctl_step.called[OF assms(2) this, of L] show ?thesis
    using slot_side_shape[OF sh c] slot_call_queues[OF sh assms(3) c] by (intro exI conjI) (assumption, simp_all flip: mset_map)
qed

lemma demo_stopped:
  assumes "ctl_ok s" "g_in_flight s = Some ((Some slot_side, True), slot_iq_stream_id, [9])" "sp_running (g_slot s)"
    and "g_l1 s = Some l" "l_running l"
  shows "\<exists>s'. ctl_step L s s' \<and> g_in_flight s' = g_in_flight s \<and> slot_queued (g_slot s') = [] \<and> g_iq s' = g_iq s
    \<and> \<not> sp_running (g_slot s') \<and> g_delivered s' = g_delivered s"
proof -
  obtain p hs env where st: "slot_stop L (g_slot s) (g_handlers s) (g_env s) = (p, hs, env)" by (metis prod_cases3)
  have sh: "slot_shape (g_slot s)" using assms(1) by (simp add: ctl_ok_def)
  have "l1_stop L l (g_slot s) (g_handlers s) (g_env s) = (l\<lparr>l_running := False\<rparr>, p, hs, env)"
    using assms(5) st by (simp add: l1_stop_def)
  from ctl_step.l1_unsubscribed[OF assms(4) this] show ?thesis
    using slot_stop_shape[OF sh st] assms(3) by (intro exI conjI) (assumption, simp_all)
qed

theorem controller_shutdown_clean_witness:
  "\<exists>s0 s t. ctl_init demo_ext demo_spectrum_ext True True True default_ControllerConfig = Some (SUCCESS, s0)
     \<and> (ctl_step sample_limits)\<^sup>*\<^sup>* s0 s \<and> slot_bufs (g_slot s) = {#9#} \<and> mset (released (g_env (ctl_shutdown sample_limits s))) = {#9#}
     \<and> (ctl_step sample_limits)\<^sup>*\<^sup>* s0 t \<and> g_overtaken t \<and> g_delivered t = {#9#} \<and> mset (released (g_env (ctl_shutdown sample_limits t))) = {#}"
proof -
  obtain s0 where s0: "ctl_init demo_ext demo_spectrum_ext True True True default_ControllerConfig = Some (SUCCESS, s0)"
    using demo_init by blast
  obtain s1 l where run: "(ctl_step sample_limits)\<^sup>*\<^sup>* s0 s1" and
    s1: "g_in_flight s1 = Some ((Some slot_side, True), slot_iq_stream_id, [9])" "g_delivered s1 = {#9#}" "sp_running (g_slot s1)"
      "slot_queued (g_slot s1) = []" "iq_queued (g_iq s1) = []" "\<not> g_overtaken s1" "g_l1 s1 = Some l" "l_running l"
    using demo_looked_up[OF s0] by blast
  have ok: "ctl_ok s1" by (rule ctl_reachable_ok[OF run ctl_init_ok[OF s0]])
  obtain s where s: "ctl_step sample_limits s1 s" "g_in_flight s = None" "slot_bufs (g_slot s) = {#9#}" "\<not> g_overtaken s"
      "g_delivered s = {#9#}"
    using demo_called[OF ok s1(1,4), of sample_limits] s1 by metis
  have rs: "(ctl_step sample_limits)\<^sup>*\<^sup>* s0 s" using run s(1) by (rule rtranclp.rtrancl_into_rtrancl)
  obtain t1 where t1: "ctl_step sample_limits s1 t1" "g_in_flight t1 = g_in_flight s1" "slot_queued (g_slot t1) = []"
      "g_iq t1 = g_iq s1" "\<not> sp_running (g_slot t1)" "g_delivered t1 = {#9#}"
    using demo_stopped[OF ok s1(1,3,7,8), of sample_limits] s1(2) by metis
  have okt: "ctl_ok t1" using ctl_step_ok[OF t1(1) ok] .
  have f: "g_in_flight t1 = Some ((Some slot_side, True), slot_iq_stream_id, [9])" using t1(2) s1(1) by simp
  obtain t where t: "ctl_step sample_limits t1 t" "g_in_flight t = None" "slot_bufs (g_slot t) = {#9#}" "g_iq t = g_iq s1"
      "\<not> sp_running (g_slot t)" "g_delivered t = {#9#}"
    using demo_called[OF okt f t1(3), of sample_limits] t1(4-6) by metis
  have rt: "(ctl_step sample_limits)\<^sup>*\<^sup>* s0 t"
    by (rule rtranclp.rtrancl_into_rtrancl[OF rtranclp.rtrancl_into_rtrancl[OF run t1(1)] t(1)])
  have stuck: "ctl_stuck t = {#9#}" using t s1(5) by (simp add: ctl_stuck_def)
  have fly: "ctl_flying s = {#}" "ctl_flying t = {#}" using s(2) t(2) by (simp_all add: ctl_flying_def)
  have "g_delivered s = mset (released (g_env (ctl_shutdown sample_limits s))) + ctl_stuck s + ctl_flying s" "ctl_stuck s = {#}"
    using controller_shutdown_clean[OF s0 rs refl] s(4) by blast+
  then have "mset (released (g_env (ctl_shutdown sample_limits s))) = {#9#}" using fly(1) s(5) by simp
  moreover have "g_delivered t = mset (released (g_env (ctl_shutdown sample_limits t))) + ctl_stuck t + ctl_flying t"
      "\<not> g_overtaken t \<longrightarrow> ctl_stuck t = {#}"
    using controller_shutdown_clean[OF s0 rt refl] by blast+
  then have "mset (released (g_env (ctl_shutdown sample_limits t))) = {#}" "g_overtaken t" using fly(2) t(6) stuck by auto
  ultimately show ?thesis using s0 rs s(3) rt t(6) by (intro exI[of _ s0] exI[of _ s] exI[of _ t] conjI)
qed

end
