(* ===== verification/E3_Main.thy ===== *)
theory E3_Main
  imports Controller_System
begin

text \<open>
  \<^verbatim>\<open>main()\<close> of \<^verbatim>\<open>src/e3_controller.cpp\<close>: the command line, the configurations it derives, the start-up with its
  early returns, the poll loop and the cleanup.  What it does to the outside is the sequence of
  \<open>host_call\<close>s; the answers of jbpf, libe3 and the operating system are in \<open>host\<close>.  \<open>n_signals h k\<close>
  are the signals handled between the tests \<open>k - 1\<close> and \<open>k\<close> of \<^verbatim>\<open>g_running\<close> by the loop, which only the signal
  handler clears; a loop that is never stopped has no result.  Log output is left out here; that of the start-up is
  in \<open>Start_Report\<close>.
\<close>

section \<open>Command line\<close>

datatype arg_result = ArgHelp | ArgUnexpected string | ArgMissing | ArgConfig string

fun parse_args :: "string \<Rightarrow> string list \<Rightarrow> arg_result" where
  "parse_args config_path [] = (if config_path = [] then ArgMissing else ArgConfig config_path)"
| "parse_args config_path (a # rest) =
     (case rest of
        b # rest' \<Rightarrow>
          if a = ''--config'' then parse_args b rest'
          else if a = ''--help'' \<or> a = ''-h'' then ArgHelp
          else ArgUnexpected a
      | [] \<Rightarrow> if a = ''--help'' \<or> a = ''-h'' then ArgHelp else ArgUnexpected a)"

section \<open>Derived configurations\<close>

record agent_config =
  a_ran_identifier :: string
  a_link_layer :: E3LinkLayer
  a_transport_layer :: E3TransportLayer
  a_encoding :: EncodingFormat
  a_setup_port :: u16
  a_publisher_port :: u16
  a_subscriber_port :: u16
  a_log_level :: int
  a_io_thread_affinity :: "i32 option"

text \<open>\<open>None\<close> leaves the affinity as libe3 initialises it.\<close>

definition agentConfig :: "ControllerConfig \<Rightarrow> agent_config" where
  "agentConfig config =
     \<lparr>a_ran_identifier = ''ocudu-janus'', a_link_layer = link_layer (e3 config), a_transport_layer = transport (e3 config),
      a_encoding = encoding (e3 config), a_setup_port = setup_port (e3 config),
      a_publisher_port = publisher_port (e3 config), a_subscriber_port = subscriber_port (e3 config), a_log_level = 5,
      a_io_thread_affinity =
        (if sint (publisher_core (threads config)) \<ge> 0 then Some (publisher_core (threads config)) else None)\<rparr>"

record io_limits =
  run_path_len :: nat
  namespace_len :: nat
  ipc_max_namelen :: nat
  default_namespace :: string

record io_config =
  io_jbpf_path :: string
  io_jbpf_namespace :: string
  io_ipc_name :: string
  io_memory_size :: size_t

definition io_config_of :: "io_limits \<Rightarrow> ControllerConfig \<Rightarrow> io_config" where
  "io_config_of m config =
     \<lparr>io_jbpf_path = strncpy_field (run_path_len m) (run_path (jbpf config)),
      io_jbpf_namespace = strncpy_field (namespace_len m) (default_namespace m),
      io_ipc_name = strncpy_field (ipc_max_namelen m) (ipc_name (jbpf config)),
      io_memory_size = mem_size_bytes (jbpf config)\<rparr>"

section \<open>Calls and answers\<close>

datatype host_call =
    LatrecDir string
  | AgentNew agent_config
  | InstallSignals
  | IoInit io_config
  | IoRegisterThread
  | AgentInit
  | NewIqPipeline IqConfig
  | NewSlotPipeline SlotConfig
  | RegisterSm u32
  | AgentStart
  | PinThread i32
  | Poll
  | Pause
  | Usleep i32
  | AgentStop
  | StopSlotPipeline
  | StopIqPipeline
  | IoStop

record 'n host =
  n_yaml :: "'n yaml_api"
  n_limits :: io_limits
  n_signals_ok :: bool
  n_io_init_ok :: bool
  n_thread_ok :: bool
  n_agent_init :: ErrorCode
  n_register_sm :: "u32 \<Rightarrow> ErrorCode"
  n_agent_start :: ErrorCode
  n_pin_ok :: bool
  n_signals :: "nat \<Rightarrow> int list"
  n_x86 :: bool

text \<open>The process exits with a code, or an exception of \<^verbatim>\<open>load_config\<close> ends it.\<close>

datatype main_outcome = Exit nat "host_call list" | UncaughtException

section \<open>Start-up, loop and cleanup\<close>

text \<open>The calls of the start-up and whether it reaches the loop.\<close>

definition startup :: "'n host \<Rightarrow> ControllerConfig \<Rightarrow> host_call list \<times> bool" where
  "startup h config =
     (let c1 = (if latrec_dir (logging config) \<noteq> [] then [LatrecDir (latrec_dir (logging config))] else [])
            @ [AgentNew (agentConfig config), InstallSignals];
          c2 = c1 @ [IoInit (io_config_of (n_limits h) config)];
          c3 = c2 @ [IoRegisterThread];
          c4 = c3 @ [AgentInit];
          c5 = c4 @ [NewIqPipeline (pipeline_cfg config), NewSlotPipeline (slot_pipeline_cfg config),
            RegisterSm SPECTRUM_RAN_FUNCTION_ID];
          c6 = c5 @ [RegisterSm L1_RAN_FUNCTION_ID];
          c7 = c6 @ [AgentStart]
      in if \<not> n_signals_ok h then (c1, False)
         else if \<not> n_io_init_ok h then (c2, False)
         else if \<not> n_thread_ok h then (c3 @ [IoStop], False)
         else if n_agent_init h \<noteq> SUCCESS \<and> n_agent_init h \<noteq> ALREADY_INITIALIZED then (c4, False)
         else if n_register_sm h SPECTRUM_RAN_FUNCTION_ID \<noteq> SUCCESS then (c5, False)
         else if n_register_sm h L1_RAN_FUNCTION_ID \<noteq> SUCCESS then (c6, False)
         else if n_agent_start h \<noteq> SUCCESS then (c7, False)
         else (c7, True))"

text \<open>The handler installed for both signals, and the flag as the \<open>k\<close>-th test of the loop finds it.\<close>

definition SIGINT :: int where "SIGINT = 2"
definition SIGTERM :: int where "SIGTERM = 15"

definition signal_handler :: "int \<Rightarrow> bool \<Rightarrow> bool" where
  "signal_handler signo g_running = (if signo = SIGINT \<or> signo = SIGTERM then False else g_running)"

definition g_running :: "'n host \<Rightarrow> nat \<Rightarrow> bool" where
  "g_running h k = fold signal_handler (concat (map (n_signals h) [0..<Suc k])) True"

text \<open>The busy-poll decision and the body of the loop.\<close>

definition pin_calls :: "ControllerConfig \<Rightarrow> host_call list" where
  "pin_calls config = (if sint (poll_core (threads config)) \<ge> 0 then [PinThread (poll_core (threads config))] else [])"

definition poll_body :: "'n host \<Rightarrow> ControllerConfig \<Rightarrow> host_call list" where
  "poll_body h config =
     Poll # (if sint (poll_core (threads config)) \<ge> 0 \<and> n_pin_ok h then (if n_x86 h then [Pause] else [])
             else if sint (poll_interval_us (threads config)) > 0 then [Usleep (poll_interval_us (threads config))]
             else [])"

partial_function (option) poll_loop :: "(nat \<Rightarrow> bool) \<Rightarrow> host_call list \<Rightarrow> nat \<Rightarrow> host_call list \<Rightarrow> host_call list option" where
  "poll_loop running body k done = (if running k then poll_loop running body (Suc k) (done @ body) else Some done)"

definition cleanup :: "host_call list" where
  "cleanup = [AgentStop, StopSlotPipeline, StopIqPipeline, IoStop]"

definition run_controller :: "'n host \<Rightarrow> ControllerConfig \<Rightarrow> main_outcome option" where
  "run_controller h config =
     (case startup h config of
        (calls, False) \<Rightarrow> Some (Exit 1 calls)
      | (calls, True) \<Rightarrow>
          (case poll_loop (g_running h) (poll_body h config) 0 (calls @ pin_calls config) of
             None \<Rightarrow> None
           | Some calls' \<Rightarrow> Some (Exit 0 (calls' @ cleanup))))"

definition e3_main :: "'n host \<Rightarrow> string list \<Rightarrow> main_outcome option" where
  "e3_main h argv =
     (case parse_args [] (tl argv) of
        ArgHelp \<Rightarrow> Some (Exit 0 [])
      | ArgUnexpected a \<Rightarrow> Some (Exit 1 [])
      | ArgMissing \<Rightarrow> Some (Exit 1 [])
      | ArgConfig path \<Rightarrow>
          (case load_config (n_yaml h) path of
             Failed c e \<Rightarrow> Some (Exit 1 [])
           | Uncaught c w \<Rightarrow> Some UncaughtException
           | Loaded config \<Rightarrow> run_controller h config))"

section \<open>The command line\<close>

text \<open>The accepted command lines are the repetitions of \<^verbatim>\<open>--config path\<close>; the last path counts.\<close>

lemma parse_args_iff:
  "parse_args c args = ArgConfig p \<longleftrightarrow>
     p \<noteq> [] \<and> (\<exists>ps. args = concat (map (\<lambda>q. [''--config'', q]) ps) \<and> p = last (c # ps))"
proof (induction c args rule: parse_args.induct)
  case (1 c)
  show ?case by auto
next
  case (2 c a rest)
  have nonempty: "\<exists>q ps'. ps = q # ps'" if "a # rest = concat (map (\<lambda>q. [''--config'', q]) ps)" for ps
    using that by (cases ps) auto
  show ?case
  proof (cases rest)
    case Nil
    have "a # rest \<noteq> concat (map (\<lambda>q. [''--config'', q]) ps)" for ps
      using nonempty[of ps] Nil by auto
    then show ?thesis by (auto simp: Nil)
  next
    case (Cons b rest')
    show ?thesis
    proof (cases "a = ''--config''")
      case True
      have "(\<exists>ps. a # rest = concat (map (\<lambda>q. [''--config'', q]) ps) \<and> p = last (c # ps))
          \<longleftrightarrow> (\<exists>ps'. rest' = concat (map (\<lambda>q. [''--config'', q]) ps') \<and> p = last (b # ps'))" (is "?l \<longleftrightarrow> ?r")
      proof
        assume ?l
        then obtain ps where ps: "a # rest = concat (map (\<lambda>q. [''--config'', q]) ps)" "p = last (c # ps)" by blast
        then obtain ps' where "ps = b # ps'" using nonempty[OF ps(1)] Cons by auto
        then show ?r using ps Cons by auto
      next
        assume ?r
        then obtain ps' where "rest' = concat (map (\<lambda>q. [''--config'', q]) ps')" "p = last (b # ps')" by blast
        then show ?l using True Cons by (intro exI[of _ "b # ps'"]) simp
      qed
      then show ?thesis using 2[OF Cons True] True Cons by simp
    next
      case False
      have "a # rest \<noteq> concat (map (\<lambda>q. [''--config'', q]) ps)" for ps
        using nonempty[of ps] False by auto
      then show ?thesis using False Cons by auto
    qed
  qed
qed

section \<open>The loop\<close>

lemma poll_loop_stops:
  assumes "\<And>i. i < n \<Longrightarrow> running (k + i)" "\<not> running (k + n)"
  shows "poll_loop running body k d = Some (d @ concat (replicate n body))"
  using assms
proof (induction n arbitrary: k d)
  case 0
  then show ?case by (subst poll_loop.simps) simp
next
  case (Suc n)
  have "running k" using Suc.prems(1)[of 0] by simp
  then have "poll_loop running body k d = poll_loop running body (Suc k) (d @ body)" by (subst poll_loop.simps) simp
  also have "\<dots> = Some ((d @ body) @ concat (replicate n body))"
    using Suc.prems(1)[of "Suc i" for i] Suc.prems(2) by (intro Suc.IH) simp_all
  finally show ?case by simp
qed

lemma poll_loop_signal:
  assumes "poll_loop running body k d = Some y"
  obtains N where "\<not> running N" "\<forall>i < N. running i"
proof -
  have "\<exists>n. \<not> running n"
    by (rule poll_loop.raw_induct[of "\<lambda>r b k d y. \<exists>n. \<not> r n", OF _ assms]) (auto split: if_splits)
  then show thesis using that exists_least_iff[of "\<lambda>n. \<not> running n"] by blast
qed

lemma signals_stop: "fold signal_handler ss r \<longleftrightarrow> r \<and> SIGINT \<notin> set ss \<and> SIGTERM \<notin> set ss"
  by (induction ss arbitrary: r) (auto simp: signal_handler_def)

lemma g_running_iff: "g_running h k \<longleftrightarrow> (\<forall>j \<le> k. SIGINT \<notin> set (n_signals h j) \<and> SIGTERM \<notin> set (n_signals h j))"
  by (auto simp: g_running_def signals_stop less_Suc_eq_le)

text \<open>C5.
  The controller polls until it is told to stop: with an accepted command line, a loadable configuration and
  a start-up in which nothing fails, the process returns if and only if SIGINT or SIGTERM arrives, and then it
  has polled exactly as many times as the loop was entered before the first of them, after which it stops the
  agent, both pipelines and only then jbpf, and exits with 0.\<close>

theorem main_polls_until_signal:
  assumes "tl argv = concat (map (\<lambda>q. [''--config'', q]) ps)" and "ps \<noteq> []" "last ps = path" "path \<noteq> []"
    and "load_config (n_yaml h) path = Loaded config" and "startup h config = (calls, True)"
  shows "(e3_main h argv = None \<longleftrightarrow> (\<forall>k. SIGINT \<notin> set (n_signals h k) \<and> SIGTERM \<notin> set (n_signals h k)))
    \<and> (\<forall>N. (SIGINT \<in> set (n_signals h N) \<or> SIGTERM \<in> set (n_signals h N))
        \<and> (\<forall>k < N. SIGINT \<notin> set (n_signals h k) \<and> SIGTERM \<notin> set (n_signals h k)) \<longrightarrow>
        e3_main h argv = Some (Exit 0 (calls @ pin_calls config @ concat (replicate N (poll_body h config))
          @ [AgentStop, StopSlotPipeline, StopIqPipeline, IoStop])))"
proof -
  have "parse_args [] (tl argv) = ArgConfig path" using assms(1-4) unfolding parse_args_iff by auto
  then have m: "e3_main h argv = (case poll_loop (g_running h) (poll_body h config) 0 (calls @ pin_calls config) of
      None \<Rightarrow> None | Some calls' \<Rightarrow> Some (Exit 0 (calls' @ cleanup)))"
    by (simp add: e3_main_def assms(5) run_controller_def assms(6))
  have stops: "poll_loop (g_running h) (poll_body h config) 0 (calls @ pin_calls config)
      = Some ((calls @ pin_calls config) @ concat (replicate N (poll_body h config)))"
    if "\<not> g_running h N" "\<forall>k < N. g_running h k" for N
    using that by (intro poll_loop_stops) simp_all
  have "e3_main h argv = None \<longleftrightarrow> (\<forall>k. g_running h k)"
  proof (cases "\<forall>k. g_running h k")
    case True
    then have "poll_loop (g_running h) (poll_body h config) 0 (calls @ pin_calls config) = None"
      by (metis not_None_eq poll_loop_signal)
    then show ?thesis using True by (simp add: m)
  next
    case False
    then obtain N where "\<not> g_running h N" "\<forall>k < N. g_running h k"
      using exists_least_iff[of "\<lambda>k. \<not> g_running h k"] by blast
    then show ?thesis using False stops by (simp add: m)
  qed
  moreover have "(\<forall>k. g_running h k) \<longleftrightarrow> (\<forall>k. SIGINT \<notin> set (n_signals h k) \<and> SIGTERM \<notin> set (n_signals h k))"
    unfolding g_running_iff by blast
  moreover have "e3_main h argv = Some (Exit 0 (calls @ pin_calls config @ concat (replicate N (poll_body h config))
      @ [AgentStop, StopSlotPipeline, StopIqPipeline, IoStop]))"
    if "SIGINT \<in> set (n_signals h N) \<or> SIGTERM \<in> set (n_signals h N)"
      "\<forall>k < N. SIGINT \<notin> set (n_signals h k) \<and> SIGTERM \<notin> set (n_signals h k)" for N
  proof -
    have "\<not> g_running h N" "\<forall>k < N. g_running h k" unfolding g_running_iff using that by (meson le_less_trans le_refl)+
    from stops[OF this] show ?thesis by (simp add: m cleanup_def)
  qed
  ultimately show ?thesis by blast
qed

text \<open>C37.
  Who shuts jbpf down: in every run that exits, \<^verbatim>\<open>jbpf_io_stop()\<close> is called at most once and last; a run that
  exits with 0 after doing anything ends with the agent, the slot pipeline, the eCPRI pipeline and jbpf stopped in this
  order.  But after jbpf has been initialised it stays up exactly when the agent could not be initialised
  or started or a service model could not be registered.\<close>

theorem main_stops_jbpf:
  assumes "e3_main h argv = Some (Exit code calls)"
  shows "(IoStop \<in> set calls \<longrightarrow> (\<exists>pre. calls = pre @ [IoStop] \<and> IoStop \<notin> set pre))
    \<and> (code = 0 \<and> calls \<noteq> [] \<longrightarrow> (\<exists>pre. calls = pre @ [AgentStop, StopSlotPipeline, StopIqPipeline, IoStop]))
    \<and> (IoRegisterThread \<in> set calls \<and> IoStop \<notin> set calls \<longleftrightarrow> code = 1 \<and> AgentInit \<in> set calls)"
proof -
  have nil: ?thesis if "calls = []" using that by simp
  consider "calls = []" | config where "run_controller h config = Some (Exit code calls)"
    using assms by (auto simp: e3_main_def split: arg_result.splits load_result.splits)
  then show ?thesis
  proof cases
    case (2 config)
    obtain c ok where st: "startup h config = (c, ok)" by fastforce
    have c: "IoStop \<in> set c \<Longrightarrow> \<not> ok \<and> (\<exists>pre. c = pre @ [IoStop] \<and> IoStop \<notin> set pre) \<and> AgentInit \<notin> set c"
      "ok \<Longrightarrow> IoRegisterThread \<in> set c"
      "\<not> ok \<Longrightarrow> IoRegisterThread \<in> set c \<and> IoStop \<notin> set c \<longleftrightarrow> AgentInit \<in> set c"
      using st by (auto simp: startup_def Let_def split: if_splits)
    show ?thesis
    proof (cases ok)
      case False
      then have "calls = c" "code = 1" using 2 st by (simp_all add: run_controller_def)
      then show ?thesis using c False by auto
    next
      case True
      then obtain d where d: "poll_loop (g_running h) (poll_body h config) 0 (c @ pin_calls config) = Some d"
        and calls: "calls = d @ cleanup" "code = 0"
        using 2 st by (auto simp: run_controller_def split: option.splits)
      obtain N where "\<not> g_running h N" "\<forall>k < N. g_running h k" using poll_loop_signal[OF d] by blast
      then have "d = (c @ pin_calls config) @ concat (replicate N (poll_body h config))"
        using d poll_loop_stops[of N "g_running h" 0 "poll_body h config" "c @ pin_calls config"] by simp
      moreover have "IoStop \<notin> set (poll_body h config)" "IoStop \<notin> set (pin_calls config)"
        by (simp_all add: poll_body_def pin_calls_def)
      ultimately have "IoStop \<notin> set d" using c(1) True by auto
      then show ?thesis by (auto simp: calls cleanup_def)
    qed
  qed (rule nil)
qed

section \<open>Concrete runs\<close>

definition demo_host :: "sample_node host" where
  "demo_host = \<lparr>n_yaml = sample_yaml sample_doc,
     n_limits = \<lparr>run_path_len = 200, namespace_len = 32, ipc_max_namelen = 32, default_namespace = ''jbpf''\<rparr>,
     n_signals_ok = True, n_io_init_ok = True, n_thread_ok = True, n_agent_init = SUCCESS, n_register_sm = (\<lambda>_. SUCCESS),
     n_agent_start = SUCCESS, n_pin_ok = True, n_signals = (\<lambda>k. if k = 1 then [1] else if k = 3 then [15] else []), n_x86 = True\<rparr>"

definition demo_argv :: "string list" where
  "demo_argv = [''e3_controller'', ''--config'', ''c.yaml'']"

lemma demo_host_loads: "load_config (n_yaml demo_host) ''c.yaml'' = Loaded sample_config"
  using sample_loads by (simp add: demo_host_def)

theorem main_polls_until_signal_witness:
  "\<exists>calls. e3_main demo_host demo_argv = Some (Exit 0 (calls @ concat (replicate 3 (poll_body demo_host sample_config))
     @ [AgentStop, StopSlotPipeline, StopIqPipeline, IoStop]))"
proof -
  obtain calls where st: "startup demo_host sample_config = (calls, True)"
    by (simp add: startup_def demo_host_def Let_def)
  have "tl demo_argv = concat (map (\<lambda>q. [''--config'', q]) [''c.yaml''])" by (simp add: demo_argv_def)
  from main_polls_until_signal[OF this _ _ _ demo_host_loads st] show ?thesis
    by (intro exI[of _ "calls @ pin_calls sample_config"]) (simp add: demo_host_def SIGINT_def SIGTERM_def)
qed

theorem main_stops_jbpf_witness:
  "\<exists>calls. e3_main (demo_host\<lparr>n_agent_init := INTERNAL_ERROR\<rparr>) demo_argv = Some (Exit 1 calls)
     \<and> IoRegisterThread \<in> set calls \<and> IoStop \<notin> set calls"
proof -
  let ?h = "demo_host\<lparr>n_agent_init := INTERNAL_ERROR\<rparr>"
  have "load_config (n_yaml ?h) ''c.yaml'' = Loaded sample_config" using demo_host_loads by simp
  then obtain calls where m: "e3_main ?h demo_argv = Some (Exit 1 calls)" and a: "AgentInit \<in> set calls"
    by (simp add: e3_main_def demo_argv_def run_controller_def startup_def Let_def demo_host_def)
  from main_stops_jbpf[OF m] m a show ?thesis by auto
qed

end
