(* ===== verification/Start_Report.thy ===== *)
theory Start_Report
  imports E3_Main
begin

text \<open>
  What the controller says about itself before it polls: \<^verbatim>\<open>RadioGeometry::describe()\<close> and \<^verbatim>\<open>print_config()\<close> of
  \<^verbatim>\<open>src/e3_config.cpp\<close>, and \<^verbatim>\<open>report_libe3_provenance()\<close> and the banner of \<^verbatim>\<open>src/e3_controller.cpp\<close>.  Lines are
  strings as printed; a fixed paragraph is a constructor.  The conversion \<^verbatim>\<open>%g\<close>, the strings that the build stamps
  into the binary and the results of \<^verbatim>\<open>stat\<close> are parameters.
\<close>

section \<open>Decimal numbers\<close>

fun show_nat :: "nat \<Rightarrow> string" where
  "show_nat n = (if n < 10 then [char_of (48 + n)] else show_nat (n div 10) @ [char_of (48 + n mod 10)])"

declare show_nat.simps [simp del]

definition show_word :: "'a::len word \<Rightarrow> string" where
  "show_word w = show_nat (unat w)"

definition show_sword :: "i32 \<Rightarrow> string" where
  "show_sword w = (if sint w < 0 then ''-'' @ show_nat (nat (- sint w)) else show_nat (nat (sint w)))"

abbreviation is_digit :: "char \<Rightarrow> bool" where
  "is_digit c \<equiv> 48 \<le> (of_char c :: nat) \<and> (of_char c :: nat) < 58"

text \<open>Reading a decimal number back: the digits up to the first other character.\<close>

definition read_nat :: "string \<Rightarrow> nat \<times> string" where
  "read_nat cs = (foldl (\<lambda>n c. 10 * n + (of_char c - 48)) 0 (takeWhile is_digit cs), dropWhile is_digit cs)"

lemma of_char_digit [simp]: "d < 10 \<Longrightarrow> (of_char (char_of (48 + d) :: char) :: nat) = 48 + d" for d :: nat
  by simp

lemma show_nat_digits: "\<forall>c \<in> set (show_nat n). is_digit c"
proof (induction n rule: show_nat.induct)
  case (1 n)
  then show ?case by (subst show_nat.simps) (auto simp del: of_char_of)
qed

lemma show_nat_value: "foldl (\<lambda>n c. 10 * n + (of_char c - 48)) 0 (show_nat n) = n"
proof (induction n rule: show_nat.induct)
  case (1 n)
  show ?case
  proof (cases "n < 10")
    case True
    then show ?thesis by (subst show_nat.simps) (simp del: of_char_of)
  next
    case False
    then show ?thesis using 1 by (subst show_nat.simps) (simp del: of_char_of)
  qed
qed

lemma split_prefix:
  "\<forall>x \<in> set xs. P x \<Longrightarrow> rest = [] \<or> \<not> P (hd rest) \<Longrightarrow> takeWhile P (xs @ rest) = xs \<and> dropWhile P (xs @ rest) = rest"
  by (induction xs) (cases rest; simp)+

lemma read_show_nat:
  assumes "rest = [] \<or> \<not> is_digit (hd rest)"
  shows "read_nat (show_nat n @ rest) = (n, rest)"
  unfolding read_nat_def using split_prefix[OF show_nat_digits assms] by (metis show_nat_value)

section \<open>The geometry in words\<close>

definition describe :: "RadioGeometry \<Rightarrow> string" where
  "describe g = show_word (nof_ports g) @ '' ports x '' @ show_word (nof_symbols g) @ '' sym x ''
     @ show_word (nof_subcarriers g) @ '' subc ('' @ show_word (nof_prbs g) @ '' PRB, '' @ show_word (scs_khz g) @ '' kHz SCS)''"

text \<open>A description can be read back: the diagnostics of two geometries are equal only for equal geometries.\<close>

definition read_describe :: "string \<Rightarrow> RadioGeometry" where
  "read_describe cs =
     (let (p, r1) = read_nat cs; (s, r2) = read_nat (drop 9 r1); (c, r3) = read_nat (drop 7 r2);
          (b, r4) = read_nat (drop 7 r3); (k, r5) = read_nat (drop 6 r4)
      in \<lparr>nof_ports = of_nat p, nof_prbs = of_nat b, nof_symbols = of_nat s, scs_khz = of_nat k\<rparr>)"

lemma describe_roundtrip: "read_describe (describe g) = g"
  by (simp add: read_describe_def describe_def show_word_def read_show_nat)

corollary describe_inject: "describe g = describe g' \<longleftrightarrow> g = g'"
  by (metis describe_roundtrip)

section \<open>The configuration report\<close>

definition em_dash :: string where
  "em_dash = [char_of (0xE2 :: nat), char_of (0x80 :: nat), char_of (0x94 :: nat)]"

text \<open>The line on stage records; \<open>latrec\<close> says whether the recorder is compiled in, \<open>default_dir\<close> is \<^verbatim>\<open>LATREC_DEFAULT_DIR\<close>.\<close>

definition stage_line :: "bool \<Rightarrow> string \<Rightarrow> string \<Rightarrow> string" where
  "stage_line latrec default_dir dir =
     (if latrec then ''  stage recs: enabled -> '' @ (if dir = [] then default_dir @ '' (libe3 default)'' else dir)
      else if dir \<noteq> [] then ''  stage recs: IGNORED ('' @ dir @ ''): libe3 built without -DLIBE3_ENABLE_LATREC''
      else ''  stage recs: not compiled in'')"

definition print_config :: "(f32 \<Rightarrow> string) \<Rightarrow> bool \<Rightarrow> string \<Rightarrow> ControllerConfig \<Rightarrow> string list" where
  "print_config percent_g latrec default_dir cfg =
     [''E3Controller configuration:'',
      ''  radio:      '' @ describe (radio cfg),
      ''              row = '' @ show_word (num_fh_samples (radio cfg)) @ '' uint16 ('' @ show_word (row_bytes (radio cfg))
        @ '' bytes), '' @ show_word (slots_per_frame (radio cfg)) @ '' slots/frame'',
      ''  shm:        '' @ shm_name (shm cfg) @ '', '' @ show_word (size_bytes (shm cfg)) @ '' bytes, cbf16_scale=''
        @ percent_g (cbf16_scale (shm cfg)),
      ''  row writer: '' @ to_string (writer (shm cfg))
        @ (if writer (shm cfg) = Gnb then ''  (gNB helper converts + writes; controller owns the region only)''
           else ''  (controller converts + writes)''),
      ''  jbpf:       ipc='' @ ipc_name (jbpf cfg) @ '' run='' @ run_path (jbpf cfg) @ '' lcm='' @ lcm_socket_path (jbpf cfg),
      ''  codelets:   '' @ (if codelet_base_path (jbpf cfg) = [] then ''(none '' @ em_dash @ '' no auto-loading)''
        else codelet_base_path (jbpf cfg)),
      ''  e3:         ports '' @ show_word (setup_port (e3 cfg)) @ ''/'' @ show_word (publisher_port (e3 cfg)) @ ''/''
        @ show_word (subscriber_port (e3 cfg)),
      ''  threads:    poll='' @ show_sword (poll_core (threads cfg)) @ '' worker='' @ show_sword (worker_core (threads cfg))
        @ '' publisher='' @ show_sword (publisher_core (threads cfg))]
     @ (if sint (target_slot cfg) \<ge> 0 then [''  target_slot: '' @ show_sword (target_slot cfg) @ '' (controller-side filter)''] else [])
     @ (if drops_log_path (logging cfg) \<noteq> [] then [''  drop log:   '' @ drops_log_path (logging cfg)] else [])
     @ [stage_line latrec default_dir (latrec_dir (logging cfg))]"

text \<open>
  The states the comment in the code wants told apart at start-up: the line determines whether the recorder is compiled
  in and which directory is set, except that a directory named like the text for the default is not
  distinguished from the default.
\<close>

lemma stage_line_distinguishes:
  assumes "stage_line latrec def dir = stage_line latrec' def dir'"
    and "dir \<noteq> def @ '' (libe3 default)''" "dir' \<noteq> def @ '' (libe3 default)''"
  shows "latrec = latrec' \<and> dir = dir'"
  using assms by (auto simp: stage_line_def split: if_splits)

lemma stage_line_default_ambiguous: "stage_line True def (def @ '' (libe3 default)'') = stage_line True def []"
  by (simp add: stage_line_def)

section \<open>The linked library\<close>

text \<open>What the build stamps into the binary.\<close>

record libe3_stamp =
  stamp_version :: string
  stamp_sleep_us :: string
  stamp_buildtype :: string
  stamp_lib :: string

datatype provenance_line = Linked string string string | EmptyBuildType | NewerThanBinary string

text \<open>\<open>stat_lib\<close> and \<open>stat_self\<close> are the modification times in seconds, \<open>None\<close> when \<^verbatim>\<open>stat\<close> fails.\<close>

definition report_libe3_provenance :: "libe3_stamp \<Rightarrow> int option \<Rightarrow> int option \<Rightarrow> provenance_line list" where
  "report_libe3_provenance st stat_lib stat_self =
     Linked (stamp_version st) (stamp_sleep_us st) (stamp_buildtype st)
     # (if length (stamp_buildtype st) = 0 then [EmptyBuildType] else [])
     @ (case stat_lib of
          None \<Rightarrow> []
        | Some lib \<Rightarrow> (case stat_self of
            None \<Rightarrow> []
          | Some self \<Rightarrow> if lib > self then [NewerThanBinary (stamp_lib st)] else []))"

text \<open>
  The warning that the process runs an outdated library is given exactly for a strictly newer file: a library
  installed within the second in which the binary was linked goes unnoticed.
\<close>

lemma stale_library_reported:
  "NewerThanBinary f \<in> set (report_libe3_provenance st stat_lib stat_self)
    \<longleftrightarrow> f = stamp_lib st \<and> (\<exists>lib self. stat_lib = Some lib \<and> stat_self = Some self \<and> self < lib)"
  by (auto simp: report_libe3_provenance_def split: option.splits)

section \<open>The banner\<close>

definition encoding_name :: "EncodingFormat \<Rightarrow> string" where
  "encoding_name e = (if e = JSON then ''JSON'' else ''ASN.1 (APER)'')"

text \<open>The note on the socket that the gNB has not created yet; \<open>stat_lcm\<close> is whether it exists.\<close>

datatype start_note = LcmSocketMissing string string

definition lcm_note :: "bool \<Rightarrow> ControllerConfig \<Rightarrow> start_note list" where
  "lcm_note stat_lcm config = (if stat_lcm then [] else [LcmSocketMissing (lcm_socket_path (jbpf config)) (run_path (jbpf config))])"

definition agent_banner :: "(E3LinkLayer \<Rightarrow> string) \<Rightarrow> (E3TransportLayer \<Rightarrow> string) \<Rightarrow> ControllerConfig \<Rightarrow> string list" where
  "agent_banner link_layer_to_string transport_layer_to_string config =
     [''============================================='',
      ''E3 Agent Configuration (single-encoding):'',
      ''  RAN ID:      ocudu-janus'',
      ''  Encoding:    '' @ encoding_name (encoding (e3 config)),
      ''  Link layer:  '' @ link_layer_to_string (link_layer (e3 config)),
      ''  Transport:   '' @ transport_layer_to_string (transport (e3 config)),
      ''  Channel:     setup='' @ show_word (setup_port (e3 config)) @ '' publisher='' @ show_word (publisher_port (e3 config))
        @ '' subscriber='' @ show_word (subscriber_port (e3 config)),
      ''  Spectrum stats: '' @ (if spectrum_stats_log_path (logging config) = [] then ''(disabled)''
        else spectrum_stats_log_path (logging config)),
      []]"

definition interval_line :: "ControllerConfig \<Rightarrow> string" where
  "interval_line config = ''  Poll interval:  '' @ show_sword (poll_interval_us (threads config)) @ '' us''
     @ (if sint (poll_core (threads config)) \<ge> 0 then '' (ignored '' @ em_dash @ '' busy poll on dedicated core)'' else [])"

definition core_line :: "string \<Rightarrow> i32 \<Rightarrow> string \<Rightarrow> string" where
  "core_line label core none = label @ (if sint core \<ge> 0 then show_sword core else none)"

definition codelet_banner :: "ControllerConfig \<Rightarrow> string list" where
  "codelet_banner config =
     [''============================================='', ''  E3Controller Codelet Configuration'',
      ''============================================='',
      ''  IPC name:       '' @ ipc_name (jbpf config),
      ''  Run path:       '' @ run_path (jbpf config),
      ''  Memory size:    '' @ show_word (mem_size_bytes (jbpf config)) @ '' bytes'',
      interval_line config,
      core_line ''  Poll core:      '' (poll_core (threads config)) (''(none '' @ em_dash @ '' sleep-based)''),
      core_line ''  Worker core:    '' (worker_core (threads config)) ''(none)'',
      core_line ''  Publisher core: '' (publisher_core (threads config)) ''(none)'',
      ''  Num PRBs:       '' @ show_word (nof_prbs (radio config)),
      ''  LCM socket:     '' @ lcm_socket_path (jbpf config),
      ''  Codelet path:   '' @ (if codelet_base_path (jbpf config) = [] then ''(none '' @ em_dash @ '' auto-loading disabled)''
        else codelet_base_path (jbpf config)),
      ''============================================='', []]"

text \<open>
  The banner promises that the poll interval is ignored whenever a poll core is set.  The loop keeps that promise
  only when the thread could be pinned; otherwise it sleeps for the interval all the same.
\<close>

lemma interval_ignored_iff_pinned:
  assumes "sint (poll_core (threads config)) \<ge> 0" "sint (poll_interval_us (threads config)) > 0"
  shows "Usleep (poll_interval_us (threads config)) \<in> set (poll_body h config) \<longleftrightarrow> \<not> n_pin_ok h"
  using assms by (auto simp: poll_body_def)

end
