(* ===== verification/Pipeline_Concurrency.thy ===== *)
theory Pipeline_Concurrency
  imports Slot_Iq_Pipeline Iq_Pipeline
begin

text \<open>
  The two threads that share a pipeline's ring, one memory access at a time: the poll thread in
  \<^verbatim>\<open>process_buffers()\<close> and the worker in \<^verbatim>\<open>worker_loop()\<close>, of \<^verbatim>\<open>slot_iq_pipeline.cpp\<close> and \<^verbatim>\<open>iq_pipeline.cpp\<close> alike.
  Each thread holds what it has loaded in local variables.  A step of either thread may come between any
  two of the other's.  A load returns the last value stored, so the shared memory is one state; \<open>Ring_Memory\<close>
  treats the memory orders.  While the producer fills a slot,
  field by field, the slot may hold anything (\<open>p_scribble\<close>).  The abstract queue below knows nothing
  of counters, slots or local copies; the theorem is a simulation of it.
\<close>

section \<open>The two threads\<close>

text \<open>
  \<open>PLoadHead\<close>, \<open>PLoadTail\<close>: about to load the counters for the entry at hand; \<open>PWrite\<close>: room was found, the slot
  is being written; \<open>PPublish\<close>: the slot is written, the head is not yet stored.
\<close>

datatype producer = PIdle | PLoadTail QueueEntry u64 | PWrite QueueEntry u64 | PPublish u64

text \<open>
  \<open>CLoadHead\<close>: the tail is loaded; \<open>CDispatch\<close>: an entry was found; \<open>CRelease\<close>: the consumers have run;
  \<open>CAdvance\<close>: the buffer is released, the tail is not yet stored.
\<close>

datatype worker = CIdle | CLoadHead u64 | CDispatch u64 | CRelease u64 | CAdvance u64

text \<open>Three logs are kept beside: entries published, entries dispatched, and buffers released by the worker or dropped.\<close>

record spsc =
  r_ring :: "QueueEntry spsc_ring"
  r_producer :: producer
  r_worker :: worker
  r_accepted :: "QueueEntry list"
  r_dispatched :: "QueueEntry list"
  r_released :: "nat list"
  r_dropped :: "nat list"

definition spsc_init :: "u64 \<Rightarrow> spsc" where
  "spsc_init cap =
     \<lparr>r_ring = ring_init cap zero_entry, r_producer = PIdle, r_worker = CIdle, r_accepted = [], r_dispatched = [],
      r_released = [], r_dropped = []\<rparr>"

abbreviation slot_at :: "u64 \<Rightarrow> spsc \<Rightarrow> u64 \<Rightarrow> QueueEntry" where
  "slot_at cap s i \<equiv> queue_slots (r_ring s) ! ring_index cap i"

abbreviation write_slot :: "u64 \<Rightarrow> u64 \<Rightarrow> QueueEntry \<Rightarrow> spsc \<Rightarrow> spsc" where
  "write_slot cap i e s \<equiv>
     s\<lparr>r_ring := (r_ring s)\<lparr>queue_slots := (queue_slots (r_ring s))[ring_index cap i := e]\<rparr>\<rparr>"

inductive spsc_step :: "u64 \<Rightarrow> spsc \<Rightarrow> spsc \<Rightarrow> bool" for cap :: u64 where
  p_load_head:
    "r_producer s = PIdle \<Longrightarrow> spsc_step cap s (s\<lparr>r_producer := PLoadTail e (queue_head (r_ring s))\<rparr>)"
| p_full:
    "r_producer s = PLoadTail e head \<Longrightarrow> head - queue_tail (r_ring s) \<ge> cap \<Longrightarrow>
     spsc_step cap s (s\<lparr>r_producer := PIdle, r_dropped := r_dropped s @ [q_buf e]\<rparr>)"
| p_room:
    "r_producer s = PLoadTail e head \<Longrightarrow> \<not> head - queue_tail (r_ring s) \<ge> cap \<Longrightarrow>
     spsc_step cap s (s\<lparr>r_producer := PWrite e head\<rparr>)"
| p_scribble:
    "r_producer s = PWrite e head \<Longrightarrow> spsc_step cap s (write_slot cap head garbage s)"
| p_written:
    "r_producer s = PWrite e head \<Longrightarrow> spsc_step cap s ((write_slot cap head e s)\<lparr>r_producer := PPublish head\<rparr>)"
| p_publish:
    "r_producer s = PPublish head \<Longrightarrow>
     spsc_step cap s (s\<lparr>r_ring := (r_ring s)\<lparr>queue_head := head + 1\<rparr>, r_producer := PIdle,
       r_accepted := r_accepted s @ [slot_at cap s head]\<rparr>)"
| c_load_tail:
    "r_worker s = CIdle \<Longrightarrow> spsc_step cap s (s\<lparr>r_worker := CLoadHead (queue_tail (r_ring s))\<rparr>)"
| c_empty:
    "r_worker s = CLoadHead tail \<Longrightarrow> queue_head (r_ring s) = tail \<Longrightarrow> spsc_step cap s (s\<lparr>r_worker := CIdle\<rparr>)"
| c_found:
    "r_worker s = CLoadHead tail \<Longrightarrow> queue_head (r_ring s) \<noteq> tail \<Longrightarrow> spsc_step cap s (s\<lparr>r_worker := CDispatch tail\<rparr>)"
| c_dispatch:
    "r_worker s = CDispatch tail \<Longrightarrow>
     spsc_step cap s (s\<lparr>r_worker := CRelease tail, r_dispatched := r_dispatched s @ [slot_at cap s tail]\<rparr>)"
| c_release:
    "r_worker s = CRelease tail \<Longrightarrow>
     spsc_step cap s (s\<lparr>r_worker := CAdvance tail, r_released := r_released s @ [q_buf (slot_at cap s tail)]\<rparr>)"
| c_advance:
    "r_worker s = CAdvance tail \<Longrightarrow>
     spsc_step cap s (s\<lparr>r_ring := (r_ring s)\<lparr>queue_tail := tail + 1\<rparr>, r_worker := CIdle\<rparr>)"

section \<open>The abstract queue\<close>

text \<open>A bounded queue whose first entry is served in place and keeps its room until it is removed.\<close>

datatype service = Waiting | Served | Returned_buf

record aqueue =
  b_queue :: "QueueEntry list"
  b_service :: service
  b_accepted :: "QueueEntry list"
  b_dispatched :: "QueueEntry list"
  b_released :: "nat list"
  b_dropped :: "nat list"

definition aqueue_init :: aqueue where
  "aqueue_init = \<lparr>b_queue = [], b_service = Waiting, b_accepted = [], b_dispatched = [], b_released = [], b_dropped = []\<rparr>"

inductive aqueue_step :: "nat \<Rightarrow> aqueue \<Rightarrow> aqueue \<Rightarrow> bool" for n :: nat where
  a_enqueue: "length (b_queue a) < n \<Longrightarrow> aqueue_step n a (a\<lparr>b_queue := b_queue a @ [e], b_accepted := b_accepted a @ [e]\<rparr>)"
| a_drop: "length (b_queue a) = n \<Longrightarrow> aqueue_step n a (a\<lparr>b_dropped := b_dropped a @ [b]\<rparr>)"
| a_serve: "b_queue a = e # es \<Longrightarrow> b_service a = Waiting \<Longrightarrow>
    aqueue_step n a (a\<lparr>b_service := Served, b_dispatched := b_dispatched a @ [e]\<rparr>)"
| a_return: "b_queue a = e # es \<Longrightarrow> b_service a = Served \<Longrightarrow>
    aqueue_step n a (a\<lparr>b_service := Returned_buf, b_released := b_released a @ [q_buf e]\<rparr>)"
| a_remove: "b_queue a = e # es \<Longrightarrow> b_service a = Returned_buf \<Longrightarrow>
    aqueue_step n a (a\<lparr>b_service := Waiting, b_queue := es\<rparr>)"

definition service_of :: "worker \<Rightarrow> service" where
  "service_of w = (case w of CRelease _ \<Rightarrow> Served | CAdvance _ \<Rightarrow> Returned_buf | _ \<Rightarrow> Waiting)"

definition queue_of :: "u64 \<Rightarrow> spsc \<Rightarrow> aqueue" where
  "queue_of cap s =
     \<lparr>b_queue = ring_contents cap (r_ring s), b_service = service_of (r_worker s), b_accepted = r_accepted s,
      b_dispatched = r_dispatched s, b_released = r_released s, b_dropped = r_dropped s\<rparr>"

section \<open>What each thread may rely on\<close>

definition producer_ok :: "u64 \<Rightarrow> spsc \<Rightarrow> bool" where
  "producer_ok cap s = (case r_producer s of
      PIdle \<Rightarrow> True
    | PLoadTail e head \<Rightarrow> head = queue_head (r_ring s)
    | PWrite e head \<Rightarrow> head = queue_head (r_ring s) \<and> \<not> ring_full cap (r_ring s)
    | PPublish head \<Rightarrow> head = queue_head (r_ring s) \<and> \<not> ring_full cap (r_ring s))"

definition worker_ok :: "spsc \<Rightarrow> bool" where
  "worker_ok s = (case r_worker s of
      CIdle \<Rightarrow> True
    | CLoadHead tail \<Rightarrow> tail = queue_tail (r_ring s)
    | CDispatch tail \<Rightarrow> tail = queue_tail (r_ring s) \<and> \<not> ring_empty (r_ring s)
    | CRelease tail \<Rightarrow> tail = queue_tail (r_ring s) \<and> \<not> ring_empty (r_ring s)
    | CAdvance tail \<Rightarrow> tail = queue_tail (r_ring s) \<and> \<not> ring_empty (r_ring s))"

definition spsc_ok :: "u64 \<Rightarrow> spsc \<Rightarrow> bool" where
  "spsc_ok cap s \<longleftrightarrow> ring_ok cap (r_ring s) \<and> producer_ok cap s \<and> worker_ok s"

lemma spsc_init_ok: "spsc_ok cap (spsc_init cap)"
  by (simp add: spsc_ok_def spsc_init_def producer_ok_def worker_ok_def)

lemma spsc_init_queue: "queue_of cap (spsc_init cap) = aqueue_init"
  by (simp add: queue_of_def spsc_init_def aqueue_init_def service_of_def)

context power_of_two_capacity
begin

text \<open>Storing the head publishes the slot it pointed at.\<close>

lemma publish_head:
  assumes "ring_ok cap r" "\<not> ring_full cap r"
  shows "ring_ok cap (r\<lparr>queue_head := queue_head r + 1\<rparr>)"
    and "ring_contents cap (r\<lparr>queue_head := queue_head r + 1\<rparr>)
      = ring_contents cap r @ [queue_slots r ! ring_index cap (queue_head r)]"
    and "\<not> ring_empty (r\<lparr>queue_head := queue_head r + 1\<rparr>)"
proof -
  have "r\<lparr>queue_head := queue_head r + 1\<rparr> = ring_push cap (queue_slots r ! ring_index cap (queue_head r)) r"
    by (simp add: ring_push_def)
  then show "ring_ok cap (r\<lparr>queue_head := queue_head r + 1\<rparr>)"
    and c: "ring_contents cap (r\<lparr>queue_head := queue_head r + 1\<rparr>)
      = ring_contents cap r @ [queue_slots r ! ring_index cap (queue_head r)]"
    using ring_push_ok[OF assms] by simp_all
  show "\<not> ring_empty (r\<lparr>queue_head := queue_head r + 1\<rparr>)" unfolding ring_empty_contents[of _ cap] c by simp
qed

text \<open>Writing the slot under the head touches no queued entry.\<close>

lemma write_head_slot:
  assumes "ring_ok cap r" "\<not> ring_full cap r"
  shows "ring_ok cap (r\<lparr>queue_slots := (queue_slots r)[ring_index cap (queue_head r) := e]\<rparr>)"
    and "ring_contents cap (r\<lparr>queue_slots := (queue_slots r)[ring_index cap (queue_head r) := e]\<rparr>) = ring_contents cap r"
proof -
  let ?w = "r\<lparr>queue_slots := (queue_slots r)[ring_index cap (queue_head r) := e]\<rparr>"
  have w: "ring_ok cap ?w" "\<not> ring_full cap ?w" using assms by (simp_all add: ring_ok_def ring_full_def)
  have "?w\<lparr>queue_head := queue_head ?w + 1\<rparr> = ring_push cap e r" by (simp add: ring_push_def)
  then have "ring_contents cap ?w @ [queue_slots ?w ! ring_index cap (queue_head ?w)] = ring_contents cap r @ [e]"
    using publish_head(2)[OF w] ring_push_ok(2)[OF assms, of e] by simp
  then show "ring_contents cap ?w = ring_contents cap r" by simp
  show "ring_ok cap ?w" by (rule w(1))
qed

lemma advance_tail:
  assumes "ring_ok cap r" "\<not> ring_empty r"
  shows "ring_ok cap (r\<lparr>queue_tail := queue_tail r + 1\<rparr>)"
    and "ring_contents cap (r\<lparr>queue_tail := queue_tail r + 1\<rparr>) = tl (ring_contents cap r)"
    and "\<not> ring_full cap (r\<lparr>queue_tail := queue_tail r + 1\<rparr>)"
proof -
  have pop: "r\<lparr>queue_tail := queue_tail r + 1\<rparr> = ring_pop r" by (simp add: ring_pop_def)
  show ok: "ring_ok cap (r\<lparr>queue_tail := queue_tail r + 1\<rparr>)" unfolding pop using assms by (rule ring_pop_ok)
  show c: "ring_contents cap (r\<lparr>queue_tail := queue_tail r + 1\<rparr>) = tl (ring_contents cap r)"
    unfolding pop using assms(2) by (rule ring_pop_contents)
  have "ring_contents cap r \<noteq> []" using assms(2) by (simp add: ring_empty_contents[of _ cap])
  then have "length (tl (ring_contents cap r)) < unat cap"
    using assms(1) ring.bounded[OF assms(1)] by (cases "ring_contents cap r") simp_all
  then show "\<not> ring_full cap (r\<lparr>queue_tail := queue_tail r + 1\<rparr>)" using ring_full_iff[OF ok] c by simp
qed

lemma front_slot:
  assumes "\<not> ring_empty r"
  shows "ring_contents cap r = queue_slots r ! ring_index cap (queue_tail r) # tl (ring_contents cap r)"
  using ring_front_hd[OF assms] assms ring_empty_contents[of r cap]
  by (cases "ring_contents cap r") (simp_all add: ring_front_def)

text \<open>The steps that the abstract queue sees, one by one.\<close>

lemma drop_refines:
  assumes "spsc_ok cap s" "r_producer s = PLoadTail e head" "head - queue_tail (r_ring s) \<ge> cap"
  shows "aqueue_step (unat cap) (queue_of cap s) ((queue_of cap s)\<lparr>b_dropped := r_dropped s @ [q_buf e]\<rparr>)"
proof -
  have "ring_full cap (r_ring s)" "ring_ok cap (r_ring s)" using assms by (auto simp: spsc_ok_def producer_ok_def ring_full_def)
  then have "length (b_queue (queue_of cap s)) = unat cap" by (simp add: queue_of_def ring_full_iff)
  from a_drop[OF this, of "q_buf e"] show ?thesis by (simp add: queue_of_def)
qed

lemma enqueue_refines:
  assumes "ring_ok cap (r_ring s)" "\<not> ring_full cap (r_ring s)"
  shows "aqueue_step (unat cap) (queue_of cap s)
    ((queue_of cap s)\<lparr>b_queue := ring_contents cap (r_ring s) @ [e], b_accepted := r_accepted s @ [e]\<rparr>)"
proof -
  have "length (b_queue (queue_of cap s)) < unat cap"
    using assms ring.bounded[OF assms(1)] ring_full_iff[OF assms(1)] by (fastforce simp: queue_of_def)
  from a_enqueue[OF this, of e] show ?thesis by (simp add: queue_of_def)
qed

lemma serve_refines:
  assumes "\<not> ring_empty (r_ring s)" "service_of (r_worker s) = Waiting" "tail = queue_tail (r_ring s)"
  shows "aqueue_step (unat cap) (queue_of cap s)
    ((queue_of cap s)\<lparr>b_service := Served, b_dispatched := r_dispatched s @ [slot_at cap s tail]\<rparr>)"
proof -
  have "aqueue_step (unat cap) (queue_of cap s) ((queue_of cap s)\<lparr>b_service := Served, b_dispatched := b_dispatched (queue_of cap s) @ [slot_at cap s tail]\<rparr>)"
    using front_slot[OF assms(1)] assms(2,3) by (intro a_serve) (simp_all add: queue_of_def)
  then show ?thesis by (simp add: queue_of_def)
qed

lemma return_refines:
  assumes "\<not> ring_empty (r_ring s)" "service_of (r_worker s) = Served" "tail = queue_tail (r_ring s)"
  shows "aqueue_step (unat cap) (queue_of cap s)
    ((queue_of cap s)\<lparr>b_service := Returned_buf, b_released := r_released s @ [q_buf (slot_at cap s tail)]\<rparr>)"
proof -
  have "aqueue_step (unat cap) (queue_of cap s) ((queue_of cap s)\<lparr>b_service := Returned_buf, b_released := b_released (queue_of cap s) @ [q_buf (slot_at cap s tail)]\<rparr>)"
    using front_slot[OF assms(1)] assms(2,3) by (intro a_return) (simp_all add: queue_of_def)
  then show ?thesis by (simp add: queue_of_def)
qed

lemma remove_refines:
  assumes "\<not> ring_empty (r_ring s)" "service_of (r_worker s) = Returned_buf"
  shows "aqueue_step (unat cap) (queue_of cap s)
    ((queue_of cap s)\<lparr>b_service := Waiting, b_queue := tl (ring_contents cap (r_ring s))\<rparr>)"
proof -
  have "aqueue_step (unat cap) (queue_of cap s) ((queue_of cap s)\<lparr>b_service := Waiting, b_queue := tl (ring_contents cap (r_ring s))\<rparr>)"
    using front_slot[OF assms(1)] assms(2) by (intro a_remove) (simp_all add: queue_of_def)
  then show ?thesis by (simp add: queue_of_def)
qed

lemmas spsc_defs = queue_of_def spsc_ok_def producer_ok_def worker_ok_def service_of_def

lemma write_refines:
  assumes "spsc_ok cap s" "r_producer s = PWrite e head" "s' = write_slot cap head x s \<or> s' = (write_slot cap head x s)\<lparr>r_producer := PPublish head\<rparr>"
  shows "spsc_ok cap s' \<and> queue_of cap s' = queue_of cap s"
proof -
  have "ring_ok cap (r_ring s)" "\<not> ring_full cap (r_ring s)" "head = queue_head (r_ring s)"
    using assms(1,2) by (simp_all add: spsc_ok_def producer_ok_def)
  from write_head_slot[OF this(1,2), of x] this(3) assms show ?thesis
    by (auto simp: spsc_defs ring_full_def ring_empty_def split: worker.splits)
qed

lemma spsc_step_refines:
  assumes "spsc_step cap s s'" "spsc_ok cap s"
  shows "spsc_ok cap s' \<and> (queue_of cap s' = queue_of cap s \<or> aqueue_step (unat cap) (queue_of cap s) (queue_of cap s'))"
  using assms
proof (induction rule: spsc_step.induct)
  case (p_full s e head)
  from drop_refines[OF p_full(3,1,2)] p_full show ?case by (auto simp: spsc_defs split: worker.splits)
next
  case (p_scribble s e head garbage)
  then show ?case using write_refines[of s e head _ garbage] by blast
next
  case (p_written s e head)
  then show ?case using write_refines[of s e head _ e] by blast
next
  case (p_publish s head)
  then have r: "ring_ok cap (r_ring s)" "\<not> ring_full cap (r_ring s)" "head = queue_head (r_ring s)"
    by (simp_all add: spsc_ok_def producer_ok_def)
  from enqueue_refines[OF r(1,2), of "slot_at cap s head"] publish_head[OF r(1,2)] r(3) p_publish show ?case
    by (auto simp: spsc_defs split: worker.splits)
next
  case (c_dispatch s tail)
  then have t: "tail = queue_tail (r_ring s)" "\<not> ring_empty (r_ring s)" by (simp_all add: spsc_ok_def worker_ok_def)
  from serve_refines[OF t(2) _ t(1)] c_dispatch t show ?case by (auto simp: spsc_defs split: producer.splits)
next
  case (c_release s tail)
  then have t: "tail = queue_tail (r_ring s)" "\<not> ring_empty (r_ring s)" by (simp_all add: spsc_ok_def worker_ok_def)
  from return_refines[OF t(2) _ t(1)] c_release t show ?case by (auto simp: spsc_defs split: producer.splits)
next
  case (c_advance s tail)
  then have r: "ring_ok cap (r_ring s)" "tail = queue_tail (r_ring s)" "\<not> ring_empty (r_ring s)"
    by (simp_all add: spsc_ok_def worker_ok_def)
  from remove_refines[OF r(3)] advance_tail[OF r(1,3)] r(2) c_advance show ?case by (auto simp: spsc_defs split: producer.splits)
qed (auto simp: spsc_defs ring_full_def ring_empty_def split: producer.splits worker.splits)

lemma spsc_refines:
  assumes "(spsc_step cap)\<^sup>*\<^sup>* (spsc_init cap) s"
  shows "spsc_ok cap s \<and> (aqueue_step (unat cap))\<^sup>*\<^sup>* aqueue_init (queue_of cap s)"
  using assms
proof (induction rule: rtranclp_induct)
  case base
  then show ?case by (simp add: spsc_init_ok spsc_init_queue)
next
  case (step s s')
  then show ?case using spsc_step_refines[of s s'] by (metis rtranclp.rtrancl_into_rtrancl)
qed

end

section \<open>First in, first out\<close>

text \<open>In every state of the abstract queue, with \<open>gone\<close> the entries already removed.\<close>

definition fifo_ok :: "nat \<Rightarrow> aqueue \<Rightarrow> bool" where
  "fifo_ok n a \<longleftrightarrow> length (b_queue a) \<le> n \<and> (b_service a \<noteq> Waiting \<longrightarrow> b_queue a \<noteq> []) \<and> (\<exists>gone.
     b_accepted a = gone @ b_queue a
     \<and> b_dispatched a = gone @ (if b_service a = Waiting then [] else take 1 (b_queue a))
     \<and> b_released a = map q_buf (gone @ (if b_service a = Returned_buf then take 1 (b_queue a) else [])))"

lemma aqueue_fifo: "(aqueue_step n)\<^sup>*\<^sup>* aqueue_init a \<Longrightarrow> fifo_ok n a"
proof (induction rule: rtranclp_induct)
  case base
  then show ?case by (simp add: fifo_ok_def aqueue_init_def)
next
  case (step a a')
  from step(2,3) show ?case
  proof (cases rule: aqueue_step.cases)
    case (a_remove e es)
    then obtain gone where "b_accepted a = gone @ e # es" "b_dispatched a = gone @ [e]" "b_released a = map q_buf (gone @ [e])"
      using step(3) by (auto simp: fifo_ok_def)
    then show ?thesis using a_remove step(3) by (auto simp: fifo_ok_def intro: exI[of _ "gone @ [e]"])
  next
    case (a_enqueue e)
    then show ?thesis using step(3) by (cases "b_queue a") (auto simp: fifo_ok_def)
  qed (auto simp: fifo_ok_def)
qed

lemma fifo_prefix:
  assumes "fifo_ok n a"
  shows "\<exists>rest. b_accepted a = b_dispatched a @ rest \<and> length rest \<le> n"
    and "\<exists>late. map q_buf (b_dispatched a) = b_released a @ late \<and> length late \<le> 1"
proof -
  obtain gone where g: "b_accepted a = gone @ b_queue a"
      "b_dispatched a = gone @ (if b_service a = Waiting then [] else take 1 (b_queue a))"
      "b_released a = map q_buf (gone @ (if b_service a = Returned_buf then take 1 (b_queue a) else []))"
    and n: "length (b_queue a) \<le> n" using assms by (auto simp: fifo_ok_def)
  show "\<exists>rest. b_accepted a = b_dispatched a @ rest \<and> length rest \<le> n"
    using g(1,2) n by (intro exI[of _ "if b_service a = Waiting then b_queue a else drop 1 (b_queue a)"]) auto
  show "\<exists>late. map q_buf (b_dispatched a) = b_released a @ late \<and> length late \<le> 1"
    using g(2,3) by (intro exI[of _ "if b_service a = Served then map q_buf (take 1 (b_queue a)) else []"])
      (cases "b_service a"; simp)
qed

text \<open>C7.
  Under every interleaving of their memory accesses the poll thread and the worker together behave as a bounded
  queue of 32 (slot) or 64 (eCPRI) entries: each step of the code is a step of the abstract queue or invisible
  to it, a buffer is dropped only at a moment when the queue really is full, a half-written slot is never
  dispatched, and wrapping counters change nothing.  Hence entries are dispatched in the order they were
  published, with at most a queue's length outstanding, and buffers are released once each in that order,
  at most one behind the dispatches.\<close>

theorem spsc_refines_queue:
  assumes "cap = slot_QUEUE_CAPACITY \<or> cap = iq_QUEUE_CAPACITY" and "(spsc_step cap)\<^sup>*\<^sup>* (spsc_init cap) s"
  shows "(aqueue_step (unat cap))\<^sup>*\<^sup>* aqueue_init (queue_of cap s)
    \<and> (\<exists>rest. r_accepted s = r_dispatched s @ rest \<and> length rest \<le> unat cap)
    \<and> (\<exists>late. map q_buf (r_dispatched s) = r_released s @ late \<and> length late \<le> 1)"
proof -
  have r: "(aqueue_step (unat cap))\<^sup>*\<^sup>* aqueue_init (queue_of cap s)"
    using assms slot_ring.spsc_refines[folded slot_QUEUE_CAPACITY_def] iq_ring.spsc_refines[folded iq_QUEUE_CAPACITY_def] by metis
  from fifo_prefix[OF aqueue_fifo[OF this]] this show ?thesis by (simp add: queue_of_def)
qed

text \<open>A run in which the worker looks at the ring while a slot is half written.\<close>

theorem spsc_refines_queue_witness:
  "\<exists>s. (spsc_step slot_QUEUE_CAPACITY)\<^sup>*\<^sup>* (spsc_init slot_QUEUE_CAPACITY) s \<and> r_accepted s = [zero_entry\<lparr>q_buf := 8\<rparr>]
     \<and> (aqueue_step (unat slot_QUEUE_CAPACITY))\<^sup>*\<^sup>* aqueue_init (queue_of slot_QUEUE_CAPACITY s)"
proof -
  let ?c = slot_QUEUE_CAPACITY and ?e = "zero_entry\<lparr>q_buf := 8\<rparr>"
  let ?s0 = "spsc_init ?c"
  let ?s1 = "?s0\<lparr>r_producer := PLoadTail ?e 0\<rparr>"
  let ?s2 = "?s1\<lparr>r_producer := PWrite ?e 0\<rparr>"
  let ?s3 = "?s2\<lparr>r_worker := CLoadHead 0\<rparr>"
  let ?s4 = "(write_slot ?c 0 ?e ?s3)\<lparr>r_producer := PPublish 0\<rparr>"
  let ?s5 = "?s4\<lparr>r_ring := (r_ring ?s4)\<lparr>queue_head := 1\<rparr>, r_producer := PIdle, r_accepted := [?e]\<rparr>"
  have "spsc_step ?c ?s0 ?s1" using p_load_head[of ?s0 ?c ?e] by (simp add: spsc_init_def ring_init_def)
  moreover have "spsc_step ?c ?s1 ?s2"
    using p_room[of ?s1 ?e 0 ?c] by (simp add: spsc_init_def ring_init_def slot_QUEUE_CAPACITY_def)
  moreover have "spsc_step ?c ?s2 ?s3" using c_load_tail[of ?s2 ?c] by (simp add: spsc_init_def ring_init_def)
  moreover have "spsc_step ?c ?s3 ?s4" using p_written[of ?s3 ?e 0 ?c] by simp
  moreover have "spsc_step ?c ?s4 ?s5"
    using p_publish[of ?s4 0 ?c] by (simp add: spsc_init_def ring_init_def slot_QUEUE_CAPACITY_def ring_index_def)
  ultimately have run: "(spsc_step ?c)\<^sup>*\<^sup>* ?s0 ?s5" by (meson rtranclp.rtrancl_into_rtrancl rtranclp.rtrancl_refl)
  from spsc_refines_queue[OF disjI1[OF refl] run] run show ?thesis by (intro exI[of _ ?s5]) simp
qed

section \<open>A batch in flight during stop()\<close>

text \<open>C39.
  The dispatcher calls a handler after it has let go of its mutex, so \<^verbatim>\<open>stop()\<close> of another thread can run to
  its end between the lookup and the call.  The handler then queues the batch on a stopped pipeline whose
  codelet is already unloaded: the buffer is not released, and no further \<^verbatim>\<open>stop()\<close>, the destructor's included,
  releases it; only a later start would.\<close>

theorem stop_race_keeps_buffer:
  assumes "slot_core p" and "sp_running p" and "lookup_handler hs slot_iq_stream_id = (Some handler, True)"
    and "handler = slot_callback" and "slot_stop L p hs env = (p1, hs1, env1)"
    and "handler slot_iq_stream_id [b] (i, p1, env1) = (i', p2, env2)"
  shows "\<not> sp_running p2 \<and> map q_buf (slot_queued p2) = [b] \<and> released env2 = released env1
    \<and> lookup_handler hs1 slot_iq_stream_id = (None, False) \<and> slot_stop L' p2 hs1 env2 = (p2, hs1, env2)"
proof -
  note st = slot_stop_effect[OF assms(1,5)]
  have r: "slot_process_buffers (in_heap i) (in_rc i) (in_src i) (in_tv_sec i) (in_tv_nsec i) [b] (p1, env1) = (p2, env2)"
    using assms(4,6) by (auto simp: slot_callback_def)
  have ok: "slot_queue_ok p1" using st by (simp add: slot_core_def)
  have "\<not> sp_running p2" using process_frame(1)[OF r] st by simp
  moreover have "map q_buf (slot_queued p2) = [b]" "released env2 = released env1"
    using process_batch[OF ok r] st by (simp_all add: Let_def slot_entry_def)
  ultimately show ?thesis using st assms(2) by (simp add: slot_stop_def)
qed

definition demo_inputs :: slot_inputs where
  "demo_inputs = \<lparr>in_heap = (\<lambda>_. sample_desc), in_rc = 0, in_src = 0, in_tv_sec = 0, in_tv_nsec = 0\<rparr>"

theorem stop_race_keeps_buffer_witness:
  "\<exists>p1 hs1 env1 i' p2 env2.
     slot_stop sample_limits ((SlotIqPipeline default_SlotConfig :: unit slot_pipeline)\<lparr>sp_running := True, sp_worker_joinable := True\<rparr>)
       (register_stream slot_iq_stream_id (Some slot_callback) True (Map.empty :: (slot_inputs, unit slot_pipeline) cb_state handlers)) []
       = (p1, hs1, env1)
     \<and> slot_callback slot_iq_stream_id [5] (demo_inputs, p1, env1) = (i', p2, env2)
     \<and> map q_buf (slot_queued p2) = [5] \<and> \<not> sp_running p2"
proof -
  let ?p = "(SlotIqPipeline default_SlotConfig :: unit slot_pipeline)\<lparr>sp_running := True, sp_worker_joinable := True\<rparr>"
  let ?hs = "register_stream slot_iq_stream_id (Some slot_callback) True Map.empty
    :: (slot_inputs, unit slot_pipeline) cb_state handlers"
  obtain p1 hs1 env1 where st: "slot_stop sample_limits ?p ?hs [] = (p1, hs1, env1)" by (metis prod_cases3)
  obtain i' p2 env2 where cb: "slot_callback slot_iq_stream_id [5] (demo_inputs, p1, env1) = (i', p2, env2)"
    by (metis prod_cases3)
  have "slot_core ?p" "sp_running ?p" "lookup_handler ?hs slot_iq_stream_id = (Some slot_callback, True)"
    by (simp_all add: slot_core_def SlotIqPipeline_def)
  from stop_race_keeps_buffer[OF this refl st cb] st cb show ?thesis
    by (intro exI[of _ p1] exI[of _ hs1] exI[of _ env1] exI[of _ i'] exI[of _ p2] exI[of _ env2]) simp
qed

end
