(* ===== verification/Ring_Memory.thy ===== *)
theory Ring_Memory
  imports Pipeline_Concurrency
begin

text \<open>
  The ring of both pipelines under the C++ memory model: which of the accesses of \<^verbatim>\<open>process_buffers()\<close> and
  \<^verbatim>\<open>worker_loop()\<close> are ordered by the memory orders the source gives them.  \<open>Pipeline_Concurrency\<close> lets a load
  return the last value stored; here a load may return any store that the loading thread has not yet
  seen overtaken, and an access to a slot that is not ordered after every conflicting access of the other
  thread is a data race.  The orders are a parameter of the step relation, so the development can say what
  they are needed for.
\<close>

section \<open>Atomic counters and plain slots\<close>

datatype memory_order = relaxed | acquire | release

text \<open>
  What a thread knows of the execution so far: how many slot accesses of the poll thread and of the worker
  happen before its next step, and the latest store to either counter it may not read behind.
\<close>

datatype component = Poll_accesses | Work_accesses | Head_stores | Tail_stores

type_synonym view = "component \<Rightarrow> nat"

text \<open>An atomic object is the list of its stores in modification order; a store carries a value and a view.\<close>

type_synonym message = "u64 \<times> view"

definition may_load :: "component \<Rightarrow> message list \<Rightarrow> view \<Rightarrow> nat \<Rightarrow> bool" where
  "may_load loc stores v i \<longleftrightarrow> v loc \<le> i \<and> i < length stores"

text \<open>An acquire load that reads a store takes over the view the store carries; a relaxed one only sees the store.\<close>

definition load_view :: "memory_order \<Rightarrow> component \<Rightarrow> message list \<Rightarrow> nat \<Rightarrow> view \<Rightarrow> view" where
  "load_view ord loc stores i v =
     (if ord = acquire then sup (v(loc := i)) (snd (stores ! i)) else v(loc := i))"

text \<open>A release store carries the view of its thread; a relaxed one nothing but itself.\<close>

definition store_view :: "component \<Rightarrow> message list \<Rightarrow> view \<Rightarrow> view" where
  "store_view loc stores v = v(loc := length stores)"

definition store_atomic :: "memory_order \<Rightarrow> component \<Rightarrow> u64 \<Rightarrow> message list \<Rightarrow> view \<Rightarrow> message list" where
  "store_atomic ord loc x stores v =
     stores @ [(x, store_view loc stores (if ord = release then v else (\<lambda>_. 0)))]"

section \<open>The two threads\<close>

text \<open>The memory orders of the six accesses to \<^verbatim>\<open>queue_head_\<close> and \<^verbatim>\<open>queue_tail_\<close>.\<close>

record ring_orders =
  poll_load_head :: memory_order
  poll_load_tail :: memory_order
  poll_store_head :: memory_order
  work_load_tail :: memory_order
  work_load_head :: memory_order
  work_store_tail :: memory_order

definition queue_orders :: ring_orders where
  "queue_orders =
     \<lparr>poll_load_head = relaxed, poll_load_tail = acquire, poll_store_head = release,
      work_load_tail = relaxed, work_load_head = acquire, work_store_tail = release\<rparr>"

text \<open>
  Beside each slot stand the number of the poll thread's access that last wrote it and of the worker's
  that last read it; \<open>x_race\<close> is set by an access that is not ordered after the other thread's.  The logs
  hold the entries written for publication, the entries the consumers were given, and the buffers released.
\<close>

record ring_mem =
  x_heads :: "message list"
  x_tails :: "message list"
  x_slots :: "QueueEntry list"
  x_written :: "nat list"
  x_read :: "nat list"
  x_poll_view :: view
  x_work_view :: view
  x_poll :: producer
  x_work :: worker
  x_race :: bool
  x_offered :: "QueueEntry list"
  x_dispatched :: "QueueEntry list"
  x_released :: "nat list"
  x_dropped :: "nat list"

text \<open>
  The state in which \<^verbatim>\<open>start()\<close> leaves the ring: both counters hold the same value, not zero after a restart,
  and what came before is ordered before both threads, by the creation of the worker and by the mutex under
  which the dispatcher finds the handler.
\<close>

definition mem_init :: "u64 \<Rightarrow> u64 \<Rightarrow> QueueEntry list \<Rightarrow> ring_mem" where
  "mem_init cap base slots =
     \<lparr>x_heads = [(base, \<lambda>_. 0)], x_tails = [(base, \<lambda>_. 0)], x_slots = slots,
      x_written = replicate (unat cap) 0, x_read = replicate (unat cap) 0,
      x_poll_view = (\<lambda>_. 0), x_work_view = (\<lambda>_. 0), x_poll = PIdle, x_work = CIdle, x_race = False,
      x_offered = [], x_dispatched = [], x_released = [], x_dropped = []\<rparr>"

text \<open>A plain write of the poll thread to a slot, and a plain read of the worker.\<close>

definition poll_write :: "nat \<Rightarrow> QueueEntry \<Rightarrow> ring_mem \<Rightarrow> ring_mem" where
  "poll_write i e s =
     (let c = Suc (x_poll_view s Poll_accesses)
      in s\<lparr>x_slots := (x_slots s)[i := e], x_written := (x_written s)[i := c],
           x_poll_view := (x_poll_view s)(Poll_accesses := c),
           x_race := (x_race s \<or> x_read s ! i > x_poll_view s Work_accesses)\<rparr>)"

definition work_read :: "nat \<Rightarrow> ring_mem \<Rightarrow> ring_mem" where
  "work_read i s =
     (let c = Suc (x_work_view s Work_accesses)
      in s\<lparr>x_read := (x_read s)[i := c], x_work_view := (x_work_view s)(Work_accesses := c),
           x_race := (x_race s \<or> x_written s ! i > x_work_view s Poll_accesses)\<rparr>)"

inductive mem_step :: "ring_orders \<Rightarrow> u64 \<Rightarrow> ring_mem \<Rightarrow> ring_mem \<Rightarrow> bool" for ords cap where
  m_load_head:
    "x_poll s = PIdle \<Longrightarrow> may_load Head_stores (x_heads s) (x_poll_view s) i \<Longrightarrow>
     mem_step ords cap s (s\<lparr>x_poll := PLoadTail e (fst (x_heads s ! i)),
       x_poll_view := load_view (poll_load_head ords) Head_stores (x_heads s) i (x_poll_view s)\<rparr>)"
| m_full:
    "x_poll s = PLoadTail e head \<Longrightarrow> may_load Tail_stores (x_tails s) (x_poll_view s) i \<Longrightarrow>
     head - fst (x_tails s ! i) \<ge> cap \<Longrightarrow>
     mem_step ords cap s (s\<lparr>x_poll := PIdle, x_dropped := x_dropped s @ [q_buf e],
       x_poll_view := load_view (poll_load_tail ords) Tail_stores (x_tails s) i (x_poll_view s)\<rparr>)"
| m_room:
    "x_poll s = PLoadTail e head \<Longrightarrow> may_load Tail_stores (x_tails s) (x_poll_view s) i \<Longrightarrow>
     \<not> head - fst (x_tails s ! i) \<ge> cap \<Longrightarrow>
     mem_step ords cap s (s\<lparr>x_poll := PWrite e head,
       x_poll_view := load_view (poll_load_tail ords) Tail_stores (x_tails s) i (x_poll_view s)\<rparr>)"
| m_scribble:
    "x_poll s = PWrite e head \<Longrightarrow> mem_step ords cap s (poll_write (ring_index cap head) garbage s)"
| m_written:
    "x_poll s = PWrite e head \<Longrightarrow>
     mem_step ords cap s ((poll_write (ring_index cap head) e s)\<lparr>x_poll := PPublish head, x_offered := x_offered s @ [e]\<rparr>)"
| m_publish:
    "x_poll s = PPublish head \<Longrightarrow>
     mem_step ords cap s (s\<lparr>x_poll := PIdle, x_poll_view := store_view Head_stores (x_heads s) (x_poll_view s),
       x_heads := store_atomic (poll_store_head ords) Head_stores (head + 1) (x_heads s) (x_poll_view s)\<rparr>)"
| m_load_tail:
    "x_work s = CIdle \<Longrightarrow> may_load Tail_stores (x_tails s) (x_work_view s) i \<Longrightarrow>
     mem_step ords cap s (s\<lparr>x_work := CLoadHead (fst (x_tails s ! i)),
       x_work_view := load_view (work_load_tail ords) Tail_stores (x_tails s) i (x_work_view s)\<rparr>)"
| m_empty:
    "x_work s = CLoadHead tail \<Longrightarrow> may_load Head_stores (x_heads s) (x_work_view s) i \<Longrightarrow> fst (x_heads s ! i) = tail \<Longrightarrow>
     mem_step ords cap s (s\<lparr>x_work := CIdle,
       x_work_view := load_view (work_load_head ords) Head_stores (x_heads s) i (x_work_view s)\<rparr>)"
| m_found:
    "x_work s = CLoadHead tail \<Longrightarrow> may_load Head_stores (x_heads s) (x_work_view s) i \<Longrightarrow> fst (x_heads s ! i) \<noteq> tail \<Longrightarrow>
     mem_step ords cap s (s\<lparr>x_work := CDispatch tail,
       x_work_view := load_view (work_load_head ords) Head_stores (x_heads s) i (x_work_view s)\<rparr>)"
| m_dispatch:
    "x_work s = CDispatch tail \<Longrightarrow>
     mem_step ords cap s ((work_read (ring_index cap tail) s)\<lparr>x_work := CRelease tail,
       x_dispatched := x_dispatched s @ [x_slots s ! ring_index cap tail]\<rparr>)"
| m_release:
    "x_work s = CRelease tail \<Longrightarrow>
     mem_step ords cap s ((work_read (ring_index cap tail) s)\<lparr>x_work := CAdvance tail,
       x_released := x_released s @ [q_buf (x_slots s ! ring_index cap tail)]\<rparr>)"
| m_advance:
    "x_work s = CAdvance tail \<Longrightarrow>
     mem_step ords cap s (s\<lparr>x_work := CIdle, x_work_view := store_view Tail_stores (x_tails s) (x_work_view s),
       x_tails := store_atomic (work_store_tail ords) Tail_stores (tail + 1) (x_tails s) (x_work_view s)\<rparr>)"

section \<open>What the orders guarantee\<close>

text \<open>The number of stores after the initial value: entries published so far, entries consumed so far.\<close>

definition stored :: "message list \<Rightarrow> nat" where
  "stored ms = length ms - 1"

abbreviation published :: "ring_mem \<Rightarrow> nat" where
  "published s \<equiv> stored (x_heads s)"

abbreviation consumed :: "ring_mem \<Rightarrow> nat" where
  "consumed s \<equiv> stored (x_tails s)"

lemma stored_length: "ms \<noteq> [] \<Longrightarrow> length ms = Suc (stored ms)"
  by (cases ms) (simp_all add: stored_def)

lemma stored_init [simp]: "stored [m] = 0"
  by (simp add: stored_def)

lemma stored_append: "ms \<noteq> [] \<Longrightarrow> stored (ms @ [m]) = Suc (stored ms)"
  by (cases ms) (simp_all add: stored_def)

text \<open>What both threads together know.\<close>

fun known :: "ring_mem \<Rightarrow> view" where
  "known s Poll_accesses = x_poll_view s Poll_accesses"
| "known s Work_accesses = x_work_view s Work_accesses"
| "known s Head_stores = published s"
| "known s Tail_stores = consumed s"

lemma view_le_iff:
  "v \<le> w \<longleftrightarrow> v Poll_accesses \<le> w Poll_accesses \<and> v Work_accesses \<le> w Work_accesses
     \<and> v Head_stores \<le> w Head_stores \<and> v Tail_stores \<le> w Tail_stores" for v w :: view
  unfolding le_fun_def by (metis component.exhaust)

text \<open>Whoever has seen a store knows the accesses that preceded it.\<close>

definition view_ok :: "ring_mem \<Rightarrow> view \<Rightarrow> bool" where
  "view_ok s v \<longleftrightarrow> v \<le> known s
     \<and> snd (x_heads s ! v Head_stores) Poll_accesses \<le> v Poll_accesses
     \<and> snd (x_tails s ! v Tail_stores) Work_accesses \<le> v Work_accesses"

definition stores_ok :: "u64 \<Rightarrow> component \<Rightarrow> message list \<Rightarrow> bool" where
  "stores_ok base c stores \<longleftrightarrow> stores \<noteq> [] \<and> (\<forall>i < length stores. fst (stores ! i) = base + of_nat i)
     \<and> (\<forall>j < length stores. \<forall>i \<le> j. snd (stores ! i) c \<le> snd (stores ! j) c)"

definition views_ok :: "ring_mem \<Rightarrow> bool" where
  "views_ok s \<longleftrightarrow> view_ok s (x_poll_view s) \<and> view_ok s (x_work_view s)
     \<and> (\<forall>m \<in> set (x_heads s). view_ok s (snd m)) \<and> (\<forall>m \<in> set (x_tails s). view_ok s (snd m))
     \<and> x_poll_view s Head_stores = published s \<and> x_work_view s Tail_stores = consumed s"

definition busy :: "worker \<Rightarrow> nat" where
  "busy w = (case w of CRelease _ \<Rightarrow> 1 | CAdvance _ \<Rightarrow> 1 | _ \<Rightarrow> 0)"

definition returned :: "worker \<Rightarrow> nat" where
  "returned w = (case w of CAdvance _ \<Rightarrow> 1 | _ \<Rightarrow> 0)"

definition poll_ok :: "u64 \<Rightarrow> u64 \<Rightarrow> ring_mem \<Rightarrow> bool" where
  "poll_ok cap base s \<longleftrightarrow> published s \<le> x_poll_view s Tail_stores + unat cap \<and> (case x_poll s of
      PIdle \<Rightarrow> True
    | PLoadTail e head \<Rightarrow> head = base + of_nat (published s)
    | PWrite e head \<Rightarrow> head = base + of_nat (published s) \<and> published s < x_poll_view s Tail_stores + unat cap
    | PPublish head \<Rightarrow> head = base + of_nat (published s) \<and> published s < x_poll_view s Tail_stores + unat cap)"

definition work_ok :: "u64 \<Rightarrow> ring_mem \<Rightarrow> bool" where
  "work_ok base s \<longleftrightarrow> consumed s \<le> x_work_view s Head_stores \<and> (case x_work s of
      CIdle \<Rightarrow> True
    | CLoadHead tail \<Rightarrow> tail = base + of_nat (consumed s)
    | CDispatch tail \<Rightarrow> tail = base + of_nat (consumed s) \<and> consumed s < x_work_view s Head_stores
    | CRelease tail \<Rightarrow> tail = base + of_nat (consumed s) \<and> consumed s < x_work_view s Head_stores
    | CAdvance tail \<Rightarrow> tail = base + of_nat (consumed s) \<and> consumed s < x_work_view s Head_stores)"

abbreviation slot_of :: "u64 \<Rightarrow> u64 \<Rightarrow> nat \<Rightarrow> nat" where
  "slot_of cap base j \<equiv> ring_index cap (base + of_nat j)"

text \<open>The reads of the slot of position \<open>j\<close> that the worker had made when it last handed the slot back.\<close>

definition handed_back :: "u64 \<Rightarrow> message list \<Rightarrow> nat \<Rightarrow> nat" where
  "handed_back cap tails j = (if j < unat cap then 0 else snd (tails ! (Suc j - unat cap)) Work_accesses)"

text \<open>The accesses that a slot remembers precede the store that hands it over.\<close>

definition accesses_ok :: "u64 \<Rightarrow> u64 \<Rightarrow> ring_mem \<Rightarrow> bool" where
  "accesses_ok cap base s \<longleftrightarrow> length (x_slots s) = unat cap \<and> length (x_written s) = unat cap \<and> length (x_read s) = unat cap
     \<and> (\<forall>k < unat cap. x_written s ! k \<le> x_poll_view s Poll_accesses \<and> x_read s ! k \<le> x_work_view s Work_accesses)
     \<and> (\<forall>j. consumed s \<le> j \<longrightarrow> j < published s \<longrightarrow>
          x_written s ! slot_of cap base j \<le> snd (x_heads s ! Suc j) Poll_accesses)
     \<and> (\<forall>j. consumed s + busy (x_work s) \<le> j \<longrightarrow> j < consumed s + unat cap \<longrightarrow>
          x_read s ! slot_of cap base j \<le> handed_back cap (x_tails s) j)"

definition publishing :: "producer \<Rightarrow> nat" where
  "publishing p = (case p of PPublish _ \<Rightarrow> 1 | _ \<Rightarrow> 0)"

definition logs_ok :: "u64 \<Rightarrow> u64 \<Rightarrow> ring_mem \<Rightarrow> bool" where
  "logs_ok cap base s \<longleftrightarrow> length (x_offered s) = published s + publishing (x_poll s)
     \<and> (\<forall>j. consumed s \<le> j \<longrightarrow> j < length (x_offered s) \<longrightarrow> x_slots s ! slot_of cap base j = x_offered s ! j)
     \<and> x_dispatched s = take (consumed s + busy (x_work s)) (x_offered s)
     \<and> x_released s = map q_buf (take (consumed s + returned (x_work s)) (x_offered s))"

definition mem_ok :: "u64 \<Rightarrow> u64 \<Rightarrow> ring_mem \<Rightarrow> bool" where
  "mem_ok cap base s \<longleftrightarrow> stores_ok base Poll_accesses (x_heads s) \<and> stores_ok base Work_accesses (x_tails s) \<and> views_ok s
     \<and> poll_ok cap base s \<and> work_ok base s \<and> accesses_ok cap base s \<and> logs_ok cap base s \<and> \<not> x_race s"

lemmas mem_ok_defs = mem_ok_def views_ok_def view_ok_def view_le_iff

lemmas mode_defs = busy_def returned_def publishing_def

text \<open>Views survive when the stores grow and more becomes known.\<close>

lemma view_bounds:
  assumes "view_ok s v"
  shows "v Poll_accesses \<le> x_poll_view s Poll_accesses" "v Work_accesses \<le> x_work_view s Work_accesses"
    "v Head_stores \<le> published s" "v Tail_stores \<le> consumed s"
  using assms by (simp_all add: view_ok_def view_le_iff)

lemma view_ok_mono:
  assumes "view_ok s v" "x_heads s \<noteq> []" "x_tails s \<noteq> []" "known s \<le> known s'"
    and "x_heads s' = x_heads s @ hs" "x_tails s' = x_tails s @ ts"
  shows "view_ok s' v"
proof -
  have "v Head_stores < length (x_heads s)" "v Tail_stores < length (x_tails s)"
    using view_bounds(3,4)[OF assms(1)] assms(2,3) by (simp_all add: stored_length)
  then show ?thesis using assms(1,4,5,6) order_trans[of v "known s" "known s'"] by (simp add: view_ok_def nth_append)
qed

lemma views_step:
  assumes "views_ok s" "x_heads s \<noteq> []" "x_tails s \<noteq> []" "known s \<le> known s'"
    and "x_heads s' = x_heads s @ hs" "x_tails s' = x_tails s @ ts"
    and "view_ok s' (x_poll_view s')" "view_ok s' (x_work_view s')" "\<forall>m \<in> set (hs @ ts). view_ok s' (snd m)"
    and "x_poll_view s' Head_stores = published s'" "x_work_view s' Tail_stores = consumed s'"
  shows "views_ok s'"
  using assms view_ok_mono[OF _ assms(2-6)] by (auto simp: views_ok_def)

text \<open>An acquire load of the other thread's counter.\<close>

lemma acquire_tail:
  assumes "view_ok s v" "view_ok s (snd (x_tails s ! i))" "i < length (x_tails s)"
  shows "view_ok s (load_view acquire Tail_stores (x_tails s) i v)"
  using assms by (auto simp: view_ok_def load_view_def view_le_iff max_def sup_nat_def stored_def)

lemma acquire_head:
  assumes "view_ok s v" "view_ok s (snd (x_heads s ! i))" "i < length (x_heads s)"
  shows "view_ok s (load_view acquire Head_stores (x_heads s) i v)"
  using assms by (auto simp: view_ok_def load_view_def view_le_iff max_def sup_nat_def stored_def)

text \<open>What one thread keeps of the other's conditions.\<close>

lemma poll_ok_frame:
  assumes "x_heads s' = x_heads s" "x_poll_view s' Tail_stores = x_poll_view s Tail_stores" "x_poll s' = x_poll s"
  shows "poll_ok cap base s' = poll_ok cap base s"
  using assms by (cases "x_poll s") (simp_all add: poll_ok_def)

lemma work_ok_frame:
  assumes "x_tails s' = x_tails s" "x_work_view s' Head_stores = x_work_view s Head_stores" "x_work s' = x_work s"
  shows "work_ok base s' = work_ok base s"
  using assms by (cases "x_work s") (simp_all add: work_ok_def)

lemma accesses_ok_frame:
  assumes "x_heads s' = x_heads s" "x_tails s' = x_tails s" "x_slots s' = x_slots s" "x_written s' = x_written s"
    "x_read s' = x_read s" "x_poll_view s' Poll_accesses = x_poll_view s Poll_accesses"
    "x_work_view s' Work_accesses = x_work_view s Work_accesses" "busy (x_work s') = busy (x_work s)"
  shows "accesses_ok cap base s' = accesses_ok cap base s"
  unfolding accesses_ok_def assms ..

lemma logs_ok_frame:
  assumes "x_heads s' = x_heads s" "x_tails s' = x_tails s" "x_slots s' = x_slots s" "x_offered s' = x_offered s"
    "x_dispatched s' = x_dispatched s" "x_released s' = x_released s" "publishing (x_poll s') = publishing (x_poll s)"
    "busy (x_work s') = busy (x_work s)" "returned (x_work s') = returned (x_work s)"
  shows "logs_ok cap base s' = logs_ok cap base s"
  unfolding logs_ok_def assms ..

lemmas ring_frames = poll_ok_frame work_ok_frame accesses_ok_frame logs_ok_frame

text \<open>A step of one thread that only moves its view.\<close>

lemma poll_view_step:
  assumes "mem_ok cap base s" "s' = s\<lparr>x_poll := p, x_poll_view := v, x_dropped := d\<rparr>" "view_ok s v"
    and "v Poll_accesses = x_poll_view s Poll_accesses" "v Head_stores = published s"
    and "publishing p = 0" "publishing (x_poll s) = 0" "poll_ok cap base s'"
  shows "mem_ok cap base s'"
proof -
  have "view_ok s' = view_ok s" using assms(2,4) by (intro ext) (simp add: view_ok_def view_le_iff)
  then have "views_ok s'" using assms(1,2,3,5) by (simp add: mem_ok_def views_ok_def)
  moreover have "work_ok base s' = work_ok base s" "accesses_ok cap base s' = accesses_ok cap base s"
    "logs_ok cap base s' = logs_ok cap base s"
    using assms by (intro ring_frames; simp)+
  ultimately show ?thesis using assms(1,8) by (simp add: mem_ok_def assms(2))
qed

lemma work_view_step:
  assumes "mem_ok cap base s" "s' = s\<lparr>x_work := w, x_work_view := v\<rparr>" "view_ok s v"
    and "v Work_accesses = x_work_view s Work_accesses" "v Tail_stores = consumed s"
    and "busy w = 0" "busy (x_work s) = 0" "returned w = 0" "returned (x_work s) = 0" "work_ok base s'"
  shows "mem_ok cap base s'"
proof -
  have "view_ok s' = view_ok s" using assms(2,4) by (intro ext) (simp add: view_ok_def view_le_iff)
  then have "views_ok s'" using assms(1,2,3,5) by (simp add: mem_ok_def views_ok_def)
  moreover have "poll_ok cap base s' = poll_ok cap base s" "accesses_ok cap base s' = accesses_ok cap base s"
    "logs_ok cap base s' = logs_ok cap base s"
    using assms by (intro ring_frames; simp)+
  ultimately show ?thesis using assms(1,10) by (simp add: mem_ok_def assms(2))
qed

lemma mem_bounds:
  assumes "mem_ok cap base s"
  shows "consumed s + busy (x_work s) \<le> x_work_view s Head_stores" "x_work_view s Head_stores \<le> published s"
    "published s \<le> x_poll_view s Tail_stores + unat cap" "x_poll_view s Tail_stores \<le> consumed s"
    "x_heads s \<noteq> []" "x_tails s \<noteq> []"
  using assms view_bounds[of s "x_poll_view s"] view_bounds[of s "x_work_view s"]
  by (auto simp: mem_ok_def views_ok_def work_ok_def poll_ok_def stores_ok_def busy_def split: worker.splits)

context power_of_two_capacity
begin

lemma slot_of_inj:
  assumes "a \<le> i" "i < a + unat cap" "a \<le> j" "j < a + unat cap" "slot_of cap base i = slot_of cap base j"
  shows "i = j"
proof -
  have "base + of_nat a + of_nat (i - a) = base + of_nat i" "base + of_nat a + of_nat (j - a) = base + of_nat j"
    using assms(1,3) by simp_all
  then have "i - a = j - a"
    using ring_index_inj[of "i - a" "j - a" "base + of_nat a"] assms by (simp add: unat_cap)
  then show ?thesis using assms(1,3) by simp
qed

lemma cap_small: "unat cap < 2 ^ 64"
  unfolding unat_cap using k_small by (intro power_strict_increasing) simp_all

lemma distance:
  assumes "j \<le> n" "n - j \<le> unat cap"
  shows "unat ((base + of_nat n) - (base + of_nat j) :: u64) = n - j"
proof -
  have "(base + of_nat n) - (base + of_nat j) = (of_nat (n - j) :: u64)" using assms(1) by simp
  then show ?thesis using assms(2) cap_small by (simp add: unat_of_nat_mod)
qed

lemma mem_init_ok: "length slots = unat cap \<Longrightarrow> mem_ok cap base (mem_init cap base slots)"
  by (auto simp: mem_ok_defs mem_init_def stores_ok_def poll_ok_def work_ok_def accesses_ok_def logs_ok_def mode_defs)

text \<open>The poll thread writes the slot at the head: every read of it by the worker is ordered before.\<close>

lemma no_write_race:
  assumes "mem_ok cap base s" "published s < x_poll_view s Tail_stores + unat cap"
  shows "x_read s ! slot_of cap base (published s) \<le> x_poll_view s Work_accesses"
proof -
  note b = mem_bounds[OF assms(1)]
  let ?n = "published s" and ?v = "x_poll_view s"
  have "x_read s ! slot_of cap base ?n \<le> handed_back cap (x_tails s) ?n"
    using assms b unfolding mem_ok_def accesses_ok_def by fastforce
  moreover have "snd (x_tails s ! (Suc ?n - unat cap)) Work_accesses \<le> snd (x_tails s ! ?v Tail_stores) Work_accesses"
  proof -
    have "Suc ?n - unat cap \<le> ?v Tail_stores" "?v Tail_stores < length (x_tails s)" using assms(2) b(4,6) by (simp_all add: stored_length)
    then show ?thesis using assms(1) by (simp add: mem_ok_def stores_ok_def)
  qed
  moreover have "snd (x_tails s ! ?v Tail_stores) Work_accesses \<le> ?v Work_accesses"
    using assms(1) by (simp add: mem_ok_defs)
  ultimately show ?thesis by (simp add: handed_back_def split: if_splits)
qed

text \<open>An entry written to the slot at the head does not touch the log of the entries before it.\<close>

lemma offered_logs:
  assumes "mem_ok cap base s" "publishing (x_poll s) = 0" "x_heads s' = x_heads s" "x_tails s' = x_tails s" "x_work s' = x_work s"
    and "x_dispatched s' = x_dispatched s" "x_released s' = x_released s"
    and "\<And>j. consumed s \<le> j \<Longrightarrow> j < published s \<Longrightarrow> x_slots s' ! slot_of cap base j = x_slots s ! slot_of cap base j"
    and "x_offered s' = x_offered s \<and> publishing (x_poll s') = 0
      \<or> x_offered s' = x_offered s @ [x_slots s' ! slot_of cap base (published s)] \<and> publishing (x_poll s') = 1"
  shows "logs_ok cap base s'"
proof -
  let ?n = "published s"
  have l: "logs_ok cap base s" "length (x_offered s) = ?n" "consumed s + busy (x_work s) \<le> ?n"
    "returned (x_work s) \<le> busy (x_work s)"
    using assms(1,2) mem_bounds(1,2)[OF assms(1)]
    by (simp_all add: mem_ok_def logs_ok_def) (simp add: busy_def returned_def split: worker.splits)
  from assms(9) show ?thesis
  proof
    assume "x_offered s' = x_offered s \<and> publishing (x_poll s') = 0"
    then show ?thesis using l(1,2) assms(2,8) unfolding logs_ok_def assms(3-7) by simp
  next
    assume "x_offered s' = x_offered s @ [x_slots s' ! slot_of cap base ?n] \<and> publishing (x_poll s') = 1"
    then obtain e where o: "x_offered s' = x_offered s @ [e]" "publishing (x_poll s') = 1" and e: "x_slots s' ! slot_of cap base ?n = e"
      by blast
    have "x_slots s' ! slot_of cap base j = x_offered s' ! j" if "consumed s \<le> j" "j < Suc ?n" for j
      using that l(1,2) o(1) e assms(8)[of j] by (cases "j = ?n") (auto simp: nth_append logs_ok_def)
    then show ?thesis using l o unfolding logs_ok_def assms(3-7) by simp
  qed
qed

lemma poll_write_ok:
  assumes "mem_ok cap base s" "x_poll s = PWrite e head" "r = poll_write (ring_index cap head) e' s"
    and "s' = r \<or> s' = r\<lparr>x_poll := PPublish head, x_offered := x_offered s @ [e']\<rparr>"
  shows "mem_ok cap base s'"
proof -
  note b = mem_bounds[OF assms(1)]
  let ?n = "published s" and ?i = "slot_of cap base (published s)" and ?c = "Suc (x_poll_view s Poll_accesses)"
  have head: "head = base + of_nat ?n" "?n < x_poll_view s Tail_stores + unat cap"
    using assms(1,2) by (simp_all add: mem_ok_def poll_ok_def)
  then have race: "x_read s ! ?i \<le> x_poll_view s Work_accesses" using no_write_race[OF assms(1)] by simp
  have s': "x_heads s' = x_heads s" "x_tails s' = x_tails s" "x_slots s' = (x_slots s)[?i := e']" "x_read s' = x_read s"
    "x_written s' = (x_written s)[?i := ?c]" "x_work_view s' = x_work_view s" "x_work s' = x_work s"
    "x_poll_view s' = (x_poll_view s)(Poll_accesses := ?c)" "x_dispatched s' = x_dispatched s" "x_released s' = x_released s"
    "x_race s' \<longleftrightarrow> x_race s \<or> x_read s ! ?i > x_poll_view s Work_accesses"
    using assms(3,4) head(1) by (auto simp: poll_write_def Let_def)
  have other: "?i \<noteq> slot_of cap base j" if "consumed s \<le> j" "j < ?n" for j
    using slot_of_inj[of "consumed s" ?n j base] that head(2) b by fastforce
  then have keep: "x_written s' ! slot_of cap base j = x_written s ! slot_of cap base j"
      "x_slots s' ! slot_of cap base j = x_slots s ! slot_of cap base j" if "consumed s \<le> j" "j < ?n" for j
    using that by (simp_all add: s')
  have "view_ok s (x_poll_view s)" using assms(1) by (simp add: mem_ok_def views_ok_def)
  then have "view_ok s' (x_poll_view s')" by (simp add: view_ok_def view_le_iff s')
  moreover have known: "known s \<le> known s'" by (simp add: view_le_iff s')
  moreover have "view_ok s' (x_work_view s)"
    using view_ok_mono[OF _ b(5,6) known, of "x_work_view s" "[]" "[]"] assms(1) by (simp add: mem_ok_def views_ok_def s')
  ultimately have "views_ok s'"
    using assms(1) b(5,6) by (intro views_step[of s s' "[]" "[]"]) (simp_all add: mem_ok_def views_ok_def s')
  moreover have "poll_ok cap base s'" using assms(1-4) head by (auto simp: mem_ok_def poll_ok_def poll_write_def Let_def)
  moreover have "work_ok base s'" using assms(1) work_ok_frame[of s' s base] by (simp add: mem_ok_def s')
  moreover have "accesses_ok cap base s'"
    using assms(1) keep(1) unfolding mem_ok_def accesses_ok_def by (auto simp: s' nth_list_update le_Suc_eq)
  moreover have "logs_ok cap base s'"
  proof (rule offered_logs[OF assms(1)])
    have "x_offered s' = x_offered s \<and> publishing (x_poll s') = 0 \<or> x_offered s' = x_offered s @ [e'] \<and> publishing (x_poll s') = 1"
      using assms(2-4) by (auto simp: poll_write_def Let_def publishing_def)
    moreover have "x_slots s' ! ?i = e'" using assms(1) by (simp add: mem_ok_def accesses_ok_def s')
    ultimately show "x_offered s' = x_offered s \<and> publishing (x_poll s') = 0
        \<or> x_offered s' = x_offered s @ [x_slots s' ! ?i] \<and> publishing (x_poll s') = 1" by simp
  qed (use keep(2) assms(2) in \<open>simp_all add: s'(1,2,7,9,10) publishing_def\<close>)
  ultimately show ?thesis using assms(1) race by (simp add: mem_ok_def s')
qed

text \<open>The head is stored: the slot and everything written before it go with the store.\<close>

lemma publish_ok:
  assumes "mem_ok cap base s" "x_poll s = PPublish head"
    and "s' = s\<lparr>x_poll := PIdle, x_poll_view := store_view Head_stores (x_heads s) (x_poll_view s),
       x_heads := store_atomic release Head_stores (head + 1) (x_heads s) (x_poll_view s)\<rparr>"
  shows "mem_ok cap base s'"
proof -
  note b = mem_bounds[OF assms(1)]
  let ?n = "published s" and ?v = "(x_poll_view s)(Head_stores := Suc (published s))"
  have head: "head = base + of_nat ?n" "?n < x_poll_view s Tail_stores + unat cap"
    using assms(1,2) by (simp_all add: mem_ok_def poll_ok_def)
  have len: "length (x_heads s) = Suc ?n" using b(5) by (rule stored_length)
  have h: "x_heads s' = x_heads s @ [(base + of_nat (Suc ?n), ?v)]" and n: "published s' = Suc ?n"
    using b(5) by (simp_all add: assms(3) store_atomic_def store_view_def head(1) len stored_append algebra_simps)
  have s': "x_poll_view s' = ?v" "x_poll s' = PIdle" "x_tails s' = x_tails s" "x_slots s' = x_slots s" "x_written s' = x_written s"
    "x_read s' = x_read s" "x_work_view s' = x_work_view s" "x_work s' = x_work s" "x_offered s' = x_offered s"
    "x_dispatched s' = x_dispatched s" "x_released s' = x_released s" "x_race s' = x_race s"
    by (simp_all add: assms(3) store_view_def len)
  have pv: "view_ok s (x_poll_view s)" and wv: "view_ok s (x_work_view s)" using assms(1) by (simp_all add: mem_ok_def views_ok_def)
  have mono: "snd (x_heads s ! i) Poll_accesses \<le> x_poll_view s Poll_accesses" if "i \<le> ?n" for i
    using assms(1) that len view_bounds(1)[of s "snd (x_heads s ! i)"] by (simp add: mem_ok_def views_ok_def)
  have known: "known s \<le> known s'" by (simp add: view_le_iff s' n)
  have "view_ok s' ?v"
    using view_bounds[OF pv] pv len by (simp add: view_ok_def view_le_iff s' n) (simp add: h nth_append)
  moreover have "view_ok s' (x_work_view s)" by (rule view_ok_mono[OF wv b(5,6) known h, of "[]"]) (simp add: s')
  ultimately have "views_ok s'"
    using assms(1) by (intro views_step[OF _ b(5,6) known h, of "[]"]) (simp_all add: mem_ok_def views_ok_def s' n)
  moreover have "stores_ok base Poll_accesses (x_heads s')"
    using assms(1) mono len by (auto simp: mem_ok_def stores_ok_def h nth_append less_Suc_eq le_Suc_eq)
  moreover have "poll_ok cap base s'" using head(2) by (simp add: poll_ok_def s' n)
  moreover have "work_ok base s'" using assms(1) work_ok_frame[of s' s base] by (simp add: mem_ok_def s')
  moreover have "accesses_ok cap base s'"
    using assms(1) len unfolding mem_ok_def accesses_ok_def n s' by (auto simp: h nth_append less_Suc_eq)
  moreover have "logs_ok cap base s'"
    using assms(1,2) unfolding mem_ok_def logs_ok_def n s' by (simp add: publishing_def)
  ultimately show ?thesis using assms(1) by (simp add: mem_ok_def s')
qed

text \<open>The worker reads the slot at the tail: every write to it is ordered before.\<close>

lemma no_read_race:
  assumes "mem_ok cap base s" "consumed s < x_work_view s Head_stores"
  shows "x_written s ! slot_of cap base (consumed s) \<le> x_work_view s Poll_accesses"
proof -
  note b = mem_bounds[OF assms(1)]
  let ?t = "consumed s" and ?v = "x_work_view s"
  have "x_written s ! slot_of cap base ?t \<le> snd (x_heads s ! Suc ?t) Poll_accesses"
    using assms b unfolding mem_ok_def accesses_ok_def by fastforce
  also have "\<dots> \<le> snd (x_heads s ! ?v Head_stores) Poll_accesses"
    using assms b by (simp add: mem_ok_def stores_ok_def stored_length)
  also have "\<dots> \<le> ?v Poll_accesses" using assms(1) by (simp add: mem_ok_defs)
  finally show ?thesis .
qed

lemma slot_consumed:
  assumes "mem_ok cap base s" "consumed s < x_work_view s Head_stores"
  shows "x_slots s ! slot_of cap base (consumed s) = x_offered s ! consumed s" "consumed s < length (x_offered s)"
  using assms mem_bounds[OF assms(1)] by (auto simp: mem_ok_def logs_ok_def)

lemma work_read_ok:
  assumes "mem_ok cap base s" "i = slot_of cap base (consumed s)" "consumed s < x_work_view s Head_stores"
    and "s' = (work_read i s)\<lparr>x_work := w, x_dispatched := d, x_released := l\<rparr>" "busy w = 1" "work_ok base s'"
    and "d = take (Suc (consumed s)) (x_offered s)" "l = map q_buf (take (consumed s + returned w) (x_offered s))"
  shows "mem_ok cap base s'"
proof -
  note b = mem_bounds[OF assms(1)]
  let ?c = "Suc (x_work_view s Work_accesses)"
  have s': "x_heads s' = x_heads s" "x_tails s' = x_tails s" "x_slots s' = x_slots s" "x_written s' = x_written s"
    "x_read s' = (x_read s)[i := ?c]" "x_work_view s' = (x_work_view s)(Work_accesses := ?c)"
    "x_poll_view s' = x_poll_view s" "x_poll s' = x_poll s" "x_offered s' = x_offered s" "x_work s' = w"
    "x_race s' \<longleftrightarrow> x_race s \<or> x_written s ! i > x_work_view s Poll_accesses"
    by (simp_all add: assms(4) work_read_def Let_def)
  have "i \<noteq> slot_of cap base j" if "Suc (consumed s) \<le> j" "j < consumed s + unat cap" for j
    using slot_of_inj[of "consumed s" j "consumed s" base] that assms(2) by fastforce
  then have keep: "x_read s' ! slot_of cap base j = x_read s ! slot_of cap base j"
    if "Suc (consumed s) \<le> j" "j < consumed s + unat cap" for j
    using that by (simp add: s')
  have bound: "x_read s' ! j \<le> x_work_view s' Work_accesses" if "j < unat cap" for j
    using assms(1) that by (cases "j = i") (auto simp: mem_ok_def accesses_ok_def s' le_Suc_eq)
  have "busy (x_work s) \<le> 1" by (simp add: busy_def split: worker.splits)
  have "view_ok s (x_work_view s)" using assms(1) by (simp add: mem_ok_def views_ok_def)
  then have "view_ok s' (x_work_view s')" by (simp add: view_ok_def view_le_iff s')
  moreover have known: "known s \<le> known s'" by (simp add: view_le_iff s')
  moreover have "view_ok s' (x_poll_view s)"
    using view_ok_mono[OF _ b(5,6) known, of "x_poll_view s" "[]" "[]"] assms(1) by (simp add: mem_ok_def views_ok_def s')
  ultimately have "views_ok s'"
    using assms(1) b(5,6) by (intro views_step[of s s' "[]" "[]"]) (simp_all add: mem_ok_def views_ok_def s')
  moreover have "poll_ok cap base s'" using assms(1) poll_ok_frame[of s' s cap base] by (simp add: mem_ok_def s')
  moreover have "accesses_ok cap base s'"
    using assms(1,5) keep bound \<open>busy (x_work s) \<le> 1\<close> unfolding mem_ok_def accesses_ok_def
    by (simp add: s'(1-4,7,10)) (simp add: s'(5))
  moreover have "logs_ok cap base s'" using assms(1,5,7,8) by (simp add: mem_ok_def logs_ok_def s') (simp add: assms(4))
  moreover have "x_written s ! i \<le> x_work_view s Poll_accesses" using no_read_race[OF assms(1,3)] assms(2) by simp
  ultimately show ?thesis using assms(1,6) by (simp add: mem_ok_def s')
qed

text \<open>Once the tail is stored, the reads of the slot it passed are among those it hands back.\<close>

lemma tail_hands_back:
  assumes "mem_ok cap base s" "busy (x_work s) = 1" "Suc (consumed s) \<le> j" "j < Suc (consumed s) + unat cap"
    and "tails = x_tails s @ [(x, v)]" "v Work_accesses = x_work_view s Work_accesses"
  shows "x_read s ! slot_of cap base j \<le> handed_back cap tails j"
proof -
  have len: "length (x_tails s) = Suc (consumed s)" by (rule stored_length[OF mem_bounds(6)[OF assms(1)]])
  show ?thesis
  proof (cases "j = consumed s + unat cap")
    case True
    then have "slot_of cap base j = slot_of cap base (consumed s)"
      unfolding ring_index_add by (simp add: unat_cap add.assoc[symmetric] del: of_nat_add)
    then show ?thesis using assms(1,5,6) len True by (simp add: mem_ok_def accesses_ok_def handed_back_def nth_append)
  next
    case False
    then have "handed_back cap tails j = handed_back cap (x_tails s) j"
      using assms(3,4,5) len by (auto simp: handed_back_def nth_append)
    then show ?thesis using assms(1-4) False by (simp add: mem_ok_def accesses_ok_def)
  qed
qed

text \<open>The tail is stored: the slot goes back with every read of it.\<close>

lemma advance_ok:
  assumes "mem_ok cap base s" "x_work s = CAdvance tail"
    and "s' = s\<lparr>x_work := CIdle, x_work_view := store_view Tail_stores (x_tails s) (x_work_view s),
       x_tails := store_atomic release Tail_stores (tail + 1) (x_tails s) (x_work_view s)\<rparr>"
  shows "mem_ok cap base s'"
proof -
  note b = mem_bounds[OF assms(1)]
  let ?t = "consumed s" and ?v = "(x_work_view s)(Tail_stores := Suc (consumed s))"
  have tail: "tail = base + of_nat ?t" "?t < x_work_view s Head_stores" and busy: "busy (x_work s) = 1" "returned (x_work s) = 1"
    using assms(1,2) by (simp_all add: mem_ok_def work_ok_def mode_defs)
  have len: "length (x_tails s) = Suc ?t" using b(6) by (rule stored_length)
  have h: "x_tails s' = x_tails s @ [(base + of_nat (Suc ?t), ?v)]" and n: "consumed s' = Suc ?t"
    using b(6) by (simp_all add: assms(3) store_atomic_def store_view_def tail(1) len stored_append algebra_simps)
  have s': "x_work_view s' = ?v" "x_work s' = CIdle" "x_heads s' = x_heads s" "x_slots s' = x_slots s" "x_written s' = x_written s"
    "x_read s' = x_read s" "x_poll_view s' = x_poll_view s" "x_poll s' = x_poll s" "x_offered s' = x_offered s"
    "x_dispatched s' = x_dispatched s" "x_released s' = x_released s" "x_race s' = x_race s"
    by (simp_all add: assms(3) store_view_def len)
  have pv: "view_ok s (x_poll_view s)" and wv: "view_ok s (x_work_view s)" using assms(1) by (simp_all add: mem_ok_def views_ok_def)
  have mono: "snd (x_tails s ! i) Work_accesses \<le> x_work_view s Work_accesses" if "i \<le> ?t" for i
    using assms(1) that len view_bounds(2)[of s "snd (x_tails s ! i)"] by (simp add: mem_ok_def views_ok_def)
  have known: "known s \<le> known s'" by (simp add: view_le_iff s' n)
  have "view_ok s' ?v"
    using view_bounds[OF wv] wv len by (simp add: view_ok_def view_le_iff s' n) (simp add: h nth_append)
  moreover have "view_ok s' (x_poll_view s)" by (rule view_ok_mono[OF pv b(5,6) known _ h, of "[]"]) (simp add: s')
  ultimately have "views_ok s'"
    using assms(1) by (intro views_step[OF _ b(5,6) known _ h, of "[]"]) (simp_all add: mem_ok_def views_ok_def s' n)
  moreover have "stores_ok base Work_accesses (x_tails s')"
    using assms(1) mono len by (auto simp: mem_ok_def stores_ok_def h nth_append less_Suc_eq le_Suc_eq)
  moreover have "work_ok base s'" using tail(2) by (simp add: work_ok_def s' n)
  moreover have "poll_ok cap base s'" using assms(1) poll_ok_frame[of s' s cap base] by (simp add: mem_ok_def s')
  moreover have "accesses_ok cap base s'"
    using assms(1) tail_hands_back[OF assms(1) busy(1) _ _ h] unfolding mem_ok_def accesses_ok_def n s' by (simp add: busy_def)
  moreover have "logs_ok cap base s'"
    using assms(1) busy unfolding mem_ok_def logs_ok_def n s' by (simp add: mode_defs)
  ultimately show ?thesis using assms(1) by (simp add: mem_ok_def s')
qed

text \<open>The loads: a counter of the own thread is exact, the other's may lag behind but never too far.\<close>

lemma own_head:
  assumes "mem_ok cap base s" "may_load Head_stores (x_heads s) (x_poll_view s) i"
  shows "fst (x_heads s ! i) = base + of_nat (published s)"
    and "load_view relaxed Head_stores (x_heads s) i (x_poll_view s) = x_poll_view s"
proof -
  have "i = published s" "i < length (x_heads s)"
    using assms mem_bounds(5)[OF assms(1)] by (auto simp: may_load_def mem_ok_def views_ok_def stored_length)
  then show "fst (x_heads s ! i) = base + of_nat (published s)"
    "load_view relaxed Head_stores (x_heads s) i (x_poll_view s) = x_poll_view s"
    using assms(1) by (auto simp: mem_ok_def views_ok_def stores_ok_def load_view_def)
qed

lemma own_tail:
  assumes "mem_ok cap base s" "may_load Tail_stores (x_tails s) (x_work_view s) i"
  shows "fst (x_tails s ! i) = base + of_nat (consumed s)"
    and "load_view relaxed Tail_stores (x_tails s) i (x_work_view s) = x_work_view s"
proof -
  have "i = consumed s" "i < length (x_tails s)"
    using assms mem_bounds(6)[OF assms(1)] by (auto simp: may_load_def mem_ok_def views_ok_def stored_length)
  then show "fst (x_tails s ! i) = base + of_nat (consumed s)"
    "load_view relaxed Tail_stores (x_tails s) i (x_work_view s) = x_work_view s"
    using assms(1) by (auto simp: mem_ok_def views_ok_def stores_ok_def load_view_def)
qed

lemma load_tail_view:
  assumes "mem_ok cap base s" "may_load Tail_stores (x_tails s) (x_poll_view s) i"
    and "v = load_view acquire Tail_stores (x_tails s) i (x_poll_view s)"
  shows "view_ok s v" "v Poll_accesses = x_poll_view s Poll_accesses" "v Head_stores = published s" "i \<le> v Tail_stores"
    and "i \<le> consumed s" "published s \<le> i + unat cap" "fst (x_tails s ! i) = base + of_nat i"
proof -
  note b = mem_bounds[OF assms(1)]
  have i: "x_poll_view s Tail_stores \<le> i" "i < length (x_tails s)" using assms(2) by (simp_all add: may_load_def)
  have m: "view_ok s (x_poll_view s)" "view_ok s (snd (x_tails s ! i))" "x_poll_view s Head_stores = published s"
    using assms(1) i by (simp_all add: mem_ok_def views_ok_def)
  show "view_ok s v" unfolding assms(3) using m(1,2) i(2) by (rule acquire_tail)
  show "v Poll_accesses = x_poll_view s Poll_accesses" "v Head_stores = published s" "i \<le> v Tail_stores"
    using view_bounds(1,3)[OF m(2)] m(3) by (simp_all add: assms(3) load_view_def sup_nat_def)
  show "i \<le> consumed s" "published s \<le> i + unat cap" using i b(3,6) by (simp_all add: stored_length)
  show "fst (x_tails s ! i) = base + of_nat i" using assms(1) i(2) by (simp add: mem_ok_def stores_ok_def)
qed

lemma load_head_view:
  assumes "mem_ok cap base s" "may_load Head_stores (x_heads s) (x_work_view s) i"
    and "v = load_view acquire Head_stores (x_heads s) i (x_work_view s)"
  shows "view_ok s v" "v Work_accesses = x_work_view s Work_accesses" "v Tail_stores = consumed s" "i \<le> v Head_stores"
    and "consumed s \<le> i" "i \<le> consumed s + unat cap" "fst (x_heads s ! i) = base + of_nat i"
proof -
  note b = mem_bounds[OF assms(1)]
  have i: "x_work_view s Head_stores \<le> i" "i < length (x_heads s)" using assms(2) by (simp_all add: may_load_def)
  have m: "view_ok s (x_work_view s)" "view_ok s (snd (x_heads s ! i))" "x_work_view s Tail_stores = consumed s"
    using assms(1) i by (simp_all add: mem_ok_def views_ok_def)
  show "view_ok s v" unfolding assms(3) using m(1,2) i(2) by (rule acquire_head)
  show "v Work_accesses = x_work_view s Work_accesses" "v Tail_stores = consumed s" "i \<le> v Head_stores"
    using view_bounds(2,4)[OF m(2)] m(3) by (simp_all add: assms(3) load_view_def sup_nat_def)
  show "consumed s \<le> i" "i \<le> consumed s + unat cap" using i b by (simp_all add: stored_length)
  show "fst (x_heads s ! i) = base + of_nat i" using assms(1) i(2) by (simp add: mem_ok_def stores_ok_def)
qed

lemma tail_loaded:
  assumes "mem_ok cap base s" "x_poll s = PLoadTail e head" "may_load Tail_stores (x_tails s) (x_poll_view s) i"
    and "v = load_view acquire Tail_stores (x_tails s) i (x_poll_view s)"
    and "s' = s\<lparr>x_poll := p, x_poll_view := v, x_dropped := d\<rparr>"
    and "p = PIdle \<or> p = PWrite e head \<and> \<not> head - fst (x_tails s ! i) \<ge> cap"
  shows "mem_ok cap base s'"
proof -
  note l = load_tail_view[OF assms(1,3,4)]
  have head: "head = base + of_nat (published s)" using assms(1,2) by (simp add: mem_ok_def poll_ok_def)
  have "unat (head - fst (x_tails s ! i)) = published s - i"
    unfolding head l(7) using l(5,6) mem_bounds(1,2)[OF assms(1)] by (intro distance) simp_all
  then have "p = PWrite e head \<Longrightarrow> published s < v Tail_stores + unat cap"
    using assms(6) l(4) by (auto simp: word_le_nat_alt)
  then have "poll_ok cap base s'" using assms(6) l(4,6) head by (auto simp: poll_ok_def assms(5))
  then show ?thesis
    using poll_view_step[OF assms(1,5) l(1-3)] assms(2,6) by (auto simp: publishing_def)
qed

lemma head_loaded:
  assumes "mem_ok cap base s" "x_work s = CLoadHead tail" "may_load Head_stores (x_heads s) (x_work_view s) i"
    and "v = load_view acquire Head_stores (x_heads s) i (x_work_view s)" "s' = s\<lparr>x_work := w, x_work_view := v\<rparr>"
    and "w = CIdle \<or> w = CDispatch tail \<and> fst (x_heads s ! i) \<noteq> tail"
  shows "mem_ok cap base s'"
proof -
  note l = load_head_view[OF assms(1,3,4)]
  have tail: "tail = base + of_nat (consumed s)" using assms(1,2) by (simp add: mem_ok_def work_ok_def)
  then have "w = CDispatch tail \<Longrightarrow> consumed s < v Head_stores"
    using assms(6) l(4,5,7) by (cases "i = consumed s") auto
  then have "work_ok base s'" using assms(6) l(4,5) tail by (auto simp: work_ok_def assms(5))
  then show ?thesis
    using work_view_step[OF assms(1,5) l(1-3)] assms(2,6) by (auto simp: mode_defs)
qed

lemma head_peeked:
  assumes "mem_ok cap base s" "x_poll s = PIdle" "may_load Head_stores (x_heads s) (x_poll_view s) i"
    and "s' = s\<lparr>x_poll := PLoadTail e (fst (x_heads s ! i)),
       x_poll_view := load_view relaxed Head_stores (x_heads s) i (x_poll_view s)\<rparr>"
  shows "mem_ok cap base s'"
proof -
  note o = own_head[OF assms(1,3)]
  have s': "s' = s\<lparr>x_poll := PLoadTail e (base + of_nat (published s)), x_poll_view := x_poll_view s, x_dropped := x_dropped s\<rparr>"
    using assms(4) o by simp
  show ?thesis
    by (rule poll_view_step[OF assms(1) s'])
      (use assms(1,2) in \<open>simp_all add: mem_ok_def views_ok_def publishing_def poll_ok_def s'\<close>)
qed

lemma tail_peeked:
  assumes "mem_ok cap base s" "x_work s = CIdle" "may_load Tail_stores (x_tails s) (x_work_view s) i"
    and "s' = s\<lparr>x_work := CLoadHead (fst (x_tails s ! i)),
       x_work_view := load_view relaxed Tail_stores (x_tails s) i (x_work_view s)\<rparr>"
  shows "mem_ok cap base s'"
proof -
  note o = own_tail[OF assms(1,3)]
  have s': "s' = s\<lparr>x_work := CLoadHead (base + of_nat (consumed s)), x_work_view := x_work_view s\<rparr>"
    using assms(4) o by simp
  show ?thesis
    by (rule work_view_step[OF assms(1) s'])
      (use assms(1,2) in \<open>simp_all add: mem_ok_def views_ok_def mode_defs work_ok_def s'\<close>)
qed

text \<open>What the worker does with the slot at the tail.\<close>

lemma dispatched_ok:
  assumes "mem_ok cap base s" "x_work s = CDispatch tail"
    and "s' = (work_read (ring_index cap tail) s)\<lparr>x_work := CRelease tail,
       x_dispatched := x_dispatched s @ [x_slots s ! ring_index cap tail]\<rparr>"
  shows "mem_ok cap base s'"
proof -
  have t: "tail = base + of_nat (consumed s)" "consumed s < x_work_view s Head_stores"
    using assms(1,2) by (simp_all add: mem_ok_def work_ok_def)
  have "x_dispatched s = take (consumed s) (x_offered s)" "x_released s = map q_buf (take (consumed s) (x_offered s))"
    using assms(1,2) by (simp_all add: mem_ok_def logs_ok_def mode_defs)
  then show ?thesis
    using slot_consumed[OF assms(1) t(2)] t assms(3)
    by (intro work_read_ok[OF assms(1) refl t(2), where w = "CRelease tail" and s' = s'])
      (simp_all add: work_read_def Let_def mode_defs work_ok_def take_Suc_conv_app_nth)
qed

lemma released_ok:
  assumes "mem_ok cap base s" "x_work s = CRelease tail"
    and "s' = (work_read (ring_index cap tail) s)\<lparr>x_work := CAdvance tail,
       x_released := x_released s @ [q_buf (x_slots s ! ring_index cap tail)]\<rparr>"
  shows "mem_ok cap base s'"
proof -
  have t: "tail = base + of_nat (consumed s)" "consumed s < x_work_view s Head_stores"
    using assms(1,2) by (simp_all add: mem_ok_def work_ok_def)
  have "x_dispatched s = take (Suc (consumed s)) (x_offered s)" "x_released s = map q_buf (take (consumed s) (x_offered s))"
    using assms(1,2) by (simp_all add: mem_ok_def logs_ok_def mode_defs)
  then show ?thesis
    using slot_consumed[OF assms(1) t(2)] t assms(3)
    by (intro work_read_ok[OF assms(1) refl t(2), where w = "CAdvance tail" and s' = s'])
      (simp_all add: work_read_def Let_def mode_defs work_ok_def take_Suc_conv_app_nth)
qed

lemma mem_step_ok:
  assumes "mem_step queue_orders cap s s'" "mem_ok cap base s"
  shows "mem_ok cap base s'"
  using assms(1)
proof (cases rule: mem_step.cases)
  case (m_full e head i)
  show ?thesis
    by (rule tail_loaded[OF assms(2) m_full(2,3) refl, where p = PIdle and d = "x_dropped s @ [q_buf e]"]) (simp_all add: m_full(1) queue_orders_def)
next
  case (m_room e head i)
  show ?thesis
    by (rule tail_loaded[OF assms(2) m_room(2,3) refl, where p = "PWrite e head" and d = "x_dropped s"])
      (simp_all add: m_room(1,4) queue_orders_def)
next
  case (m_empty tail i)
  show ?thesis
    by (rule head_loaded[OF assms(2) m_empty(2,3) refl, where w = CIdle]) (simp_all add: m_empty(1) queue_orders_def)
next
  case (m_found tail i)
  show ?thesis
    by (rule head_loaded[OF assms(2) m_found(2,3) refl, where w = "CDispatch tail"])
      (simp_all add: m_found(1,4) queue_orders_def)
next
  case (m_scribble e head garbage)
  then show ?thesis using poll_write_ok[OF assms(2) m_scribble(2) refl] by blast
next
  case (m_written e head)
  then show ?thesis using poll_write_ok[OF assms(2) m_written(2) refl] by blast
qed (simp_all add: queue_orders_def head_peeked[OF assms(2)] tail_peeked[OF assms(2)] publish_ok[OF assms(2)]
    dispatched_ok[OF assms(2)] released_ok[OF assms(2)] advance_ok[OF assms(2)])

lemma mem_run_ok:
  assumes "(mem_step queue_orders cap)\<^sup>*\<^sup>* (mem_init cap base slots) s" "length slots = unat cap"
  shows "mem_ok cap base s"
  using assms by (induction rule: rtranclp_induct) (auto intro: mem_init_ok mem_step_ok)

lemma mem_run_effect:
  assumes "(mem_step queue_orders cap)\<^sup>*\<^sup>* (mem_init cap base slots) s" "length slots = unat cap"
  shows "\<not> x_race s" "\<exists>rest. x_offered s = x_dispatched s @ rest \<and> length rest \<le> unat cap + publishing (x_poll s)"
    "\<exists>late. map q_buf (x_dispatched s) = x_released s @ late \<and> length late \<le> 1"
proof -
  have ok: "mem_ok cap base s" using assms by (rule mem_run_ok)
  then have l: "logs_ok cap base s" "published s \<le> consumed s + unat cap" "busy (x_work s) \<le> Suc (returned (x_work s))"
      "returned (x_work s) \<le> busy (x_work s)"
    using mem_bounds[OF ok] by (auto simp: mem_ok_def mode_defs split: worker.splits)
  show "\<not> x_race s" using ok by (simp add: mem_ok_def)
  show "\<exists>rest. x_offered s = x_dispatched s @ rest \<and> length rest \<le> unat cap + publishing (x_poll s)"
    using l(1,2) by (intro exI[of _ "drop (consumed s + busy (x_work s)) (x_offered s)"]) (auto simp: logs_ok_def)
  show "\<exists>late. map q_buf (x_dispatched s) = x_released s @ late \<and> length late \<le> 1"
  proof (cases "busy (x_work s) = returned (x_work s)")
    case False
    then have "busy (x_work s) = 1" "returned (x_work s) = 0" using l(3,4) by (auto simp: mode_defs split: worker.splits)
    moreover have "take (Suc (consumed s)) (x_offered s) = take (consumed s) (x_offered s) @ take 1 (drop (consumed s) (x_offered s))"
      using take_add[of "consumed s" 1] by simp
    ultimately show ?thesis
      using l(1) by (intro exI[of _ "map q_buf (take 1 (drop (consumed s) (x_offered s)))"]) (simp add: logs_ok_def)
  qed (use l(1) in \<open>simp add: logs_ok_def\<close>)
qed

end

section \<open>What the orders are needed for\<close>

text \<open>The orders of the source with the four that cross between the threads replaced.\<close>

definition with_orders :: "memory_order \<Rightarrow> memory_order \<Rightarrow> memory_order \<Rightarrow> memory_order \<Rightarrow> ring_orders" where
  "with_orders load_tail store_head load_head store_tail =
     queue_orders\<lparr>poll_load_tail := load_tail, poll_store_head := store_head,
       work_load_head := load_head, work_store_tail := store_tail\<rparr>"

lemma with_orders_sel [simp]:
  "poll_load_head (with_orders a b c d) = relaxed" "poll_load_tail (with_orders a b c d) = a"
  "poll_store_head (with_orders a b c d) = b" "work_load_tail (with_orders a b c d) = relaxed"
  "work_load_head (with_orders a b c d) = c" "work_store_tail (with_orders a b c d) = d"
  by (simp_all add: with_orders_def queue_orders_def)

text \<open>A state in which the worker has not moved and \<open>n\<close> entries are published.\<close>

definition filled :: "memory_order \<Rightarrow> u64 \<Rightarrow> u64 \<Rightarrow> nat \<Rightarrow> ring_mem \<Rightarrow> bool" where
  "filled store_head cap base n s \<longleftrightarrow> x_poll s = PIdle \<and> x_work s = CIdle \<and> length (x_heads s) = Suc n
     \<and> (\<forall>i \<le> n. fst (x_heads s ! i) = base + of_nat i \<and> snd (x_heads s ! i) Work_accesses = 0 \<and> snd (x_heads s ! i) Tail_stores = 0
          \<and> (store_head = release \<or> snd (x_heads s ! i) Poll_accesses = 0))
     \<and> length (x_written s) = unat cap \<and> (\<forall>i < n. x_written s ! slot_of cap base i > 0)
     \<and> x_tails s = [(base, \<lambda>_. 0)] \<and> x_poll_view s Work_accesses = 0 \<and> x_poll_view s Head_stores = n
     \<and> x_poll_view s Tail_stores = 0 \<and> x_work_view s = (\<lambda>_. 0) \<and> x_read s = replicate (unat cap) 0"

lemma load_initial [simp]: "load_view ord loc [(x, \<lambda>_. 0)] 0 v = v(loc := 0)"
  by (auto simp: load_view_def fun_eq_iff sup_nat_def)

context power_of_two_capacity
begin

lemma fill_one:
  assumes "filled b cap base n s" "n < unat cap"
  shows "\<exists>s'. (mem_step (with_orders a b c d) cap)\<^sup>*\<^sup>* s s' \<and> filled b cap base (Suc n) s'"
proof -
  let ?step = "mem_step (with_orders a b c d) cap"
  have v: "(x_poll_view s)(Head_stores := n, Tail_stores := 0) = x_poll_view s" "(x_poll_view s)(Head_stores := n) = x_poll_view s"
    using assms(1) by (auto simp: filled_def fun_eq_iff)
  let ?h = "base + of_nat n"
  let ?s1 = "s\<lparr>x_poll := PLoadTail zero_entry ?h\<rparr>"
  let ?s2 = "s\<lparr>x_poll := PWrite zero_entry ?h\<rparr>"
  let ?s3 = "(poll_write (ring_index cap ?h) zero_entry ?s2)\<lparr>x_poll := PPublish ?h, x_offered := x_offered s @ [zero_entry]\<rparr>"
  let ?s4 = "?s3\<lparr>x_poll := PIdle, x_poll_view := store_view Head_stores (x_heads s) (x_poll_view ?s3),
       x_heads := store_atomic b Head_stores (?h + 1) (x_heads s) (x_poll_view ?s3)\<rparr>"
  have "?step s ?s1"
    using m_load_head[of s n "with_orders a b c d" cap zero_entry] assms(1) v by (simp add: filled_def may_load_def load_view_def)
  moreover have "?step ?s1 ?s2"
    using m_room[of ?s1 zero_entry ?h 0 cap "with_orders a b c d"] assms v distance[of 0 n base]
    by (simp add: filled_def may_load_def word_le_nat_alt)
  moreover have "?step ?s2 ?s3"
    using m_written[of ?s2 zero_entry ?h "with_orders a b c d" cap] by (simp add: poll_write_def Let_def)
  moreover have "?step ?s3 ?s4"
    using m_publish[of ?s3 ?h "with_orders a b c d" cap] by (simp add: poll_write_def Let_def)
  ultimately have "?step\<^sup>*\<^sup>* s ?s4" by (meson rtranclp.rtrancl_into_rtrancl rtranclp.rtrancl_refl)
  moreover have "filled b cap base (Suc n) ?s4"
    using assms(1) by (auto simp: filled_def poll_write_def Let_def store_view_def store_atomic_def nth_append le_Suc_eq
        less_Suc_eq nth_list_update)
  ultimately show ?thesis by blast
qed

lemma fill:
  assumes "n \<le> unat cap"
  shows "\<exists>s. (mem_step (with_orders a b c d) cap)\<^sup>*\<^sup>* (mem_init cap base slots) s \<and> filled b cap base n s"
  using assms
proof (induction n)
  case 0
  have "filled b cap base 0 (mem_init cap base slots)" by (simp add: filled_def mem_init_def)
  then show ?case by blast
next
  case (Suc n)
  then obtain s where "(mem_step (with_orders a b c d) cap)\<^sup>*\<^sup>* (mem_init cap base slots) s" "filled b cap base n s" by auto
  moreover obtain s' where "(mem_step (with_orders a b c d) cap)\<^sup>*\<^sup>* s s'" "filled b cap base (Suc n) s'"
    using fill_one[OF calculation(2), of a c d] Suc.prems by auto
  ultimately show ?case by (meson rtranclp_trans)
qed

text \<open>The worker consumes the first of the published entries.\<close>

lemma consume_one:
  assumes "filled b cap base n s" "0 < n"
  shows "\<exists>s' v. (mem_step (with_orders a b c d) cap)\<^sup>*\<^sup>* s s'
    \<and> (b \<noteq> release \<or> c \<noteq> acquire \<longrightarrow> x_race s') \<and> x_poll s' = PIdle \<and> x_heads s' = x_heads s \<and> x_poll_view s' = x_poll_view s
    \<and> x_tails s' = [(base, \<lambda>_. 0), (base + 1, v)] \<and> (d \<noteq> release \<longrightarrow> v Work_accesses = 0) \<and> x_read s' ! slot_of cap base 0 > 0"
proof -
  let ?o = "with_orders a b c d" and ?i = "ring_index cap base"
  let ?v = "load_view c Head_stores (x_heads s) 1 (\<lambda>_. 0)"
  let ?s1 = "s\<lparr>x_work := CLoadHead base, x_work_view := (\<lambda>_. 0)\<rparr>"
  let ?s2 = "s\<lparr>x_work := CDispatch base, x_work_view := ?v\<rparr>"
  let ?s3 = "(work_read ?i ?s2)\<lparr>x_work := CRelease base, x_dispatched := x_dispatched s @ [x_slots s ! ?i]\<rparr>"
  let ?s4 = "(work_read ?i ?s3)\<lparr>x_work := CAdvance base, x_released := x_released s @ [q_buf (x_slots s ! ?i)]\<rparr>"
  let ?s5 = "?s4\<lparr>x_work := CIdle, x_work_view := store_view Tail_stores (x_tails s) (x_work_view ?s4),
       x_tails := store_atomic d Tail_stores (base + 1) (x_tails s) (x_work_view ?s4)\<rparr>"
  note f = assms(1)[unfolded filled_def]
  have "mem_step ?o cap s ?s1"
    using m_load_tail[of s 0 ?o cap] f by (simp add: may_load_def fun_upd_idem)
  moreover have "mem_step ?o cap ?s1 ?s2"
    using m_found[of ?s1 base 1 ?o cap] f assms(2) by (simp add: may_load_def)
  moreover have "mem_step ?o cap ?s2 ?s3" using m_dispatch[of ?s2 base ?o cap] by (simp add: work_read_def Let_def)
  moreover have "mem_step ?o cap ?s3 ?s4" using m_release[of ?s3 base ?o cap] by (simp add: work_read_def Let_def)
  moreover have "mem_step ?o cap ?s4 ?s5" using m_advance[of ?s4 base ?o cap] by (simp add: work_read_def Let_def)
  ultimately have "(mem_step ?o cap)\<^sup>*\<^sup>* s ?s5" by (meson rtranclp.rtrancl_into_rtrancl rtranclp.rtrancl_refl)
  moreover have "b \<noteq> release \<or> c \<noteq> acquire \<longrightarrow> x_race ?s5"
  proof -
    have "x_written s ! ?i > 0" using f assms(2) by (auto dest: spec[of _ 0])
    moreover have "b \<noteq> release \<or> c \<noteq> acquire \<longrightarrow> ?v Poll_accesses = 0"
      using f assms(2) by (auto simp: load_view_def sup_nat_def dest: spec[of _ 1])
    ultimately show ?thesis by (auto simp: work_read_def Let_def)
  qed
  ultimately show ?thesis
    using f by (intro exI[of _ ?s5] exI[of _ "snd (x_tails ?s5 ! 1)"])
      (simp add: work_read_def Let_def store_atomic_def store_view_def)
qed

text \<open>Without one of the four orders two accesses to a slot are unordered.\<close>

lemma race_without_order:
  assumes "a \<noteq> acquire \<or> b \<noteq> release \<or> c \<noteq> acquire \<or> d \<noteq> release"
  shows "\<exists>s. (mem_step (with_orders a b c d) cap)\<^sup>*\<^sup>* (mem_init cap base slots) s \<and> x_race s"
proof -
  let ?o = "with_orders a b c d" and ?n = "unat cap"
  have pos: "0 < ?n" by (simp add: unat_cap)
  obtain s0 where s0: "(mem_step ?o cap)\<^sup>*\<^sup>* (mem_init cap base slots) s0" "filled b cap base ?n s0" using fill[of ?n a b c d base slots] by auto
  from consume_one[OF s0(2) pos, of a c d] obtain s v where s: "(mem_step ?o cap)\<^sup>*\<^sup>* s0 s"
    "b \<noteq> release \<or> c \<noteq> acquire \<longrightarrow> x_race s" "x_poll s = PIdle" "x_heads s = x_heads s0" "x_poll_view s = x_poll_view s0"
    "x_tails s = [(base, \<lambda>_. 0), (base + 1, v)]" "d \<noteq> release \<longrightarrow> v Work_accesses = 0" "x_read s ! ring_index cap base > 0" by auto
  note f = s0(2)[unfolded filled_def]
  have run: "(mem_step ?o cap)\<^sup>*\<^sup>* (mem_init cap base slots) s" using s0(1) s(1) by (rule rtranclp_trans)
  show ?thesis
  proof (cases "b = release \<and> c = acquire")
    case False
    then show ?thesis using run s(2) by blast
  next
    case True
    let ?h = "base + of_nat ?n"
    let ?v = "load_view a Tail_stores (x_tails s) 1 (x_poll_view s)"
    let ?s1 = "s\<lparr>x_poll := PLoadTail zero_entry ?h, x_poll_view := x_poll_view s0\<rparr>"
    let ?s2 = "s\<lparr>x_poll := PWrite zero_entry ?h, x_poll_view := ?v\<rparr>"
    let ?s3 = "poll_write (ring_index cap ?h) zero_entry ?s2"
    have h: "?h = base + cap" by simp
    have "mem_step ?o cap s ?s1"
      using m_load_head[of s ?n ?o cap zero_entry] f s(3-5) by (simp add: may_load_def load_view_def fun_upd_idem)
    moreover have "mem_step ?o cap ?s1 ?s2"
    proof -
      have "\<not> ?h - (base + 1) \<ge> cap" using distance[of 1 ?n base] pos by (simp add: word_le_nat_alt)
      then show ?thesis using m_room[of ?s1 zero_entry ?h 1 cap ?o] f s(5,6) by (simp add: may_load_def)
    qed
    moreover have "mem_step ?o cap ?s2 ?s3" using m_scribble[of ?s2 zero_entry ?h ?o cap zero_entry] by simp
    ultimately have "(mem_step ?o cap)\<^sup>*\<^sup>* (mem_init cap base slots) ?s3" using run by (meson rtranclp.rtrancl_into_rtrancl)
    moreover have "x_race ?s3"
    proof -
      have "ring_index cap ?h = ring_index cap base"
        using ring_index_add[of base ?n] ring_index_mod[of base] by (simp add: unat_cap)
      moreover have "?v Work_accesses = 0" using True assms f s(5-7) by (auto simp: load_view_def sup_nat_def)
      ultimately show ?thesis using s(8) by (simp add: poll_write_def Let_def)
    qed
    ultimately show ?thesis by blast
  qed
qed

end

section \<open>Data-race freedom\<close>

lemma with_queue_orders: "with_orders acquire release acquire release = queue_orders"
  by (simp add: with_orders_def queue_orders_def)

text \<open>C8.
  Under the C++ memory model, where a load may return an outdated store and only release stores read by acquire
  loads order the plain accesses around them, the two threads of a pipeline never race on a slot of the ring:
  whatever value the counters had at the start, every slot the worker reads was completely written before,
  and every slot the poll thread fills had been given back.  So the consumers see exactly the entries that
  were written, in that order, with at most a ring and the entry in hand outstanding, and buffers are
  released once each in that order, at most one behind.\<close>

theorem ring_race_free:
  assumes "cap = slot_QUEUE_CAPACITY \<or> cap = iq_QUEUE_CAPACITY" and "length slots = unat cap"
    and "(mem_step queue_orders cap)\<^sup>*\<^sup>* (mem_init cap base slots) s"
  shows "\<not> x_race s \<and> (\<exists>rest. x_offered s = x_dispatched s @ rest \<and> length rest \<le> unat cap + 1)
    \<and> (\<exists>late. map q_buf (x_dispatched s) = x_released s @ late \<and> length late \<le> 1)"
proof -
  have "publishing (x_poll s) \<le> 1" by (simp add: publishing_def split: producer.splits)
  moreover from assms(1) have "\<not> x_race s"
    "\<exists>rest. x_offered s = x_dispatched s @ rest \<and> length rest \<le> unat cap + publishing (x_poll s)"
    "\<exists>late. map q_buf (x_dispatched s) = x_released s @ late \<and> length late \<le> 1"
    using slot_ring.mem_run_effect[of base slots s] iq_ring.mem_run_effect[of base slots s] assms(2,3)
    by (elim disjE; simp add: slot_QUEUE_CAPACITY_def iq_QUEUE_CAPACITY_def)+
  ultimately show ?thesis by (meson add_left_mono le_trans)
qed

text \<open>From counters about to wrap, the worker consumes the entry that the poll thread has just published.\<close>

theorem ring_race_free_witness:
  "\<exists>s. (mem_step queue_orders iq_QUEUE_CAPACITY)\<^sup>*\<^sup>* (mem_init iq_QUEUE_CAPACITY (- 1) (replicate 64 zero_entry)) s
     \<and> map fst (x_tails s) = [- 1, 0] \<and> \<not> x_race s"
proof -
  let ?init = "mem_init iq_QUEUE_CAPACITY (- 1) (replicate 64 zero_entry)"
  obtain s0 where s0: "(mem_step queue_orders iq_QUEUE_CAPACITY)\<^sup>*\<^sup>* ?init s0" "filled release iq_QUEUE_CAPACITY (- 1) 1 s0"
    using iq_ring.fill[of 1 acquire release acquire release "- 1" "replicate 64 zero_entry"]
    by (auto simp: with_queue_orders iq_QUEUE_CAPACITY_def)
  obtain s v where s: "(mem_step queue_orders iq_QUEUE_CAPACITY)\<^sup>*\<^sup>* s0 s" "x_tails s = [(- 1, \<lambda>_. 0), (- 1 + 1, v)]"
    using iq_ring.consume_one[OF s0(2)[unfolded iq_QUEUE_CAPACITY_def], of acquire acquire release]
    by (auto simp: with_queue_orders iq_QUEUE_CAPACITY_def)
  have run: "(mem_step queue_orders iq_QUEUE_CAPACITY)\<^sup>*\<^sup>* ?init s" using s0(1) s(1) by (rule rtranclp_trans)
  have "length (replicate 64 zero_entry) = unat iq_QUEUE_CAPACITY" by (simp add: iq_QUEUE_CAPACITY_def)
  from ring_race_free[OF disjI2[OF refl] this run] run s(2) show ?thesis by auto
qed

text \<open>C9.
  The four memory orders by which the threads hand slots to each other are exactly those the ring needs: with the
  acquire loads and release stores of the source there is no data race, and with any one of them weakened
  some run races, on the entry just published or on the slot just given back.\<close>

theorem ring_orders_exact:
  assumes "cap = slot_QUEUE_CAPACITY \<or> cap = iq_QUEUE_CAPACITY" and "length slots = unat cap"
  shows "(\<forall>s. (mem_step (with_orders a b c d) cap)\<^sup>*\<^sup>* (mem_init cap base slots) s \<longrightarrow> \<not> x_race s)
    \<longleftrightarrow> a = acquire \<and> b = release \<and> c = acquire \<and> d = release"
proof
  assume "\<forall>s. (mem_step (with_orders a b c d) cap)\<^sup>*\<^sup>* (mem_init cap base slots) s \<longrightarrow> \<not> x_race s"
  then show "a = acquire \<and> b = release \<and> c = acquire \<and> d = release"
    using assms(1) slot_ring.race_without_order[folded slot_QUEUE_CAPACITY_def] iq_ring.race_without_order[folded iq_QUEUE_CAPACITY_def]
    by metis
next
  assume "a = acquire \<and> b = release \<and> c = acquire \<and> d = release"
  then show "\<forall>s. (mem_step (with_orders a b c d) cap)\<^sup>*\<^sup>* (mem_init cap base slots) s \<longrightarrow> \<not> x_race s"
    using assms slot_ring.mem_run_effect(1)[folded slot_QUEUE_CAPACITY_def] iq_ring.mem_run_effect(1)[folded iq_QUEUE_CAPACITY_def]
    by (metis with_queue_orders)
qed

text \<open>A relaxed store of the head.\<close>

theorem ring_orders_exact_witness:
  "\<exists>s. (mem_step (with_orders acquire relaxed acquire release) slot_QUEUE_CAPACITY)\<^sup>*\<^sup>*
       (mem_init slot_QUEUE_CAPACITY 0 (replicate 32 zero_entry)) s \<and> x_race s"
  using ring_orders_exact[OF disjI1[OF refl], of "replicate 32 zero_entry" acquire relaxed acquire release 0]
  by (auto simp: slot_QUEUE_CAPACITY_def)

end
