(* ===== verification/Verifier_Cli.thy ===== *)
theory Verifier_Cli
  imports E3_Prelude
begin

text \<open>
  The build-time verifier of the codelets (\<^verbatim>\<open>codelets/verifier/e3_verifier_cli.cpp\<close>, with the ids of
  \<^verbatim>\<open>codelets/include/jbpf_e3_ids.h\<close>): what it registers with jbpf's verifier before it runs, and how its exit
  status follows from the command line and the verdict.  The verifier library is not in the repository: its
  tables are a type \<open>'t\<close>, its registration functions and its verdict are parameters.  So are the offsets in the
  context structs of the gNB and the first ids of jbpf's custom ranges.
\<close>

section \<open>Ids\<close>

text \<open>Constants of jbpf's headers, which are not in the repository.\<close>

record jbpf_consts =
  JBPF_NUM_HELPERS_MAX :: nat
  CUSTOM_HELPER_START_ID :: nat
  CUSTOM_PROGRAM_START_ID :: nat

definition JBPF_E3_ATTACH_ID :: "jbpf_consts \<Rightarrow> nat" where "JBPF_E3_ATTACH_ID J = CUSTOM_HELPER_START_ID J + 0"
definition JBPF_E3_PUBLISH_SLOT_ID :: "jbpf_consts \<Rightarrow> nat" where "JBPF_E3_PUBLISH_SLOT_ID J = CUSTOM_HELPER_START_ID J + 1"
definition JBPF_PROG_TYPE_RAN_OFH :: "jbpf_consts \<Rightarrow> nat" where "JBPF_PROG_TYPE_RAN_OFH J = CUSTOM_PROGRAM_START_ID J + 0"
definition JBPF_E3_PROG_TYPE_RAN_SLOT :: "jbpf_consts \<Rightarrow> nat" where "JBPF_E3_PROG_TYPE_RAN_SLOT J = CUSTOM_PROGRAM_START_ID J + 4"
definition JBPF_E3_SEC_RAN_SLOT :: string where "JBPF_E3_SEC_RAN_SLOT = ''jbpf_ran_slot''"
definition JBPF_E3_SEC_RAN_OFH :: string where "JBPF_E3_SEC_RAN_OFH = ''jbpf_ran_ofh''"

lemmas id_defs = JBPF_E3_ATTACH_ID_def JBPF_E3_PUBLISH_SLOT_ID_def JBPF_PROG_TYPE_RAN_OFH_def JBPF_E3_PROG_TYPE_RAN_SLOT_def

section \<open>What is registered\<close>

record context_descriptor =
  cd_size :: int
  cd_data :: int
  cd_end :: int
  cd_meta :: int

text \<open>Offset and size of the members of a context struct that the descriptors are derived from.\<close>

record ctx_layout =
  off_data :: nat
  off_data_end :: nat
  off_direction :: nat
  size_direction :: nat

definition kNoMetaRegion :: int where "kNoMetaRegion = -1"

definition CTX_EXTENT :: "ctx_layout \<Rightarrow> int" where
  "CTX_EXTENT y = int (off_direction y + size_direction y)"

definition ctx_descr :: "ctx_layout \<Rightarrow> context_descriptor" where
  "ctx_descr y = \<lparr>cd_size = CTX_EXTENT y, cd_data = int (off_data y), cd_end = int (off_data_end y), cd_meta = kNoMetaRegion\<rparr>"

text \<open>The \<^verbatim>\<open>static_assert\<close>s, without which the program does not compile.\<close>

definition asserts_hold :: "jbpf_consts \<Rightarrow> ctx_layout \<Rightarrow> ctx_layout \<Rightarrow> bool" where
  "asserts_hold J ofh slot \<longleftrightarrow>
     cd_size (ctx_descr ofh) = 27 \<and> cd_size (ctx_descr slot) = 47
     \<and> cd_data (ctx_descr slot) = 0 \<and> cd_end (ctx_descr slot) = 8 \<and> cd_data (ctx_descr ofh) = 0 \<and> cd_end (ctx_descr ofh) = 8
     \<and> JBPF_NUM_HELPERS_MAX J \<le> JBPF_E3_ATTACH_ID J"

datatype return_type = RET_INTEGER | RET_UNSUPPORTED
datatype argument_type = ARG_DONTCARE | ARG_PTR_TO_READABLE_MEM | ARG_CONST_SIZE_OR_ZERO

text \<open>A null name is \<open>None\<close>; \<open>hp_context\<close> is the context the helper is restricted to.\<close>

record helper_proto =
  hp_name :: "string option"
  hp_return :: return_type
  hp_args :: "argument_type list"
  hp_reallocate_packet :: bool
  hp_context :: "context_descriptor option"

definition g_e3_attach_proto :: helper_proto where
  "g_e3_attach_proto =
     \<lparr>hp_name = Some ''e3_attach'', hp_return = RET_INTEGER,
      hp_args = [ARG_PTR_TO_READABLE_MEM, ARG_CONST_SIZE_OR_ZERO, ARG_DONTCARE, ARG_DONTCARE, ARG_DONTCARE],
      hp_reallocate_packet = False, hp_context = None\<rparr>"

definition g_e3_publish_slot_proto :: helper_proto where
  "g_e3_publish_slot_proto =
     \<lparr>hp_name = Some ''e3_publish_slot'', hp_return = RET_INTEGER,
      hp_args = [ARG_PTR_TO_READABLE_MEM, ARG_CONST_SIZE_OR_ZERO, ARG_PTR_TO_READABLE_MEM, ARG_CONST_SIZE_OR_ZERO, ARG_DONTCARE],
      hp_reallocate_packet = False, hp_context = None\<rparr>"

text \<open>\<^verbatim>\<open>std::to_string\<close>.\<close>

fun decimal :: "nat \<Rightarrow> string" where
  "decimal n = (if n < 10 then [char_of (48 + n)] else decimal (n div 10) @ [char_of (48 + n mod 10)])"

declare decimal.simps [simp del]

definition make_unregistered_proto :: "nat \<Rightarrow> helper_proto" where
  "make_unregistered_proto hid =
     \<lparr>hp_name = Some (''<unregistered helper '' @ decimal hid @ ''>''), hp_return = RET_UNSUPPORTED,
      hp_args = replicate 5 ARG_DONTCARE, hp_reallocate_packet = False, hp_context = None\<rparr>"

record program_type =
  pt_name :: string
  pt_context :: context_descriptor
  pt_platform_specific :: nat
  pt_section_prefixes :: "string list"
  pt_privileged :: bool

definition ran_ofh :: "jbpf_consts \<Rightarrow> ctx_layout \<Rightarrow> program_type" where
  "ran_ofh J y = \<lparr>pt_name = ''jbpf_ran_ofh'', pt_context = ctx_descr y, pt_platform_specific = JBPF_PROG_TYPE_RAN_OFH J,
     pt_section_prefixes = [JBPF_E3_SEC_RAN_OFH], pt_privileged = False\<rparr>"

definition ran_slot :: "jbpf_consts \<Rightarrow> ctx_layout \<Rightarrow> program_type" where
  "ran_slot J y = \<lparr>pt_name = ''jbpf_ran_slot'', pt_context = ctx_descr y, pt_platform_specific = JBPF_E3_PROG_TYPE_RAN_SLOT J,
     pt_section_prefixes = [JBPF_E3_SEC_RAN_SLOT], pt_privileged = False\<rparr>"

text \<open>jbpf's two registration functions.\<close>

record 't registry =
  reg_program :: "nat \<Rightarrow> program_type \<Rightarrow> 't \<Rightarrow> 't"
  reg_helper :: "nat \<Rightarrow> helper_proto \<Rightarrow> 't \<Rightarrow> 't"

definition register_e3_extensions :: "'t registry \<Rightarrow> jbpf_consts \<Rightarrow> ctx_layout \<Rightarrow> ctx_layout \<Rightarrow> 't \<Rightarrow> 't" where
  "register_e3_extensions R J ofh slot t =
     (let t1 = reg_program R (JBPF_PROG_TYPE_RAN_OFH J) (ran_ofh J ofh) t;
          t2 = reg_program R (JBPF_E3_PROG_TYPE_RAN_SLOT J) (ran_slot J slot) t1;
          t3 = fold (\<lambda>hid. reg_helper R hid (make_unregistered_proto hid)) [JBPF_NUM_HELPERS_MAX J..<JBPF_E3_ATTACH_ID J] t2;
          t4 = reg_helper R (JBPF_E3_ATTACH_ID J) g_e3_attach_proto t3
      in reg_helper R (JBPF_E3_PUBLISH_SLOT_ID J) g_e3_publish_slot_proto t4)"

section \<open>The command\<close>

datatype cli_args = CliUsage nat | CliRun string "string option" "string option"

fun parse_cli :: "string option \<Rightarrow> string option \<Rightarrow> string option \<Rightarrow> string list \<Rightarrow> cli_args" where
  "parse_cli path section asmfile [] = (case path of None \<Rightarrow> CliUsage 1 | Some p \<Rightarrow> CliRun p section asmfile)"
| "parse_cli path section asmfile (a # rest) =
     (if a = ''--asm'' then (case rest of [] \<Rightarrow> CliUsage 1 | f # rest' \<Rightarrow> parse_cli path section (Some f) rest')
      else if a = ''-h'' \<or> a = ''--help'' then CliUsage 0
      else if path = None then parse_cli (Some a) section asmfile rest
      else if section = None then parse_cli path (Some a) asmfile rest
      else CliUsage 1)"

text \<open>\<^verbatim>\<open>jbpf_verify()\<close> gives a verdict or throws.\<close>

datatype verify_result = Verdict bool | Threw

definition verifier_main ::
    "'t registry \<Rightarrow> jbpf_consts \<Rightarrow> ctx_layout \<Rightarrow> ctx_layout \<Rightarrow> ('t \<Rightarrow> string \<Rightarrow> string option \<Rightarrow> string option \<Rightarrow> verify_result)
      \<Rightarrow> 't \<Rightarrow> string list \<Rightarrow> nat" where
  "verifier_main R J ofh slot jbpf_verify t argv =
     (case parse_cli None None None (tl argv) of
        CliUsage code \<Rightarrow> code
      | CliRun path section asmfile \<Rightarrow>
          (case jbpf_verify (register_e3_extensions R J ofh slot t) path section asmfile of
             Threw \<Rightarrow> 1
           | Verdict False \<Rightarrow> 1
           | Verdict True \<Rightarrow> 0))"

section \<open>No zeroed entry is reachable\<close>

lemma gap_registered:
  fixes R :: "'t registry" and tsize :: "'t \<Rightarrow> nat" and entry :: "'t \<Rightarrow> nat \<Rightarrow> helper_proto"
  assumes size: "\<And>i p t. tsize (reg_helper R i p t) = max (tsize t) (i + 1)"
    and stored: "\<And>i p t. entry (reg_helper R i p t) i = p"
    and kept: "\<And>i p t j. j \<noteq> i \<Longrightarrow> j < tsize t \<Longrightarrow> entry (reg_helper R i p t) j = entry t j"
    and "tsize t = n"
  shows "n \<le> m \<Longrightarrow> (let t' = fold (\<lambda>hid. reg_helper R hid (make_unregistered_proto hid)) [n..<m] t
    in tsize t' = m \<and> (\<forall>j < n. entry t' j = entry t j) \<and> (\<forall>j. n \<le> j \<and> j < m \<longrightarrow> entry t' j = make_unregistered_proto j))"
proof (induction m)
  case (Suc m)
  show ?case
  proof (cases "n \<le> m")
    case True
    then show ?thesis using Suc.IH size stored kept by (auto simp: Let_def less_Suc_eq)
  next
    case False
    then have "n = Suc m" using Suc.prems by simp
    then show ?thesis using assms(4) by auto
  qed
qed (use assms(4) in simp)

text \<open>The verifier never meets a helper without a name.  jbpf's registration is documented to grow the helper table
  up to the new id, leaving zeroed entries in between, and a zeroed entry counts as usable and crashes the
  verifier when it is called.  Starting from the built-in helpers, which are named, the extensions leave a table
  that ends with the two E3 helpers under their ids and in which every entry has a name: the built-ins
  unchanged and the whole gap up to the custom range marked as unsupported.\<close>

theorem helper_table_complete:
  fixes R :: "'t registry" and tsize :: "'t \<Rightarrow> nat" and entry :: "'t \<Rightarrow> nat \<Rightarrow> helper_proto"
  assumes "\<And>i p t. tsize (reg_helper R i p t) = max (tsize t) (i + 1)" "\<And>i p t. entry (reg_helper R i p t) i = p"
    "\<And>i p t j. j \<noteq> i \<Longrightarrow> j < tsize t \<Longrightarrow> entry (reg_helper R i p t) j = entry t j"
    "\<And>i p t. tsize (reg_program R i p t) = tsize t \<and> entry (reg_program R i p t) = entry t"
    and "asserts_hold J ofh slot" "tsize t = JBPF_NUM_HELPERS_MAX J" "\<forall>j < tsize t. hp_name (entry t j) \<noteq> None"
    and "t' = register_e3_extensions R J ofh slot t"
  shows "tsize t' = JBPF_E3_ATTACH_ID J + 2 \<and> (\<forall>j < tsize t'. hp_name (entry t' j) \<noteq> None)
    \<and> (\<forall>j < JBPF_NUM_HELPERS_MAX J. entry t' j = entry t j)
    \<and> (\<forall>j. JBPF_NUM_HELPERS_MAX J \<le> j \<and> j < JBPF_E3_ATTACH_ID J \<longrightarrow> hp_return (entry t' j) = RET_UNSUPPORTED)
    \<and> entry t' (JBPF_E3_ATTACH_ID J) = g_e3_attach_proto \<and> entry t' (JBPF_E3_PUBLISH_SLOT_ID J) = g_e3_publish_slot_proto"
proof -
  let ?n = "JBPF_NUM_HELPERS_MAX J" and ?m = "JBPF_E3_ATTACH_ID J"
  let ?t2 = "reg_program R (JBPF_E3_PROG_TYPE_RAN_SLOT J) (ran_slot J slot) (reg_program R (JBPF_PROG_TYPE_RAN_OFH J) (ran_ofh J ofh) t)"
  let ?t3 = "fold (\<lambda>hid. reg_helper R hid (make_unregistered_proto hid)) [?n..<?m] ?t2"
  have n: "?n \<le> ?m" using assms(5) by (simp add: asserts_hold_def)
  have pub: "JBPF_E3_PUBLISH_SLOT_ID J = ?m + 1" by (simp add: id_defs)
  have t2: "tsize ?t2 = ?n" "entry ?t2 = entry t" using assms(4,6) by simp_all
  have t3: "tsize ?t3 = ?m" "\<forall>j < ?n. entry ?t3 j = entry t j" "\<forall>j. ?n \<le> j \<and> j < ?m \<longrightarrow> entry ?t3 j = make_unregistered_proto j"
    using gap_registered[where R = R and tsize = tsize and entry = entry, OF assms(1-3) t2(1) n] t2(2) by (simp_all add: Let_def)
  have t': "t' = reg_helper R (?m + 1) g_e3_publish_slot_proto (reg_helper R ?m g_e3_attach_proto ?t3)"
    by (simp add: assms(8) register_e3_extensions_def Let_def pub)
  have e: "entry t' j = entry ?t3 j" if "j < ?m" for j using that t3(1) assms(1,3) by (simp add: t')
  have em: "entry t' ?m = g_e3_attach_proto" "entry t' (?m + 1) = g_e3_publish_slot_proto" and sz: "tsize t' = ?m + 2"
    using t3(1) assms(1-3) by (simp_all add: t')
  have "hp_name (entry t' j) \<noteq> None" if "j < ?m + 2" for j
  proof -
    have "j < ?n \<or> (?n \<le> j \<and> j < ?m) \<or> j = ?m \<or> j = ?m + 1" using that by linarith
    then consider "j < ?n" | "?n \<le> j" "j < ?m" | "j = ?m" | "j = ?m + 1" by blast
    then show ?thesis
    proof cases
      case 1
      have "entry t' j = entry t j" using e[of j] t3(2) 1 n by simp
      then show ?thesis using assms(6,7) 1 by simp
    next
      case 2
      have "entry t' j = make_unregistered_proto j" using e[of j] t3(3) 2 by simp
      then show ?thesis by (simp add: make_unregistered_proto_def)
    next
      case 3
      show ?thesis unfolding 3 em(1) by (simp add: g_e3_attach_proto_def)
    next
      case 4
      show ?thesis unfolding 4 em(2) by (simp add: g_e3_publish_slot_proto_def)
    qed
  qed
  moreover have "entry t' j = entry t j" if "j < ?n" for j using e[of j] t3(2) that n by simp
  moreover have "hp_return (entry t' j) = RET_UNSUPPORTED" if "?n \<le> j \<and> j < ?m" for j
    using e[of j] t3(3) that by (simp add: make_unregistered_proto_def)
  ultimately show ?thesis using em unfolding pub sz by blast
qed

text \<open>
  The tool passes nothing it has not verified: it exits with 0 only for a request for help or a positive
  verdict of the verifier, run on the extended tables; every exception and every refusal is a failure.
\<close>

lemma verifier_exit_status:
  "verifier_main R J ofh slot verify t argv = 0 \<longleftrightarrow>
     parse_cli None None None (tl argv) = CliUsage 0
     \<or> (\<exists>path sec asm. parse_cli None None None (tl argv) = CliRun path sec asm
         \<and> verify (register_e3_extensions R J ofh slot t) path sec asm = Verdict True)"
  by (auto simp: verifier_main_def split: cli_args.splits verify_result.splits bool.splits)

text \<open>A section name matches at most one of the two program types, so their order is irrelevant.\<close>

lemma section_prefixes_disjoint:
  "\<not> (take (length JBPF_E3_SEC_RAN_OFH) sec = JBPF_E3_SEC_RAN_OFH \<and> take (length JBPF_E3_SEC_RAN_SLOT) sec = JBPF_E3_SEC_RAN_SLOT)"
proof -
  have "take 10 sec = ''jbpf_ran_o''" if "take (length JBPF_E3_SEC_RAN_OFH) sec = JBPF_E3_SEC_RAN_OFH"
    using arg_cong[OF that, of "take 10"] by (simp add: JBPF_E3_SEC_RAN_OFH_def eval_nat_numeral)
  moreover have "take 10 sec = ''jbpf_ran_s''" if "take (length JBPF_E3_SEC_RAN_SLOT) sec = JBPF_E3_SEC_RAN_SLOT"
    using arg_cong[OF that, of "take 10"] by (simp add: JBPF_E3_SEC_RAN_SLOT_def eval_nat_numeral)
  ultimately show ?thesis by auto
qed

section \<open>A table as a list\<close>

text \<open>The documented growth of the table, on lists.\<close>

definition zeroed_proto :: helper_proto where
  "zeroed_proto = \<lparr>hp_name = None, hp_return = RET_INTEGER, hp_args = replicate 5 ARG_DONTCARE, hp_reallocate_packet = False,
     hp_context = None\<rparr>"

definition list_registry :: "helper_proto list registry" where
  "list_registry = \<lparr>reg_program = (\<lambda>i p t. t),
     reg_helper = (\<lambda>i p t. (t @ replicate (i + 1 - length t) zeroed_proto)[i := p])\<rparr>"

definition demo_layout :: "nat \<Rightarrow> ctx_layout" where
  "demo_layout extent = \<lparr>off_data = 0, off_data_end = 8, off_direction = extent - 1, size_direction = 1\<rparr>"

definition demo_consts :: jbpf_consts where
  "demo_consts = \<lparr>JBPF_NUM_HELPERS_MAX = 19, CUSTOM_HELPER_START_ID = 32, CUSTOM_PROGRAM_START_ID = 8\<rparr>"

theorem helper_table_complete_witness:
  "\<exists>t. t = register_e3_extensions list_registry demo_consts (demo_layout 27) (demo_layout 47) (replicate 19 g_e3_attach_proto)
     \<and> length t = 34 \<and> (\<forall>j < 34. hp_name (t ! j) \<noteq> None)"
proof -
  have laws: "length (reg_helper list_registry i p t) = max (length t) (i + 1)" "reg_helper list_registry i p t ! i = p"
    "j \<noteq> i \<Longrightarrow> j < length t \<Longrightarrow> reg_helper list_registry i p t ! j = t ! j"
    "length (reg_program list_registry i q t) = length t \<and> (!) (reg_program list_registry i q t) = (!) t" for i j p q t
    by (auto simp: list_registry_def nth_append)
  have "asserts_hold demo_consts (demo_layout 27) (demo_layout 47)"
    by (simp add: asserts_hold_def ctx_descr_def CTX_EXTENT_def demo_layout_def demo_consts_def id_defs)
  from helper_table_complete[where R = list_registry and tsize = length and entry = "(!)" and t = "replicate 19 g_e3_attach_proto",
      OF laws this _ _ refl]
  show ?thesis by (simp add: g_e3_attach_proto_def demo_consts_def id_defs)
qed

end
