(* ===== verification/Wire_Layout.thy ===== *)
theory Wire_Layout
  imports Jbpf_Io
begin

text \<open>
  The byte layout of the messages that cross the jbpf channels.  A message is a C struct that one side fills
  and the other reads through its own declaration of the struct: \<^verbatim>\<open>codelets/include/jbpf_e3_slot_api.h\<close> is shared,
  but \<^verbatim>\<open>iq_sample_data\<close> and \<^verbatim>\<open>prb_filter_config\<close> are declared twice, for the host in \<^verbatim>\<open>include/ecpri_iq_data.h\<close> and for
  the BPF target in \<^verbatim>\<open>codelets/ecpri_iq_samples/ecpri_iq_data.h\<close>.  Both targets are little-endian and lay a struct
  out by the natural alignment of its members.
\<close>

section \<open>Struct layout\<close>

text \<open>A member: its name, the size (and alignment) of an element, and the number of elements.\<close>

type_synonym c_field = "string \<times> nat \<times> nat"

definition align_up :: "nat \<Rightarrow> nat \<Rightarrow> nat" where
  "align_up pos a = (pos + a - 1) div a * a"

fun layout :: "nat \<Rightarrow> c_field list \<Rightarrow> (string \<times> nat) list" where
  "layout pos [] = []"
| "layout pos ((name, sz, n) # fs) = (let off = align_up pos sz in (name, off) # layout (off + sz * n) fs)"

fun layout_end :: "nat \<Rightarrow> c_field list \<Rightarrow> nat" where
  "layout_end pos [] = pos"
| "layout_end pos ((name, sz, n) # fs) = layout_end (align_up pos sz + sz * n) fs"

definition sizeof :: "c_field list \<Rightarrow> nat" where
  "sizeof fs = align_up (layout_end 0 fs) (foldr (\<lambda>(_, sz, _). max sz) fs 1)"

definition payload_bytes :: "c_field list \<Rightarrow> nat" where
  "payload_bytes fs = sum_list (map (\<lambda>(_, sz, n). sz * n) fs)"

section \<open>Bytes of a struct\<close>

primrec le_bytes :: "nat \<Rightarrow> nat \<Rightarrow> u8 list" where
  "le_bytes 0 v = []"
| "le_bytes (Suc n) v = of_nat (v mod 256) # le_bytes n (v div 256)"

primrec le_value :: "u8 list \<Rightarrow> nat" where
  "le_value [] = 0"
| "le_value (b # bs) = unat b + 256 * le_value bs"

primrec load_elems :: "nat \<Rightarrow> nat \<Rightarrow> u8 list \<Rightarrow> nat list" where
  "load_elems sz 0 bs = []"
| "load_elems sz (Suc n) bs = le_value (take sz bs) # load_elems sz n (drop sz bs)"

text \<open>The members assigned one after the other; \<open>junk\<close> is what the padding holds.\<close>

fun store_struct :: "(nat \<Rightarrow> u8) \<Rightarrow> nat \<Rightarrow> c_field list \<Rightarrow> nat list list \<Rightarrow> u8 list" where
  "store_struct junk pos ((name, sz, n) # fs) (vs # vss) =
     map junk [pos..<align_up pos sz] @ concat (map (le_bytes sz) vs) @ store_struct junk (align_up pos sz + sz * n) fs vss"
| "store_struct junk pos _ _ = []"

fun load_struct :: "nat \<Rightarrow> c_field list \<Rightarrow> u8 list \<Rightarrow> nat list list" where
  "load_struct pos [] bs = []"
| "load_struct pos ((name, sz, n) # fs) bs =
     (let bs' = drop (align_up pos sz - pos) bs
      in load_elems sz n bs' # load_struct (align_up pos sz + sz * n) fs (drop (sz * n) bs'))"

text \<open>
  The code addresses members by name.  A writer's assignments are a list of names and values, a member that is not
  assigned keeps the zeros of the cleared buffer; a reader gets a value for every name of its own declaration.
\<close>

definition member_values :: "c_field list \<Rightarrow> (string \<times> nat list) list \<Rightarrow> nat list list" where
  "member_values fs assigned =
     map (\<lambda>(name, sz, n). case map_of assigned name of Some vs \<Rightarrow> vs | None \<Rightarrow> replicate n 0) fs"

definition store_members :: "(nat \<Rightarrow> u8) \<Rightarrow> c_field list \<Rightarrow> (string \<times> nat list) list \<Rightarrow> u8 list" where
  "store_members junk fs assigned = store_struct junk 0 fs (member_values fs assigned)"

definition load_members :: "c_field list \<Rightarrow> u8 list \<Rightarrow> string \<Rightarrow> nat list" where
  "load_members fs bs name = (case map_of (zip (map fst fs) (load_struct 0 fs bs)) name of Some vs \<Rightarrow> vs | None \<Rightarrow> [])"

text \<open>Values that a struct can hold.\<close>

fun fits :: "c_field list \<Rightarrow> nat list list \<Rightarrow> bool" where
  "fits [] [] \<longleftrightarrow> True"
| "fits ((name, sz, n) # fs) (vs # vss) \<longleftrightarrow> 0 < sz \<and> length vs = n \<and> (\<forall>v \<in> set vs. v < 256 ^ sz) \<and> fits fs vss"
| "fits _ _ \<longleftrightarrow> False"

lemma le_bytes_length [simp]: "length (le_bytes n v) = n"
  by (induction n arbitrary: v) simp_all

lemma le_roundtrip: "v < 256 ^ n \<Longrightarrow> le_value (le_bytes n v) = v"
proof (induction n arbitrary: v)
  case (Suc n)
  have "unat (of_nat (v mod 256) :: u8) = v mod 256" by (simp add: unat_of_nat_mod)
  moreover have "v div 256 < 256 ^ n" using Suc.prems by (simp add: less_mult_imp_div_less mult.commute)
  ultimately show ?case using Suc.IH[of "v div 256"] by simp
qed simp

lemma elems_roundtrip: "\<forall>v \<in> set vs. v < 256 ^ sz \<Longrightarrow> load_elems sz (length vs) (concat (map (le_bytes sz) vs) @ rest) = vs"
  by (induction vs) (simp_all add: le_roundtrip)

lemma elems_length: "length (concat (map (le_bytes sz) vs)) = sz * length vs"
  by (induction vs) simp_all

lemma align_up_ge: "0 < a \<Longrightarrow> pos \<le> align_up pos a"
proof -
  assume "0 < a"
  then have "pos + a - 1 < align_up pos a + a"
    unfolding align_up_def using div_mult_mod_eq[of "pos + a - 1" a] mod_less_divisor[of a "pos + a - 1"] by linarith
  then show ?thesis using \<open>0 < a\<close> by simp
qed

lemma struct_roundtrip: "fits fs vss \<Longrightarrow> load_struct pos fs (store_struct junk pos fs vss) = vss"
proof (induction fs vss arbitrary: pos rule: fits.induct)
  case (2 name sz n fs vs vss)
  then have len: "length vs = n" and vs: "\<forall>v \<in> set vs. v < 256 ^ sz" by simp_all
  have "drop (sz * n) (concat (map (le_bytes sz) vs)) = []" by (simp add: elems_length len)
  then show ?case using 2 elems_roundtrip[OF vs] elems_length[of sz vs] by (simp add: Let_def len)
qed simp_all

lemma members_roundtrip:
  "fits fs (member_values fs assigned) \<Longrightarrow>
     load_members fs (store_members junk fs assigned) name =
       (case map_of (zip (map fst fs) (member_values fs assigned)) name of Some vs \<Rightarrow> vs | None \<Rightarrow> [])"
  by (simp add: load_members_def store_members_def struct_roundtrip)

section \<open>The structs\<close>

definition e3_slot_sel_fields :: "c_field list" where
  "e3_slot_sel_fields = [(''version'', 2, 1), (''nof_slots_per_frame'', 2, 1), (''slot_mask'', 8, 1), (''sfn_mod'', 2, 1),
     (''sfn_offset'', 2, 1), (''reserved'', 1, 20)]"

definition e3_shm_cfg_fields :: "c_field list" where
  "e3_shm_cfg_fields = [(''version'', 2, 1), (''epoch'', 2, 1), (''name'', 1, 64), (''nof_symbols'', 2, 1),
     (''nof_subcarriers'', 2, 1), (''scale'', 4, 1), (''reserved'', 1, 16)]"

definition e3_slot_desc_fields :: "c_field list" where
  "e3_slot_desc_fields = [(''gnb_ts_ns'', 8, 1), (''codelet_entry_ts_ns'', 8, 1), (''codelet_ts_ns'', 8, 1), (''bytes_written'', 4, 1),
     (''fh_write_index'', 4, 1), (''fh_buffer_index'', 1, 1), (''flags'', 1, 1), (''sfn'', 2, 1), (''subframe_id'', 2, 1),
     (''slot_id'', 2, 1), (''sector_id'', 2, 1), (''nof_ports'', 2, 1), (''nof_symbols'', 2, 1), (''nof_subcarriers'', 2, 1),
     (''reserved'', 1, 6)]"

text \<open>The host's declaration, then the codelet's.\<close>

definition host_iq_sample_data :: "c_field list" where
  "host_iq_sample_data = [(''gnb_ts_ns'', 8, 1), (''codelet_ts_ns'', 8, 1), (''timestamp'', 8, 1), (''direction'', 1, 1), (''frame_id'', 1, 1),
     (''comp_method'', 1, 1), (''iq_width'', 1, 1), (''subframe_id'', 2, 1), (''slot_id'', 2, 1), (''symbol_id'', 2, 1),
     (''section_id'', 2, 1), (''start_prbu'', 2, 1), (''num_prbu'', 2, 1), (''payload_size'', 2, 1), (''iq_payload'', 1, 8192)]"

definition host_prb_filter_config :: "c_field list" where
  "host_prb_filter_config = [(''expected_num_prbu'', 2, 1)]"

definition codelet_iq_sample_data :: "c_field list" where
  "codelet_iq_sample_data = [(''gnb_ts_ns'', 8, 1), (''codelet_ts_ns'', 8, 1), (''timestamp'', 8, 1), (''direction'', 1, 1), (''frame_id'', 1, 1),
     (''comp_method'', 1, 1), (''iq_width'', 1, 1), (''subframe_id'', 2, 1), (''slot_id'', 2, 1), (''symbol_id'', 2, 1),
     (''section_id'', 2, 1), (''start_prbu'', 2, 1), (''num_prbu'', 2, 1), (''payload_size'', 2, 1), (''iq_payload'', 1, 8192)]"

definition codelet_prb_filter_config :: "c_field list" where
  "codelet_prb_filter_config = [(''expected_num_prbu'', 2, 1)]"

text \<open>The sender of the filter configuration, \<^verbatim>\<open>iq_pipeline.cpp\<close>, declares it a third time.\<close>

definition pipeline_prb_filter_config :: "c_field list" where
  "pipeline_prb_filter_config = [(''expected_num_prbu'', 2, 1)]"

lemmas field_defs = pipeline_prb_filter_config_def e3_slot_sel_fields_def e3_shm_cfg_fields_def e3_slot_desc_fields_def host_iq_sample_data_def
  host_prb_filter_config_def codelet_iq_sample_data_def codelet_prb_filter_config_def

section \<open>Messages as bytes\<close>

definition desc_values :: "u8 list \<Rightarrow> e3_slot_desc \<Rightarrow> (string \<times> nat list) list" where
  "desc_values reserved d =
     [(''gnb_ts_ns'', [unat (d_gnb_ts_ns d)]), (''codelet_entry_ts_ns'', [unat (d_codelet_entry_ts_ns d)]), (''codelet_ts_ns'', [unat (d_codelet_ts_ns d)]),
      (''bytes_written'', [unat (d_bytes_written d)]), (''fh_write_index'', [unat (d_fh_write_index d)]), (''fh_buffer_index'', [unat (d_fh_buffer_index d)]),
      (''flags'', [unat (d_flags d)]), (''sfn'', [unat (d_sfn d)]), (''subframe_id'', [unat (d_subframe_id d)]),
      (''slot_id'', [unat (d_slot_id d)]), (''sector_id'', [unat (d_sector_id d)]), (''nof_ports'', [unat (d_nof_ports d)]),
      (''nof_symbols'', [unat (d_nof_symbols d)]), (''nof_subcarriers'', [unat (d_nof_subcarriers d)]), (''reserved'', map unat reserved)]"

definition member :: "(string \<Rightarrow> nat list) \<Rightarrow> string \<Rightarrow> 'a::len word" where
  "member m name = (case m name of v # _ \<Rightarrow> of_nat v | [] \<Rightarrow> 0)"

definition desc_of :: "(string \<Rightarrow> nat list) \<Rightarrow> e3_slot_desc" where
  "desc_of m =
     \<lparr>d_gnb_ts_ns = member m ''gnb_ts_ns'', d_codelet_entry_ts_ns = member m ''codelet_entry_ts_ns'', d_codelet_ts_ns = member m ''codelet_ts_ns'',
      d_bytes_written = member m ''bytes_written'', d_fh_write_index = member m ''fh_write_index'', d_fh_buffer_index = member m ''fh_buffer_index'',
      d_flags = member m ''flags'', d_sfn = member m ''sfn'', d_subframe_id = member m ''subframe_id'',
      d_slot_id = member m ''slot_id'', d_sector_id = member m ''sector_id'', d_nof_ports = member m ''nof_ports'',
      d_nof_symbols = member m ''nof_symbols'', d_nof_subcarriers = member m ''nof_subcarriers''\<rparr>"

definition sample_values :: "iq_sample_data \<Rightarrow> (string \<times> nat list) list" where
  "sample_values s =
     [(''gnb_ts_ns'', [unat (iq_gnb_ts_ns s)]), (''codelet_ts_ns'', [unat (iq_codelet_ts_ns s)]), (''timestamp'', [unat (iq_timestamp s)]),
      (''direction'', [unat (iq_direction s)]), (''frame_id'', [unat (iq_frame_id s)]), (''comp_method'', [unat (iq_comp_method s)]),
      (''iq_width'', [unat (iq_iq_width s)]), (''subframe_id'', [unat (iq_subframe_id s)]), (''slot_id'', [unat (iq_slot_id s)]),
      (''symbol_id'', [unat (iq_symbol_id s)]), (''section_id'', [unat (iq_section_id s)]), (''start_prbu'', [unat (iq_start_prbu s)]),
      (''num_prbu'', [unat (iq_num_prbu s)]), (''payload_size'', [unat (iq_payload_size s)]), (''iq_payload'', map unat (iq_payload s))]"

definition sample_of :: "(string \<Rightarrow> nat list) \<Rightarrow> iq_sample_data" where
  "sample_of m =
     \<lparr>iq_gnb_ts_ns = member m ''gnb_ts_ns'', iq_codelet_ts_ns = member m ''codelet_ts_ns'', iq_timestamp = member m ''timestamp'',
      iq_direction = member m ''direction'', iq_frame_id = member m ''frame_id'', iq_comp_method = member m ''comp_method'',
      iq_iq_width = member m ''iq_width'', iq_subframe_id = member m ''subframe_id'', iq_slot_id = member m ''slot_id'',
      iq_symbol_id = member m ''symbol_id'', iq_section_id = member m ''section_id'', iq_start_prbu = member m ''start_prbu'',
      iq_num_prbu = member m ''num_prbu'', iq_payload_size = member m ''payload_size'', iq_payload = map of_nat (m ''iq_payload'')\<rparr>"

definition prb_values :: "prb_filter_config \<Rightarrow> (string \<times> nat list) list" where
  "prb_values c = [(''expected_num_prbu'', [unat (expected_num_prbu c)])]"

definition prb_of :: "(string \<Rightarrow> nat list) \<Rightarrow> prb_filter_config" where
  "prb_of m = \<lparr>expected_num_prbu = member m ''expected_num_prbu''\<rparr>"

lemma byte_range: "unat (b :: u8) < 256" "unat (h :: u16) < 65536" "unat (w :: u32) < 4294967296"
    "unat (x :: u64) < 18446744073709551616"
  using unat_word_less[of b] unat_word_less[of h] unat_word_less[of w] unat_word_less[of x] by simp_all

lemma map_of_nat_unat: "map (\<lambda>b. of_nat (unat b)) bs = (bs :: u8 list)"
  by (induction bs) simp_all

lemma desc_fits: "length reserved = 6 \<Longrightarrow> fits e3_slot_desc_fields (member_values e3_slot_desc_fields (desc_values reserved d))"
  by (auto simp: member_values_def e3_slot_desc_fields_def desc_values_def byte_range)

lemma sample_fits:
  "length (iq_payload s) = 8192 \<Longrightarrow> fits codelet_iq_sample_data (member_values codelet_iq_sample_data (sample_values s))"
  by (auto simp: member_values_def codelet_iq_sample_data_def sample_values_def byte_range)

lemma prb_fits: "fits pipeline_prb_filter_config (member_values pipeline_prb_filter_config (prb_values m))"
  by (simp add: member_values_def pipeline_prb_filter_config_def prb_values_def byte_range)

lemma desc_members:
  assumes "length reserved = 6"
  shows "desc_of (load_members e3_slot_desc_fields (store_members junk e3_slot_desc_fields (desc_values reserved d))) = d"
  unfolding desc_of_def member_def members_roundtrip[OF desc_fits[OF assms]]
  by (simp add: member_values_def e3_slot_desc_fields_def desc_values_def)

lemma sample_members:
  assumes "length (iq_payload s) = 8192"
  shows "sample_of (load_members codelet_iq_sample_data (store_members junk codelet_iq_sample_data (sample_values s))) = s"
  unfolding sample_of_def member_def members_roundtrip[OF sample_fits[OF assms]]
  by (simp add: member_values_def codelet_iq_sample_data_def sample_values_def comp_def map_of_nat_unat)

lemma prb_members:
  "prb_of (load_members pipeline_prb_filter_config (store_members junk pipeline_prb_filter_config (prb_values m))) = m"
  unfolding prb_of_def member_def members_roundtrip[OF prb_fits]
  by (simp add: member_values_def pipeline_prb_filter_config_def prb_values_def)

text \<open>C38.
  What the codelets write is what the controller reads, member by member and by name.  A descriptor, and a sample with
  its payload array, stored into a channel buffer through the codelet's struct declaration and loaded through the
  controller's, comes back unchanged, whatever the padding and the reserved bytes hold, and so does the PRB
  filter on its way to the codelet.  The structs that are declared more than once have the same named members at the
  same offsets and the same size in every declaration; the descriptor takes 56 bytes, and only the
  attach configuration is free of padding.\<close>

theorem wire_roundtrip:
  assumes "length reserved = 6" and "length (iq_payload s) = MAX_IQ_PAYLOAD_BYTES"
  shows "desc_of (load_members e3_slot_desc_fields (store_members junk e3_slot_desc_fields (desc_values reserved d))) = d
    \<and> sample_of (load_members host_iq_sample_data (store_members junk codelet_iq_sample_data (sample_values s))) = s
    \<and> prb_of (load_members codelet_prb_filter_config (store_members junk pipeline_prb_filter_config (prb_values m))) = m
    \<and> layout 0 host_iq_sample_data = layout 0 codelet_iq_sample_data
    \<and> layout 0 host_prb_filter_config = layout 0 codelet_prb_filter_config
    \<and> layout 0 pipeline_prb_filter_config = layout 0 codelet_prb_filter_config
    \<and> sizeof host_iq_sample_data = sizeof codelet_iq_sample_data
    \<and> sizeof pipeline_prb_filter_config = sizeof codelet_prb_filter_config
    \<and> map sizeof [e3_slot_desc_fields, e3_shm_cfg_fields, e3_slot_sel_fields, host_iq_sample_data] = [56, 92, 40, 8240]
    \<and> map (\<lambda>fs. sizeof fs - payload_bytes fs) [e3_slot_desc_fields, e3_shm_cfg_fields, e3_slot_sel_fields, host_iq_sample_data]
      = [2, 0, 4, 6]"
proof -
  have len: "length (iq_payload s) = 8192" using assms(2) by (simp add: MAX_IQ_PAYLOAD_BYTES_def)
  have same: "host_iq_sample_data = codelet_iq_sample_data" "host_prb_filter_config = codelet_prb_filter_config"
      "codelet_prb_filter_config = pipeline_prb_filter_config"
    by (simp_all add: field_defs)
  have sizes: "map sizeof [e3_slot_desc_fields, e3_shm_cfg_fields, e3_slot_sel_fields, host_iq_sample_data] = [56, 92, 40, 8240]"
    by (simp add: sizeof_def field_defs align_up_def)
  have padding: "map (\<lambda>fs. sizeof fs - payload_bytes fs) [e3_slot_desc_fields, e3_shm_cfg_fields, e3_slot_sel_fields, host_iq_sample_data]
      = [2, 0, 4, 6]"
    by (simp add: sizeof_def payload_bytes_def field_defs align_up_def)
  show ?thesis
    using desc_members[OF assms(1), of junk d] sample_members[OF len, of junk] prb_members[of junk m] sizes padding
    unfolding same by (intro conjI refl)
qed

definition demo_msg :: e3_slot_desc where
  "demo_msg = \<lparr>d_gnb_ts_ns = 0x1122334455667788, d_codelet_entry_ts_ns = 1, d_codelet_ts_ns = 2, d_bytes_written = 733824,
     d_fh_write_index = 42, d_fh_buffer_index = 1, d_flags = 2, d_sfn = 1023, d_subframe_id = 9, d_slot_id = 19, d_sector_id = 0,
     d_nof_ports = 4, d_nof_symbols = 14, d_nof_subcarriers = 3276\<rparr>"

definition demo_sample_msg :: iq_sample_data where
  "demo_sample_msg = \<lparr>iq_gnb_ts_ns = 1, iq_codelet_ts_ns = 2, iq_timestamp = 3, iq_direction = 1, iq_frame_id = 255, iq_comp_method = 1,
     iq_iq_width = 9, iq_subframe_id = 9, iq_slot_id = 1, iq_symbol_id = 13, iq_section_id = 0, iq_start_prbu = 0, iq_num_prbu = 273,
     iq_payload_size = 7644, iq_payload = replicate 8192 7\<rparr>"

theorem wire_roundtrip_witness:
  "desc_of (load_members e3_slot_desc_fields (store_members (\<lambda>_. 0xAA) e3_slot_desc_fields
       (desc_values [1, 2, 3, 4, 5, 6] demo_msg))) = demo_msg
     \<and> sample_of (load_members host_iq_sample_data (store_members (\<lambda>_. 0xAA) codelet_iq_sample_data
         (sample_values demo_sample_msg))) = demo_sample_msg"
proof -
  have "length [1, 2, 3, 4, 5, 6 :: u8] = 6" "length (iq_payload demo_sample_msg) = MAX_IQ_PAYLOAD_BYTES"
    by (simp_all add: MAX_IQ_PAYLOAD_BYTES_def demo_sample_msg_def)
  from wire_roundtrip[OF this, of "\<lambda>_. 0xAA" demo_msg "\<lparr>expected_num_prbu = 273\<rparr>"] show ?thesis by blast
qed

end
