(* ===== verification/Xran_Format.thy ===== *)
theory Xran_Format
  imports Ecpri_Codelet
begin

text \<open>
  The header declarations of \<^verbatim>\<open>codelets/include/xran_format.h\<close> and what the eCPRI codelet takes from them.  The
  codelet steps from header to header by \<^verbatim>\<open>sizeof\<close> and cuts fields out of the byte-swapped words with shifts
  and masks of its own; the declarations give the same fields as bit-fields, which the compiler allocates
  from the least significant bit.
\<close>

section \<open>Declarations\<close>

text \<open>The bit-fields of a word, least significant first; other members are fields of their full width.\<close>

type_synonym bit_fields = "(string \<times> nat) list"

definition vlan_hdr :: bit_fields where
  "vlan_hdr = [(''h_vlan_TCI'', 16), (''h_vlan_encapsulated_proto'', 16)]"

definition xran_ecpri_cmn_hdr :: bit_fields where
  "xran_ecpri_cmn_hdr = [(''ecpri_concat'', 1), (''ecpri_resv'', 3), (''ecpri_ver'', 4), (''ecpri_mesg_type'', 8), (''ecpri_payl_size'', 16)]"

definition ecpri_seq_id :: bit_fields where
  "ecpri_seq_id = [(''seq_id'', 8), (''sub_seq_id'', 7), (''e_bit'', 1)]"

definition xran_ecpri_hdr :: bit_fields where
  "xran_ecpri_hdr = xran_ecpri_cmn_hdr @ [(''ecpri_xtc_id'', 16)] @ ecpri_seq_id"

definition data_feature :: bit_fields where
  "data_feature = [(''filter_id'', 4), (''payl_ver'', 3), (''data_direction'', 1)]"

definition sf_slot_sym :: bit_fields where
  "sf_slot_sym = [(''symb_id'', 6), (''slot_id'', 6), (''subframe_id'', 4)]"

definition radio_app_common_hdr :: bit_fields where
  "radio_app_common_hdr = data_feature @ [(''frame_id'', 8)] @ sf_slot_sym"

definition compression_hdr :: bit_fields where
  "compression_hdr = [(''ud_comp_meth'', 4), (''ud_iq_width'', 4)]"

definition data_section_compression_hdr :: bit_fields where
  "data_section_compression_hdr = compression_hdr @ [(''rsrvd'', 8)]"

definition data_section_hdr :: bit_fields where
  "data_section_hdr = [(''num_prbu'', 8), (''start_prbu'', 10), (''sym_inc'', 1), (''rb'', 1), (''sect_id'', 12)]"

lemmas hdr_defs = vlan_hdr_def xran_ecpri_cmn_hdr_def ecpri_seq_id_def xran_ecpri_hdr_def data_feature_def sf_slot_sym_def
  radio_app_common_hdr_def compression_hdr_def data_section_compression_hdr_def data_section_hdr_def

definition hdr_sizeof :: "bit_fields \<Rightarrow> nat" where
  "hdr_sizeof fs = sum_list (map snd fs) div 8"

fun field_of :: "bit_fields \<Rightarrow> string \<Rightarrow> 'a::len word \<Rightarrow> 'a word" where
  "field_of [] name v = 0"
| "field_of ((n, w) # fs) name v = (if n = name then take_bit w v else field_of fs name (drop_bit w v))"

section \<open>The codelet against the declarations\<close>

lemma hdr_sizes:
  "hdr_sizeof vlan_hdr = 4" "hdr_sizeof xran_ecpri_hdr = 8" "hdr_sizeof radio_app_common_hdr = 4"
  "hdr_sizeof data_section_hdr = 4" "hdr_sizeof data_section_compression_hdr = 2"
  by (simp_all add: hdr_sizeof_def hdr_defs)

lemma masks_are_take_bits:
  "v AND 0x3F = take_bit 6 v" "v AND 0xF = take_bit 4 v" "v AND 0xFF = take_bit 8 v" "v AND 0x3FF = take_bit 10 v"
  "v AND 0xFFF = take_bit 12 v" for v :: "'a::len word"
  by (simp_all add: take_bit_eq_mask mask_eq_exp_minus_1)

lemma drop_bit_all_taken: "take_bit 4 (drop_bit 12 v) = drop_bit 12 v" for v :: u16
  by (rule bit_word_eqI) (auto simp: bit_take_bit_iff bit_drop_bit_eq dest: bit_imp_le_length)

lemma top_bits: "take_bit 12 (drop_bit 20 w) = drop_bit 20 w" "take_bit 4 (drop_bit 4 b) = drop_bit 4 b" for w :: u32 and b :: u8
  by (rule bit_word_eqI, auto simp: bit_take_bit_iff bit_drop_bit_eq dest: bit_imp_le_length)+

lemma low_byte_zero: "(ucast (take_bit 8 w) :: u16) = 0 \<longleftrightarrow> take_bit 8 w = 0" for w :: u32
proof -
  have "unat (take_bit 8 w) < 2 ^ 8" by (simp only: unsigned_take_bit_eq take_bit_nat_less_exp)
  then have "unat (ucast (take_bit 8 w) :: u16) = unat (take_bit 8 w)" by (simp add: unsigned_ucast_eq take_bit_nat_eq_self)
  then show ?thesis by (simp add: word_unat_eq_iff)
qed

text \<open>Every field of an output sample is the declared bit-field of the header it comes from.\<close>

lemma sample_fields_declared:
  assumes "out = fill_sample io ctx h tmp"
  shows "iq_symbol_id out = field_of sf_slot_sym ''symb_id'' (k_sf_slot_sym h)"
    "iq_slot_id out = field_of sf_slot_sym ''slot_id'' (k_sf_slot_sym h)"
    "iq_subframe_id out = field_of sf_slot_sym ''subframe_id'' (k_sf_slot_sym h)"
    "iq_section_id out = ucast (field_of data_section_hdr ''sect_id'' (k_sec_bits h))"
    "iq_start_prbu out = ucast (field_of data_section_hdr ''start_prbu'' (k_sec_bits h))"
    "iq_comp_method out = field_of compression_hdr ''ud_comp_meth'' (k_ud_comp_hdr h)"
    "iq_iq_width out = field_of compression_hdr ''ud_iq_width'' (k_ud_comp_hdr h)"
    "field_of data_section_hdr ''num_prbu'' (k_sec_bits h) \<noteq> 0 \<Longrightarrow>
       iq_num_prbu out = ucast (field_of data_section_hdr ''num_prbu'' (k_sec_bits h))"
  by (simp_all add: assms fill_sample_def Let_def hdr_defs masks_are_take_bits top_bits drop_bit_all_taken num_prbu_of_def low_byte_zero)

text \<open>The samples start behind all declared headers, after an Ethernet header of 14 bytes and at most one VLAN tag.\<close>

lemma samples_behind_headers:
  assumes "parse_packet pkt = Inr h"
  shows "\<exists>tag \<in> {0, hdr_sizeof vlan_hdr}. k_iq_start h = 14 + tag + hdr_sizeof xran_ecpri_hdr + hdr_sizeof radio_app_common_hdr
    + hdr_sizeof data_section_hdr + hdr_sizeof data_section_compression_hdr"
proof -
  obtain v app where app: "parse_radio_app pkt = Inr (v, app)" and h: "k_iq_start h = app + 10"
    using assms by (auto simp: parse_packet_def parser_simps)
  then obtain t off where "parse_link pkt = Inr (t, off)" "app = off + 8"
    by (auto simp: parse_radio_app_def parse_ecpri_def parser_simps Let_def split: if_splits)
  then show ?thesis using h by (auto simp: hdr_sizes parse_link_def parser_simps split: if_splits)
qed

end
