(* ===== verification/Ecpri_Handler.thy ===== *)
theory Ecpri_Handler
  imports Jbpf_Dispatcher
begin

text \<open>
  The handler interface (\<^verbatim>\<open>include/e3_data_handler.h\<close>) and its one implementation, the handler that logs eCPRI
  samples (\<^verbatim>\<open>include/ecpri_iq_handler.h\<close>, \<^verbatim>\<open>src/ecpri_iq_handler.cpp\<close>).  The controller does not construct it; the service
  models took its place.  The interface is the locale \<open>data_handler\<close>: what a client may rely on is that handling
  a batch changes neither the stream a handler is registered for nor its name.
\<close>

locale data_handler =
  fixes handle :: "buf list \<Rightarrow> i32 \<Rightarrow> 'h \<Rightarrow> 'h" and name :: "'h \<Rightarrow> string" and stream_id :: "'h \<Rightarrow> stream_id"
  assumes keeps_name: "name (handle bufs n h) = name h"
    and keeps_stream: "stream_id (handle bufs n h) = stream_id h"
begin

text \<open>A handler registered for its stream without ownership sees each batch once, and the dispatcher then releases it.\<close>

lemma dispatched_and_released:
  assumes "0 < sint n" "length bufs = nat (sint n)"
    and "hs' = register_stream (stream_id h) (Some (\<lambda>sid bs (h, env). (handle bs n h, env))) False hs"
  shows "dispatch (\<lambda>b (h, env). (h, release_buf b env)) hs' (Some (stream_id h)) bufs n (h, env)
    = (handle bufs n h, fold release_buf bufs env)"
proof -
  have "fold (\<lambda>b (h, env). (h, release_buf b env)) bs (x, e) = (x, fold release_buf bs e)" for bs x e
    by (induction bs arbitrary: e) simp_all
  then show ?thesis using assms by (simp add: dispatch_def dispatch_call_def Let_def)
qed

lemma stays_registered: "lookup_handler hs (stream_id (handle bufs n h)) = lookup_handler hs (stream_id h)"
  by (simp add: keeps_stream)

end

section \<open>EcpriIqHandler\<close>

text \<open>A line of the log: its number, the direction and the other values in the order they are printed.\<close>

record ecpri_line =
  ln_number :: u64
  ln_timestamp :: u64
  ln_dir :: string
  ln_values :: "nat list"

record ecpri_handler =
  eh_sid :: stream_id
  eh_total_samples_received :: u64
  eh_lines :: "ecpri_line list"

definition EcpriIqHandler :: "stream_id \<Rightarrow> ecpri_handler" where
  "EcpriIqHandler sid = \<lparr>eh_sid = sid, eh_total_samples_received = 0, eh_lines = []\<rparr>"

definition ecpri_line_of :: "u64 \<Rightarrow> iq_sample_data \<Rightarrow> ecpri_line" where
  "ecpri_line_of number s =
     \<lparr>ln_number = number, ln_timestamp = iq_timestamp s, ln_dir = (if iq_direction s = 0 then ''DL'' else ''UL''),
      ln_values = [unat (iq_frame_id s), unat (iq_subframe_id s), unat (iq_slot_id s), unat (iq_symbol_id s), unat (iq_section_id s),
        unat (iq_start_prbu s), unat (iq_num_prbu s), unat (iq_comp_method s), unat (iq_iq_width s), unat (iq_payload_size s)]\<rparr>"

definition ecpri_handle :: "(buf \<Rightarrow> iq_sample_data) \<Rightarrow> buf list \<Rightarrow> i32 \<Rightarrow> ecpri_handler \<Rightarrow> ecpri_handler" where
  "ecpri_handle heap bufs num_bufs h =
     fold (\<lambda>b h. let n = eh_total_samples_received h + 1
                 in h\<lparr>eh_total_samples_received := n, eh_lines := eh_lines h @ [ecpri_line_of n (heap b)]\<rparr>)
       (take (nat (sint num_bufs)) bufs) h"

definition ecpri_handler_name :: "ecpri_handler \<Rightarrow> string" where
  "ecpri_handler_name h = ''EcpriIqHandler''"

text \<open>Every buffer of a batch gets one line, numbered on from the lines before.\<close>

lemma ecpri_handle_lines:
  assumes "0 \<le> sint n" "length bufs = nat (sint n)"
  shows "eh_lines (ecpri_handle heap bufs n h) = eh_lines h
      @ map (\<lambda>i. ecpri_line_of (eh_total_samples_received h + 1 + of_nat i) (heap (bufs ! i))) [0..<length bufs]
    \<and> eh_total_samples_received (ecpri_handle heap bufs n h) = eh_total_samples_received h + of_nat (length bufs)
    \<and> eh_sid (ecpri_handle heap bufs n h) = eh_sid h"
proof -
  let ?f = "\<lambda>b h. let n = eh_total_samples_received h + 1
     in h\<lparr>eh_total_samples_received := n, eh_lines := eh_lines h @ [ecpri_line_of n (heap b)]\<rparr>"
  have "eh_lines (fold ?f bs h) = eh_lines h
      @ map (\<lambda>i. ecpri_line_of (eh_total_samples_received h + 1 + of_nat i) (heap (bs ! i))) [0..<length bs]
    \<and> eh_total_samples_received (fold ?f bs h) = eh_total_samples_received h + of_nat (length bs) \<and> eh_sid (fold ?f bs h) = eh_sid h" for bs
  proof (induction bs rule: rev_induct)
    case (snoc b bs)
    then show ?case by (simp add: Let_def nth_append ac_simps cong: map_cong)
  qed simp
  from this[of bufs] show ?thesis using assms(2) by (simp add: ecpri_handle_def)
qed

lemma ecpri_handle_sid: "eh_sid (ecpri_handle heap bufs n h) = eh_sid h"
proof -
  have "eh_sid (fold (\<lambda>b h. let n = eh_total_samples_received h + 1
     in h\<lparr>eh_total_samples_received := n, eh_lines := eh_lines h @ [ecpri_line_of n (heap b)]\<rparr>) bs h) = eh_sid h" for bs
    by (induction bs arbitrary: h) (simp_all add: Let_def)
  then show ?thesis by (simp add: ecpri_handle_def)
qed

interpretation ecpri_log: data_handler "ecpri_handle heap" ecpri_handler_name eh_sid for heap
  by unfold_locales (simp_all add: ecpri_handler_name_def ecpri_handle_sid)

text \<open>Together: a batch dispatched to the handler is logged once per buffer and released by the dispatcher.\<close>

lemma ecpri_batch_logged:
  assumes "0 < sint n" "length bufs = nat (sint n)"
    and "hs' = register_stream (eh_sid h) (Some (\<lambda>sid bs (h, env). (ecpri_handle heap bs n h, env))) False hs"
  shows "\<exists>h'. dispatch (\<lambda>b (h, env). (h, release_buf b env)) hs' (Some (eh_sid h)) bufs n (h, env)
      = (h', fold release_buf bufs env)
    \<and> length (eh_lines h') = length (eh_lines h) + length bufs \<and> eh_sid h' = eh_sid h"
  using ecpri_log.dispatched_and_released[OF assms] ecpri_handle_lines[of n bufs heap h] assms by simp

end
