(* ===== verification/Drop_Report.thy ===== *)
theory Drop_Report
  imports L1_Kpm
begin

text \<open>
  The drop accounting printed at shutdown: \<^verbatim>\<open>E3SMLayer1::drops_summary()\<close> (\<^verbatim>\<open>src/e3sm/l1_kpm/e3sm_layer_1.cpp\<close>) and the two
  lines of \<^verbatim>\<open>main()\<close> around it (\<^verbatim>\<open>src/e3_controller.cpp\<close>).  The text is represented by the values it shows; the
  percentage by its numerator and denominator.
\<close>

record drop_report =
  dr_published :: u64
  dr_dropped :: u64
  dr_clamped :: "u64 option"
  dr_share :: "(u64 \<times> u64) option"
  dr_reasons :: "(string \<times> u64) list"

definition drops_summary :: "bool \<Rightarrow> l1_sm \<Rightarrow> drop_report" where
  "drops_summary latrec l =
     (let tot = total_drops l;
          pub = l_slot_publish_seq l;
          c = clamped latrec (l_trace l);
          head = \<lparr>dr_published = pub, dr_dropped = tot, dr_clamped = (if c \<noteq> 0 then Some c else None), dr_share = None, dr_reasons = []\<rparr>
      in if tot = 0 then head
         else head\<lparr>dr_share := Some (tot, tot + pub),
           dr_reasons := map (\<lambda>d. (drop_name d, l_drops l d)) (filter (\<lambda>d. l_drops l d \<noteq> 0) drop_order)\<rparr>)"

text \<open>What \<^verbatim>\<open>main()\<close> prints last: the slots lost to a full queue, and the summary.\<close>

definition drop_accounting :: "bool \<Rightarrow> 'w slot_pipeline \<Rightarrow> l1_sm \<Rightarrow> u64 \<times> drop_report" where
  "drop_accounting latrec p l = (sp_dropped p, drops_summary latrec l)"

lemma sum_list_nonzero: "sum_list (map f (filter (\<lambda>d. f d \<noteq> 0) ds)) = sum_list (map f ds)" for f :: "'a \<Rightarrow> 'b::monoid_add"
  by (induction ds) auto

text \<open>
  The reasons that are listed add up to the total that is shown, no reason appears twice, and one that occurred
  is left out only when the 64-bit total is zero.
\<close>

lemma drop_report_complete:
  assumes "r = drops_summary latrec l" "total_drops l \<noteq> 0"
  shows "sum_list (map snd (dr_reasons r)) = dr_dropped r \<and> distinct (map fst (dr_reasons r))
    \<and> ((drop_name d, n) \<in> set (dr_reasons r) \<and> d \<in> set drop_order \<longleftrightarrow> d \<in> set drop_order \<and> l_drops l d = n \<and> n \<noteq> 0)"
proof -
  have d: "distinct (map drop_name drop_order)" by code_simp
  then have names: "inj_on drop_name (set drop_order)" by (simp add: distinct_map)
  have r: "dr_reasons r = map (\<lambda>d. (drop_name d, l_drops l d)) (filter (\<lambda>d. l_drops l d \<noteq> 0) drop_order)"
    "dr_dropped r = total_drops l" using assms by (simp_all add: drops_summary_def Let_def)
  have "sum_list (map snd (dr_reasons r)) = dr_dropped r"
    by (simp add: r comp_def sum_list_nonzero total_drops_sum)
  moreover have "distinct (map fst (dr_reasons r))"
    using distinct_map_filter[OF d, of "\<lambda>d. l_drops l d \<noteq> 0"] by (simp add: r comp_def)
  moreover have "(drop_name d, n) \<in> set (dr_reasons r) \<and> d \<in> set drop_order \<longleftrightarrow> d \<in> set drop_order \<and> l_drops l d = n \<and> n \<noteq> 0"
    using names by (auto simp: r dest: inj_onD)
  ultimately show ?thesis by blast
qed

text \<open>The share has the arrivals in its denominator exactly when no encoding and no send failed.\<close>

lemma share_denominator:
  assumes "dr_share (drops_summary latrec l) = Some (a, b)"
  shows "b = l_slot_publish_seq l + exclusive_total l + l_drops l EncodeFailed + l_drops l EmitFailed"
  using assms by (auto simp: drops_summary_def Let_def total_drops_split ac_simps split: if_splits)

end
