(* ===== verification/Bench_Convert.thy ===== *)
theory Bench_Convert
  imports Sample_Convert "HOL-Library.Multiset"
begin

text \<open>
  The conversion benchmark (\<^verbatim>\<open>codelets/verifier/bench_slot_convert.cpp\<close>): the agreement check it runs first and
  the order statistics it reports.  Measured times are an arbitrary linearly ordered type; the quotient that
  gives the throughput is a parameter.  The product \<^verbatim>\<open>samples.size() * 0.95\<close> is a binary64 one and is rounded as
  such.  The converted rows of the timed runs are not observed by the program and are left out.
\<close>

section \<open>Timing\<close>

record 'd Result =
  us_median :: 'd
  us_p95 :: 'd
  gbps :: 'd

text \<open>A natural number rounded to 53 significant bits, and the binary64 number closest to 0.95, times \<open>2 ^ 53\<close>.\<close>

definition round53 :: "nat \<Rightarrow> nat" where
  "round53 m = (let k = int (nbits m) - 53 in if k \<le> 0 then m else rne m k * 2 ^ nat k)"

definition f64_095 :: nat where
  "f64_095 = 8556839292003942"

definition p95_index :: "nat \<Rightarrow> nat" where
  "p95_index n = round53 (n * f64_095) div 2 ^ 53"

text \<open>
  \<^verbatim>\<open>reserve\<close> of a negative count throws; an empty sample vector is indexed out of its range.  \<open>tick k\<close> is the
  \<open>k\<close>-th measured time.
\<close>

datatype 'a bench = Done 'a | LengthError | OutOfRange

definition time_it :: "('d::linorder \<Rightarrow> 'd) \<Rightarrow> i32 \<Rightarrow> (nat \<Rightarrow> 'd) \<Rightarrow> 'd Result bench" where
  "time_it throughput iters tick =
     (if sint iters < 0 then LengthError
      else
        let samples = sort (map tick [0..<nat (sint iters)])
        in if p95_index (length samples) < length samples \<and> length samples div 2 < length samples
           then Done \<lparr>us_median = samples ! (length samples div 2), us_p95 = samples ! p95_index (length samples),
             gbps = throughput (samples ! (length samples div 2))\<rparr>
           else OutOfRange)"

section \<open>The agreement check\<close>

definition check_geom :: RowGeometry where
  "check_geom = \<lparr>rg_nof_symbols = 14, rg_nof_subcarriers = 3276, rg_nof_ants = 1\<rparr>"

definition check_src :: "bf16 list" where
  "check_src = map (\<lambda>i. ucast ((of_nat i * 2654435761 :: size_t) AND 0xFFFF)) [0..<unat (rg_u16_per_ant check_geom)]"

definition mismatches :: "bool \<Rightarrow> bool \<Rightarrow> nat" where
  "mismatches avx2 f16c =
     (let a = convert_ant avx2 f16c check_src f32_one;
          b = map (\<lambda>s. bf16_to_fp16_scalar f16c s f32_one) check_src
      in length (filter (\<lambda>i. a ! i \<noteq> b ! i) [0..<length check_src]))"

section \<open>The program\<close>

text \<open>One line of the report: ports, bytes per slot, the conversion and the copy.\<close>

type_synonym 'd bench_row = "u32 \<times> size_t \<times> 'd Result \<times> 'd Result"

definition run_config :: "(size_t \<Rightarrow> 'd::linorder \<Rightarrow> 'd) \<Rightarrow> i32 \<Rightarrow> (nat \<Rightarrow> 'd) \<Rightarrow> (nat \<Rightarrow> 'd) \<Rightarrow> u32 \<Rightarrow> 'd bench_row bench" where
  "run_config throughput iters conv_tick copy_tick nof_ports =
     (let src_bytes = rg_row_u16 \<lparr>rg_nof_symbols = 14, rg_nof_subcarriers = 3276, rg_nof_ants = nof_ports\<rparr> * 2;
          traffic = src_bytes * 2
      in case time_it (throughput traffic) iters conv_tick of
           Done conv \<Rightarrow> (case time_it (throughput traffic) iters copy_tick of
               Done mcpy \<Rightarrow> Done (nof_ports, src_bytes, conv, mcpy)
             | LengthError \<Rightarrow> LengthError | OutOfRange \<Rightarrow> OutOfRange)
         | LengthError \<Rightarrow> LengthError | OutOfRange \<Rightarrow> OutOfRange)"

fun run_configs :: "(u32 \<Rightarrow> 'd bench_row bench) \<Rightarrow> u32 list \<Rightarrow> 'd bench_row list bench" where
  "run_configs run [] = Done []"
| "run_configs run (p # ps) =
     (case run p of
        Done row \<Rightarrow> (case run_configs run ps of Done rows \<Rightarrow> Done (row # rows) | LengthError \<Rightarrow> LengthError | OutOfRange \<Rightarrow> OutOfRange)
      | LengthError \<Rightarrow> LengthError | OutOfRange \<Rightarrow> OutOfRange)"

definition bench_convert_main ::
    "bool \<Rightarrow> bool \<Rightarrow> (size_t \<Rightarrow> 'd::linorder \<Rightarrow> 'd) \<Rightarrow> i32 option \<Rightarrow> (u32 \<Rightarrow> nat \<Rightarrow> 'd) \<Rightarrow> (u32 \<Rightarrow> nat \<Rightarrow> 'd)
      \<Rightarrow> (nat \<times> 'd bench_row list) bench" where
  "bench_convert_main avx2 f16c throughput arg conv_tick copy_tick =
     (let iters = (case arg of Some n \<Rightarrow> n | None \<Rightarrow> 200)
      in if mismatches avx2 f16c \<noteq> 0 then Done (1, [])
         else (case run_configs (\<lambda>p. run_config throughput iters (conv_tick p) (copy_tick p) p) [2, 4, 8] of
             Done rows \<Rightarrow> Done (0, rows)
           | LengthError \<Rightarrow> LengthError | OutOfRange \<Rightarrow> OutOfRange))"

section \<open>The check covers every bfloat16\<close>

lemma check_size: "unat (rg_u16_per_ant check_geom) = 91728"
  by (simp add: rg_u16_per_ant_def check_geom_def)

lemma check_src_nth:
  assumes "i < 91728"
  shows "check_src ! i = of_nat (i * 31153)"
proof -
  have "(ucast ((of_nat i * 2654435761 :: size_t) AND 0xFFFF) :: u16) = of_nat (i * 31153)"
  proof (rule word_unat_eq_iff[THEN iffD2])
    have m: "(0xFFFF :: size_t) = mask 16" by (simp add: mask_eq_exp_minus_1)
    have "unat (of_nat i * 2654435761 :: size_t) = i * 2654435761"
      using assms by (subst unat_mult_no_wrap) (simp_all add: unat_of_nat_mod)
    then have "unat (ucast ((of_nat i * 2654435761 :: size_t) AND 0xFFFF) :: u16) = i * 2654435761 mod 65536"
      unfolding m by (simp add: unsigned_ucast_eq unat_and_mask take_bit_eq_mod)
    also have "\<dots> = i * (2654435761 mod 65536) mod 65536" by (simp only: mod_mult_right_eq)
    finally show "unat (ucast ((of_nat i * 2654435761 :: size_t) AND 0xFFFF) :: u16) = unat (of_nat (i * 31153) :: u16)"
      unfolding unat_of_nat_mod by simp
  qed
  then show ?thesis using assms by (simp add: check_src_def check_size)
qed

lemma check_src_covers: "set check_src = UNIV"
proof -
  have "w \<in> set check_src" for w :: u16
  proof -
    let ?i = "unat w * 12113 mod 65536"
    have i: "?i < 91728" by (rule less_le_trans[of _ 65536]) simp_all
    have "?i * 31153 mod 65536 = unat w * (12113 * 31153) mod 65536" by (simp only: mod_mult_left_eq mult.assoc)
    also have "\<dots> = unat w * (12113 * 31153 mod 65536) mod 65536" by (simp only: mod_mult_right_eq)
    also have "\<dots> = unat w" using unat_word_less[of w] by simp
    finally have "check_src ! ?i = w" unfolding check_src_nth[OF i] word_unat_eq_iff unat_of_nat_mod by simp
    moreover have "?i < length check_src" using i by (simp add: check_src_def check_size)
    ultimately show ?thesis using nth_mem by metis
  qed
  then show ?thesis by blast
qed

lemma check_agrees: "avx2 \<longrightarrow> f16c \<Longrightarrow> mismatches avx2 f16c = 0"
  by (simp add: mismatches_def Let_def convert_ant_map)

section \<open>The reported values\<close>

lemma rne_le: "0 < k \<Longrightarrow> rne m (int k) * 2 ^ k \<le> m + 2 ^ k"
proof -
  assume k: "0 < k"
  have "rne m (int k) \<le> m div 2 ^ k + 1" using k by (auto simp: rne_def Let_def)
  then have "rne m (int k) * 2 ^ k \<le> (m div 2 ^ k + 1) * 2 ^ k" by (rule mult_right_mono) simp
  also have "\<dots> \<le> m + 2 ^ k" using div_times_less_eq_dividend[of m "2 ^ k"] by (simp add: algebra_simps)
  finally show ?thesis .
qed

text \<open>Rounding a number to 53 bits adds at most one part in \<open>2 ^ 52\<close>.\<close>

lemma round53_le: "round53 m * 2 ^ 52 \<le> m * (2 ^ 52 + 1)"
proof (cases "nbits m \<le> 53")
  case True
  then show ?thesis by (simp add: round53_def)
next
  case False
  then obtain k where k: "nbits m = 53 + k" "0 < k" using le_Suc_ex[of 53 "nbits m"] by (metis add_cancel_left_right le_cases neq0_conv)
  then have "m \<noteq> 0" by (cases "m = 0") simp_all
  then have "2 ^ (52 + k) \<le> m" using nbits_bounds[of m] k(1) by auto
  then have small: "2 ^ k * 2 ^ 52 \<le> m" by (simp add: power_add mult.commute)
  have "round53 m = rne m (int k) * 2 ^ k" using k by (simp add: round53_def Let_def)
  then have "round53 m * 2 ^ 52 \<le> (m + 2 ^ k) * 2 ^ 52" using rne_le[OF k(2), of m] by simp
  also have "\<dots> \<le> m * (2 ^ 52 + 1)" using small by (simp add: algebra_simps)
  finally show ?thesis .
qed

lemma p95_index_less: "0 < n \<Longrightarrow> p95_index n < n"
proof -
  assume n: "0 < n"
  have "round53 (n * f64_095) * 2 ^ 52 \<le> n * (f64_095 * (2 ^ 52 + 1))" using round53_le[of "n * f64_095"] by (simp add: mult.assoc)
  also have "\<dots> < n * (2 ^ 53 * 2 ^ 52)" using n by (intro mult_strict_left_mono) (simp_all add: f64_095_def)
  finally have "round53 (n * f64_095) * 2 ^ 52 < (n * 2 ^ 53) * 2 ^ 52" by (simp only: mult.assoc)
  then have "round53 (n * f64_095) < n * 2 ^ 53" by (simp only: mult_less_cancel2)
  then show ?thesis unfolding p95_index_def by (simp only: less_mult_imp_div_less)
qed

lemma time_it_outcome:
  "sint iters < 0 \<Longrightarrow> time_it tp iters tick = LengthError"
  "sint iters = 0 \<Longrightarrow> time_it tp iters tick = OutOfRange"
  "0 < sint iters \<Longrightarrow> \<exists>r. time_it tp iters tick = Done r"
  by (simp_all add: time_it_def Let_def p95_index_less)

text \<open>In a sorted list of \<open>n\<close> samples the one at index \<open>i\<close> has more than \<open>i\<close> samples at or below it and at least \<open>n - i\<close> at or above.\<close>

lemma rank_of_sorted:
  assumes "i < length xs"
  shows "i < length (filter (\<lambda>x. x \<le> sort xs ! i) xs)" "length xs - i \<le> length (filter (\<lambda>x. sort xs ! i \<le> x) xs)"
proof -
  let ?s = "sort xs"
  have len: "length (filter P xs) = length (filter P ?s)" for P
    by (rule mset_eq_length) (simp only: mset_filter mset_sort)
  have mono: "?s ! a \<le> ?s ! b" if "a \<le> b" "b < length xs" for a b
    using sorted_nth_mono[of ?s a b] that by simp
  have "\<forall>x \<in> set (take (Suc i) ?s). x \<le> ?s ! i"
    using assms by (auto simp: in_set_conv_nth less_Suc_eq_le intro!: mono)
  then have "filter (\<lambda>x. x \<le> ?s ! i) (take (Suc i) ?s) = take (Suc i) ?s" by (simp add: filter_id_conv)
  then have "length (filter (\<lambda>x. x \<le> ?s ! i) ?s) \<ge> Suc i"
    using assms by (metis append_take_drop_id filter_append le_add1 length_append length_sort length_take min_absorb2 Suc_leI)
  then show "i < length (filter (\<lambda>x. x \<le> ?s ! i) xs)" by (simp add: len)
  have "\<forall>x \<in> set (drop i ?s). ?s ! i \<le> x"
    using assms by (auto simp: in_set_conv_nth intro!: mono)
  then have "filter (\<lambda>x. ?s ! i \<le> x) (drop i ?s) = drop i ?s" by (simp add: filter_id_conv)
  then have "length (filter (\<lambda>x. ?s ! i \<le> x) ?s) \<ge> length xs - i"
    by (metis append_take_drop_id filter_append le_add2 length_append length_drop length_sort)
  then show "length xs - i \<le> length (filter (\<lambda>x. ?s ! i \<le> x) xs)" by (simp add: len)
qed

text \<open>At least half of the measured times are at or above the reported median, and at least half at or below.\<close>

lemma median_splits:
  assumes "time_it tp iters tick = Done r" "xs = map tick [0..<nat (sint iters)]"
  shows "length xs \<le> 2 * length (filter (\<lambda>x. x \<le> us_median r) xs)" "length xs \<le> 2 * length (filter (\<lambda>x. us_median r \<le> x) xs)"
proof -
  have r: "us_median r = sort xs ! (length xs div 2)" "length xs div 2 < length xs"
    using assms by (auto simp: time_it_def Let_def split: if_splits)
  show "length xs \<le> 2 * length (filter (\<lambda>x. x \<le> us_median r) xs)" "length xs \<le> 2 * length (filter (\<lambda>x. us_median r \<le> x) xs)"
    using rank_of_sorted[OF r(2)] unfolding r(1) by linarith+
qed

text \<open>
  The agreement check feeds every one of the 65536 bfloat16 patterns through both converters and finds no
  difference, in every build: the scalar reference of a build is the instruction its vector loop uses, so
  the check cannot show where builds differ from each other.  Whether the program then reports depends on
  the iteration count alone: zero indexes an empty vector, a negative count throws.
\<close>

theorem bench_convert_outcome:
  assumes "avx2 \<longrightarrow> f16c" and "iters = (case arg of Some n \<Rightarrow> n | None \<Rightarrow> 200)"
    and "out = bench_convert_main avx2 f16c throughput arg conv_tick copy_tick"
  shows "set check_src = UNIV \<and> mismatches avx2 f16c = 0
    \<and> (if 0 < sint iters then \<exists>rows. out = Done (0, rows) \<and> map fst rows = [2, 4, 8]
       else out = (if sint iters = 0 then OutOfRange else LengthError))"
proof -
  have out: "out = (case run_configs (\<lambda>p. run_config throughput iters (conv_tick p) (copy_tick p) p) [2, 4, 8] of
      Done rows \<Rightarrow> Done (0, rows) | LengthError \<Rightarrow> LengthError | OutOfRange \<Rightarrow> OutOfRange)"
    unfolding assms(3) bench_convert_main_def Let_def assms(2)[symmetric] using check_agrees[OF assms(1)] by simp
  have row: "\<exists>a b c. run_config throughput iters (conv_tick p) (copy_tick p) p = Done (p, a, b, c)" if pos: "0 < sint iters" for p
  proof -
    define tr where "tr = throughput (rg_row_u16 \<lparr>rg_nof_symbols = 14, rg_nof_subcarriers = 3276, rg_nof_ants = p\<rparr> * 2 * 2)"
    obtain r1 r2 where "time_it tr iters (conv_tick p) = Done r1" "time_it tr iters (copy_tick p) = Done r2"
      using time_it_outcome(3)[OF pos] by metis
    then show ?thesis unfolding run_config_def Let_def tr_def by simp
  qed
  consider "0 < sint iters" | "sint iters = 0" | "sint iters < 0" by linarith
  then show ?thesis
  proof cases
    case 1
    then show ?thesis using row[OF 1, of 2] row[OF 1, of 4] row[OF 1, of 8] check_src_covers check_agrees[OF assms(1)]
      by (auto simp: out)
  qed (use check_src_covers check_agrees[OF assms(1)] in \<open>simp_all add: out run_config_def Let_def time_it_outcome\<close>)
qed

end
