(* ===== verification/Bench_Stage.thy ===== *)
theory Bench_Stage
  imports L1_Trace
begin

text \<open>
  The stage-recording benchmark (\<^verbatim>\<open>bench/bench_stage_recording.cpp\<close>): the synthetic slots, the three ways of
  recording one, the rotation of the arms over the batches, the statistics and the exit status.  \<open>clk k\<close> is the
  \<open>k\<close>-th reading of \<^verbatim>\<open>latrec_tnow()\<close>; the measured time of a batch is an arbitrary linearly ordered value, and the
  mean of two of them a parameter.  An access to an empty vector is \<open>None\<close>.
\<close>

section \<open>Slots\<close>

record SlotFacts =
  sf_seq :: u64
  sf_sfn :: u32
  sf_abs_slot :: u16
  sf_gnb_ts_ns :: u64
  sf_codelet_entry_ts_ns :: u64
  sf_codelet_ts_ns :: u64
  sf_dispatch_ts_ns :: u64
  sf_bytes_written :: u32
  sf_nof_subc :: u32
  sf_encoded_bytes :: size_t
  sf_subscribers :: size_t

definition slot_facts :: "u64 \<Rightarrow> u64 \<Rightarrow> SlotFacts" where
  "slot_facts now i =
     \<lparr>sf_seq = i + 1, sf_sfn = ucast (i mod 1024), sf_abs_slot = ucast (i mod 20), sf_gnb_ts_ns = now - 4,
      sf_codelet_entry_ts_ns = now - 3, sf_codelet_ts_ns = now - 2, sf_dispatch_ts_ns = now - 1, sf_bytes_written = 733824,
      sf_nof_subc = 3276, sf_encoded_bytes = 96, sf_subscribers = 1\<rparr>"

section \<open>Recording a slot\<close>

datatype arm = NoneArm | LatrecArm | CsvArm

text \<open>Times of the arms in \<open>u_times\<close>; \<open>u_csv\<close> are the rows behind the column names, \<open>u_reads\<close> the readings of the clock so far.\<close>

record 'd bench_state =
  u_trace :: trace_state
  u_reads :: nat
  u_counter :: u64
  u_csv :: "nat list list"
  u_batches :: nat
  u_times :: "arm \<Rightarrow> 'd list"

definition bench_init :: "'d bench_state" where
  "bench_init = \<lparr>u_trace = trace_init, u_reads = 0, u_counter = 0, u_csv = [], u_batches = 0, u_times = (\<lambda>_. [])\<rparr>"

text \<open>Without the recorder the stamps are stubs and do not read the clock.\<close>

definition record_latrec :: "bool \<Rightarrow> catalog \<Rightarrow> (nat \<Rightarrow> u64) \<Rightarrow> SlotFacts \<Rightarrow> 'd bench_state \<Rightarrow> 'd bench_state" where
  "record_latrec latrec C clk f s =
     (let r = u_reads s;
          t1 = record_begin latrec C (sf_seq f) (sf_sfn f) (sf_abs_slot f) (sf_gnb_ts_ns f) (sf_codelet_entry_ts_ns f) (u_trace s);
          t2 = process_begin latrec C (sf_seq f) (sf_codelet_ts_ns f) (sf_dispatch_ts_ns f) (sf_bytes_written f) t1;
          t3 = encode_begin latrec C (clk r) (sf_seq f) (sf_bytes_written f) t2;
          t4 = encode_done latrec C (clk (r + 1)) (sf_seq f) (sf_encoded_bytes f) t3;
          t5 = bind_libe3 latrec (sf_seq f) t4;
          t6 = emit_tail latrec C (clk (r + 2)) (sf_seq f) (sf_subscribers f) t5
      in s\<lparr>u_trace := t6, u_reads := (if latrec then r + 3 else r)\<rparr>)"

definition csv_record :: "SlotFacts \<Rightarrow> 'd bench_state \<Rightarrow> 'd bench_state" where
  "csv_record f s =
     s\<lparr>u_csv := u_csv s @ [[unat (sf_seq f), 5, 66, 9, 15, 0, 1850, 2400, unat (sf_nof_subc f), unat (sf_bytes_written f)]]\<rparr>"

definition record_arm :: "bool \<Rightarrow> catalog \<Rightarrow> (nat \<Rightarrow> u64) \<Rightarrow> arm \<Rightarrow> SlotFacts \<Rightarrow> 'd bench_state \<Rightarrow> 'd bench_state" where
  "record_arm latrec C clk a f s =
     (case a of NoneArm \<Rightarrow> s | LatrecArm \<Rightarrow> record_latrec latrec C clk f s | CsvArm \<Rightarrow> csv_record f s)"

text \<open>The facts of the next slot, which read the clock once.\<close>

definition next_facts :: "(nat \<Rightarrow> u64) \<Rightarrow> 'd bench_state \<Rightarrow> SlotFacts \<times> 'd bench_state" where
  "next_facts clk s = (slot_facts (clk (u_reads s)) (u_counter s), s\<lparr>u_reads := u_reads s + 1, u_counter := u_counter s + 1\<rparr>)"

definition warm_up_slot :: "bool \<Rightarrow> catalog \<Rightarrow> (nat \<Rightarrow> u64) \<Rightarrow> 'd bench_state \<Rightarrow> 'd bench_state" where
  "warm_up_slot latrec C clk s =
     (case next_facts clk s of (f, s1) \<Rightarrow>
        record_arm latrec C clk CsvArm f (record_arm latrec C clk LatrecArm f (record_arm latrec C clk NoneArm f s1)))"

section \<open>Batches\<close>

definition time_batch ::
    "bool \<Rightarrow> catalog \<Rightarrow> (nat \<Rightarrow> u64) \<Rightarrow> (nat \<Rightarrow> 'd) \<Rightarrow> u64 \<Rightarrow> arm \<Rightarrow> 'd bench_state \<Rightarrow> 'd bench_state" where
  "time_batch latrec C clk ns iters a s =
     (let s1 = ((\<lambda>s. case next_facts clk s of (f, s1) \<Rightarrow> record_arm latrec C clk a f s1) ^^ unat iters) s
      in s1\<lparr>u_batches := u_batches s1 + 1, u_times := (u_times s1)(a := u_times s1 a @ [ns (u_batches s1)])\<rparr>)"

definition arm_of :: "nat \<Rightarrow> arm" where
  "arm_of n = (if n = 0 then NoneArm else if n = 1 then LatrecArm else CsvArm)"

definition round_order :: "nat \<Rightarrow> arm list" where
  "round_order b = map arm_of [b mod 3, (b + 1) mod 3, (b + 2) mod 3]"

definition run_batches ::
    "bool \<Rightarrow> catalog \<Rightarrow> (nat \<Rightarrow> u64) \<Rightarrow> (nat \<Rightarrow> 'd) \<Rightarrow> u64 \<Rightarrow> u64 \<Rightarrow> 'd bench_state \<Rightarrow> 'd bench_state" where
  "run_batches latrec C clk ns iters batches s =
     fold (\<lambda>b. fold (time_batch latrec C clk ns iters) (round_order b)) [0..<unat batches] s"

section \<open>Statistics and exit status\<close>

record 'd Summary =
  median_ns :: 'd
  min_ns :: 'd
  max_ns :: 'd

definition summarise :: "('d::linorder \<Rightarrow> 'd \<Rightarrow> 'd) \<Rightarrow> 'd list \<Rightarrow> 'd Summary option" where
  "summarise mid batch_ns_per_iter =
     (let xs = sort batch_ns_per_iter; n = length xs
      in if n = 0 then None
         else Some \<lparr>median_ns = (if n mod 2 = 1 then xs ! (n div 2) else mid (xs ! (n div 2 - 1)) (xs ! (n div 2))),
           min_ns = hd xs, max_ns = last xs\<rparr>)"

text \<open>The exit status, with the summaries that were printed.\<close>

definition run_instrumentation ::
    "bool \<Rightarrow> catalog \<Rightarrow> (nat \<Rightarrow> u64) \<Rightarrow> (nat \<Rightarrow> 'd::linorder) \<Rightarrow> ('d \<Rightarrow> 'd \<Rightarrow> 'd) \<Rightarrow> bool \<Rightarrow> u64 \<Rightarrow> u64
      \<Rightarrow> (nat \<times> (arm \<times> 'd Summary) list) option" where
  "run_instrumentation latrec C clk ns mid csv_ok iters batches =
     (if \<not> csv_ok then Some (1, [])
      else
        let s1 = (warm_up_slot latrec C clk ^^ 512) bench_init;
            s2 = run_batches latrec C clk ns iters batches s1
        in (case (summarise mid (u_times s2 NoneArm), summarise mid (u_times s2 LatrecArm), summarise mid (u_times s2 CsvArm)) of
             (Some sn, Some sl, Some sc) \<Rightarrow>
               Some (if clamped latrec (u_trace s2) \<noteq> 0 then 1 else 0, [(NoneArm, sn), (LatrecArm, sl), (CsvArm, sc)])
           | _ \<Rightarrow> None))"

text \<open>
  The options as \<^verbatim>\<open>getopt_long\<close> returns them one by one; the first that is not an option with a value ends the
  program, \<open>OptHelp\<close> with 0.
\<close>

datatype bench_opt = OptMode string | OptIters u64 | OptBatches u64 | OptCsvPath string | OptLatrecDir string | OptHelp | OptUnknown

record bench_opts =
  bo_mode :: string
  bo_csv_path :: string
  bo_latrec_dir :: string
  bo_iters :: u64
  bo_batches :: u64

definition default_bench_opts :: bench_opts where
  "default_bench_opts = \<lparr>bo_mode = ''all'', bo_csv_path = ''./bench_csv_arm.log'', bo_latrec_dir = [], bo_iters = 2000, bo_batches = 15\<rparr>"

fun parse_bench_opts :: "bench_opt list \<Rightarrow> bench_opts \<Rightarrow> nat + bench_opts" where
  "parse_bench_opts [] cf = Inr cf"
| "parse_bench_opts (OptMode m # os) cf = parse_bench_opts os (cf\<lparr>bo_mode := m\<rparr>)"
| "parse_bench_opts (OptIters n # os) cf = parse_bench_opts os (cf\<lparr>bo_iters := n\<rparr>)"
| "parse_bench_opts (OptBatches n # os) cf = parse_bench_opts os (cf\<lparr>bo_batches := n\<rparr>)"
| "parse_bench_opts (OptCsvPath p # os) cf = parse_bench_opts os (cf\<lparr>bo_csv_path := p\<rparr>)"
| "parse_bench_opts (OptLatrecDir d # os) cf = parse_bench_opts os (cf\<lparr>bo_latrec_dir := d\<rparr>)"
| "parse_bench_opts (OptHelp # os) cf = Inl 0"
| "parse_bench_opts (OptUnknown # os) cf = Inl 2"

definition bench_stage_main ::
    "bool \<Rightarrow> catalog \<Rightarrow> (nat \<Rightarrow> u64) \<Rightarrow> (nat \<Rightarrow> 'd::linorder) \<Rightarrow> ('d \<Rightarrow> 'd \<Rightarrow> 'd) \<Rightarrow> (string \<Rightarrow> bool) \<Rightarrow> bench_opt list \<Rightarrow> nat option" where
  "bench_stage_main latrec C clk ns mid csv_opens opts =
     (case parse_bench_opts opts default_bench_opts of
        Inl code \<Rightarrow> Some code
      | Inr cf \<Rightarrow>
          if bo_mode cf \<noteq> ''all'' \<and> bo_mode cf \<noteq> ''instrumentation'' \<and> bo_mode cf \<noteq> ''compiled-out'' then Some 2
          else if bo_mode cf = ''all'' \<or> bo_mode cf = ''instrumentation''
            then map_option fst (run_instrumentation latrec C clk ns mid (csv_opens (bo_csv_path cf)) (bo_iters cf) (bo_batches cf))
          else Some 0)"

section \<open>Every arm gets its share\<close>

lemma round_order_cases:
  "round_order b \<in> {[NoneArm, LatrecArm, CsvArm], [LatrecArm, CsvArm, NoneArm], [CsvArm, NoneArm, LatrecArm]}"
proof -
  have "b mod 3 = 0 \<and> (b + 1) mod 3 = 1 \<and> (b + 2) mod 3 = 2 \<or> b mod 3 = 1 \<and> (b + 1) mod 3 = 2 \<and> (b + 2) mod 3 = 0
    \<or> b mod 3 = 2 \<and> (b + 1) mod 3 = 0 \<and> (b + 2) mod 3 = 1" by presburger
  then show ?thesis by (auto simp: round_order_def arm_of_def)
qed

lemma record_arm_times: "u_times (record_arm latrec C clk a f s) = u_times s"
  by (cases a) (simp_all add: record_arm_def record_latrec_def csv_record_def Let_def)

lemma time_batch_times: "u_times (time_batch latrec C clk ns iters a s) = (u_times s)(a := u_times s a @ [ns (u_batches (time_batch latrec C clk ns iters a s) - 1)])"
proof -
  have "u_times (((\<lambda>s. case next_facts clk s of (f, s1) \<Rightarrow> record_arm latrec C clk a f s1) ^^ n) s) = u_times s" for n
    by (induction n) (simp_all add: next_facts_def record_arm_times)
  then show ?thesis by (simp add: time_batch_def Let_def)
qed

lemma fold_batches_lengths:
  "length (u_times (fold (time_batch latrec C clk ns iters) as s) x) = length (u_times s x) + count_list as x"
  by (induction as arbitrary: s) (simp_all add: time_batch_times)

lemma round_order_count: "count_list (round_order b) x = 1"
  using round_order_cases[of b] by (cases x) auto

lemma run_batches_lengths:
  "length (u_times (run_batches latrec C clk ns iters batches s) x) = length (u_times s x) + unat batches"
proof -
  have "length (u_times (fold (\<lambda>b. fold (time_batch latrec C clk ns iters) (round_order b)) bs s) x)
      = length (u_times s x) + length bs" for bs
    by (induction bs arbitrary: s) (simp_all add: fold_batches_lengths round_order_count)
  then show ?thesis by (simp add: run_batches_def)
qed

section \<open>When the report is valid\<close>

text \<open>A clock whose first \<open>N\<close> readings are each at least five nanoseconds before the next, and the state it keeps clean.\<close>

definition clock_steps :: "nat \<Rightarrow> (nat \<Rightarrow> u64) \<Rightarrow> bool" where
  "clock_steps N clk \<longleftrightarrow> 4 < unat (clk 0) \<and> (\<forall>k < N. unat (clk k) + 4 < unat (clk (Suc k)))"

definition clean :: "nat \<Rightarrow> (nat \<Rightarrow> u64) \<Rightarrow> 'd bench_state \<Rightarrow> bool" where
  "clean N clk s \<longleftrightarrow> (u_reads s \<le> N \<longrightarrow>
     trace_ok (u_trace s) \<and> g_clamped (u_trace s) = 0 \<and> unat (tls_floor_ns (u_trace s)) + 4 < unat (clk (u_reads s)))"

lemma stamp_later:
  assumes "trace_ok t" "unat (tls_floor_ns t) < unat x"
  shows "trace_ok (stamp_at True seq st a b x t)" "tls_floor_ns (stamp_at True seq st a b x t) = x"
    "g_clamped (stamp_at True seq st a b x t) = g_clamped t"
proof -
  have room: "unat (tls_floor_ns t) + 1 < 2 ^ 64 \<or> unat x = unat (tls_floor_ns t) + 1" using assms(2) unat_word_less[of x] by auto
  have up: "\<not> x \<le> tls_floor_ns t" using assms(2) by (simp add: word_le_nat_alt)
  then show "tls_floor_ns (stamp_at True seq st a b x t) = x" "g_clamped (stamp_at True seq st a b x t) = g_clamped t"
    by (simp_all add: stamp_at_def monotone_def)
  show "trace_ok (stamp_at True seq st a b x t)"
    using assms up by (fastforce simp: stamp_at_def monotone_def trace_ok_def ring_times_def sorted_wrt_append)
qed

lemma clock_before:
  assumes "clock_steps N clk"
  shows "k < N \<Longrightarrow> unat (clk k) < unat (clk (Suc k))" "k \<le> N \<Longrightarrow> 4 < unat (clk k)"
proof -
  have step: "unat (clk k) + 4 < unat (clk (Suc k))" if "k < N" for k using assms that by (simp add: clock_steps_def)
  show "k < N \<Longrightarrow> unat (clk k) < unat (clk (Suc k))" using step[of k] by simp
  show "k \<le> N \<Longrightarrow> 4 < unat (clk k)"
  proof (induction k)
    case (Suc k)
    then show ?case using step[of k] by simp
  qed (use assms in \<open>simp add: clock_steps_def\<close>)
qed

text \<open>One slot recorded by the latrec arm: five stamps, all later than the ring so far.\<close>

lemma record_latrec_clean:
  assumes "clock_steps N clk" "clean N clk s" "next_facts clk s = (f, s1)"
  shows "clean N clk (record_latrec True C clk f s1)"
proof (cases "u_reads s + 4 \<le> N")
  case True
  let ?r = "u_reads s" and ?n = "clk (u_reads s)"
  have f: "sf_gnb_ts_ns f = ?n - 4" "sf_codelet_ts_ns f = ?n - 2" and s1: "u_reads s1 = Suc ?r" "u_trace s1 = u_trace s"
    using assms(3) by (auto simp: next_facts_def slot_facts_def)
  have big: "4 < unat ?n" and fl: "unat (tls_floor_ns (u_trace s)) + 4 < unat ?n" and ok: "trace_ok (u_trace s)" "g_clamped (u_trace s) = 0"
    using clock_before(2)[OF assms(1), of ?r] assms(2) True by (auto simp: clean_def)
  have sub: "unat (?n - 4) = unat ?n - 4" "unat (?n - 2) = unat ?n - 2"
    using big by (simp_all add: unat_sub_no_wrap)
  have c: "unat (clk ?r) < unat (clk (Suc ?r))" "unat (clk (Suc ?r)) < unat (clk (Suc (Suc ?r)))"
    "unat (clk (Suc (Suc ?r))) < unat (clk (Suc (Suc (Suc ?r))))"
    using clock_before(1)[OF assms(1)] True by simp_all
  have "Suc (Suc (Suc ?r)) < N" "?r + 4 = Suc (Suc (Suc (Suc ?r)))" using True by simp_all
  then have last: "unat (clk (Suc (Suc (Suc ?r)))) + 4 < unat (clk (?r + 4))" using assms(1) unfolding clock_steps_def by metis
  note st = stamp_later
  let ?t1 = "record_begin True C (sf_seq f) (sf_sfn f) (sf_abs_slot f) (?n - 4) (sf_codelet_entry_ts_ns f) (u_trace s)"
  have 1: "trace_ok ?t1" "tls_floor_ns ?t1 = ?n - 4" "g_clamped ?t1 = 0"
    unfolding record_begin_def using st[OF ok(1), of "?n - 4"] fl sub ok(2) by simp_all
  let ?t2 = "process_begin True C (sf_seq f) (?n - 2) (sf_dispatch_ts_ns f) (sf_bytes_written f) ?t1"
  have 2: "trace_ok ?t2" "tls_floor_ns ?t2 = ?n - 2" "g_clamped ?t2 = 0"
    unfolding process_begin_def using st[OF 1(1), of "?n - 2"] big sub 1 by simp_all
  let ?t3 = "encode_begin True C (clk (Suc ?r)) (sf_seq f) (sf_bytes_written f) ?t2"
  have 3: "trace_ok ?t3" "tls_floor_ns ?t3 = clk (Suc ?r)" "g_clamped ?t3 = 0"
    unfolding encode_begin_def stamp_now_def using st[OF 2(1), of "clk (Suc ?r)"] c sub 2 by simp_all
  let ?t4 = "encode_done True C (clk (Suc (Suc ?r))) (sf_seq f) (sf_encoded_bytes f) ?t3"
  have 4: "trace_ok ?t4" "tls_floor_ns ?t4 = clk (Suc (Suc ?r))" "g_clamped ?t4 = 0"
    unfolding encode_done_def stamp_now_def using st[OF 3(1), of "clk (Suc (Suc ?r))"] c 3 by simp_all
  let ?t5 = "bind_libe3 True (sf_seq f) ?t4"
  have 5: "trace_ok ?t5" "tls_floor_ns ?t5 = clk (Suc (Suc ?r))" "g_clamped ?t5 = 0"
    using 4 by (simp_all add: bind_libe3_def trace_ok_def ring_times_def)
  let ?t6 = "emit_tail True C (clk (Suc (Suc (Suc ?r)))) (sf_seq f) (sf_subscribers f) ?t5"
  have 6: "trace_ok ?t6" "tls_floor_ns ?t6 = clk (Suc (Suc (Suc ?r)))" "g_clamped ?t6 = 0"
    unfolding emit_tail_def stamp_now_def using st[OF 5(1), of "clk (Suc (Suc (Suc ?r)))"] c 5 by simp_all
  show ?thesis using 6 last by (simp add: clean_def record_latrec_def Let_def f s1 add.commute)
next
  case False
  then show ?thesis using assms(3) by (auto simp: clean_def record_latrec_def Let_def next_facts_def)
qed

lemma next_facts_clean:
  assumes "clock_steps N clk" "clean N clk s" "next_facts clk s = (f, s1)"
  shows "clean N clk s1"
  using assms clock_before(1)[OF assms(1), of "u_reads s"] by (auto simp: clean_def next_facts_def)

lemma csv_record_clean: "clean N clk (csv_record f s) = clean N clk s"
  by (simp add: clean_def csv_record_def)

lemma batch_slot_clean:
  assumes "clock_steps N clk" "clean N clk s"
  shows "clean N clk (case next_facts clk s of (f, s1) \<Rightarrow> record_arm True C clk a f s1)"
    and "clean N clk (warm_up_slot True C clk s)"
  using next_facts_clean[OF assms] record_latrec_clean[OF assms]
  by (auto simp: record_arm_def csv_record_clean warm_up_slot_def split: prod.splits arm.splits)

lemma bench_clean:
  fixes ns :: "nat \<Rightarrow> 'd"
  assumes "clock_steps N clk"
  shows "clean N clk (run_batches True C clk ns iters batches ((warm_up_slot True C clk ^^ 512) bench_init))"
proof -
  have warm: "clean N clk ((warm_up_slot True C clk ^^ n) (bench_init :: 'd bench_state))" for n
  proof (induction n)
    case 0
    show ?case using assms by (simp add: clean_def bench_init_def trace_init_def trace_ok_def ring_times_def clock_steps_def)
  qed (simp add: batch_slot_clean[OF assms])
  have slots: "clean N clk (((\<lambda>s :: 'd bench_state. case next_facts clk s of (f, s1) \<Rightarrow> record_arm True C clk a f s1) ^^ n) s)"
    if "clean N clk s" for a :: arm and n :: nat and s
    using that by (induction n) (simp_all add: batch_slot_clean[OF assms])
  have batch: "clean N clk (time_batch True C clk ns iters a s)" if "clean N clk s" for a s
    using slots[OF that, of "unat iters" a] by (simp add: time_batch_def Let_def clean_def)
  have round: "clean N clk (fold (time_batch True C clk ns iters) as s)" if "clean N clk s" for as s
    using that by (induction as arbitrary: s) (simp_all add: batch)
  have "clean N clk (fold (\<lambda>b. fold (time_batch True C clk ns iters) (round_order b)) bs s)" if "clean N clk s" for bs s
    using that by (induction bs arbitrary: s) (simp_all add: round)
  then show ?thesis using warm by (simp add: run_batches_def)
qed

lemma summarise_some: "summarise mid xs = None \<longleftrightarrow> xs = []"
proof -
  have "length (sort xs) = 0 \<longleftrightarrow> xs = []" by simp
  then show ?thesis unfolding summarise_def Let_def by (simp del: length_sort)
qed

text \<open>
  When no two readings of the clock during the run are closer than five nanoseconds, no stamp of the
  benchmark is clamped: with a scratch file that opens and at least one batch it exits with 0, with and
  without the recorder compiled in, and summarises as many measurements per arm as batches were asked for.
  With no batch it reads from an empty vector.
\<close>

theorem bench_stage_valid:
  assumes "s = run_batches latrec C clk ns iters batches ((warm_up_slot latrec C clk ^^ 512) bench_init)"
    and "clock_steps (u_reads s) clk"
  shows "(\<forall>x. length (u_times s x) = unat batches)
    \<and> (if 0 < unat batches then \<exists>sums. run_instrumentation latrec C clk ns mid True iters batches = Some (0, sums)
       else run_instrumentation latrec C clk ns mid True iters batches = None)"
proof -
  have w: "u_times ((warm_up_slot latrec C clk ^^ n) bench_init) = (\<lambda>_. [])" for n
    by (induction n) (simp_all add: warm_up_slot_def next_facts_def record_arm_times, simp add: bench_init_def)
  have len: "length (u_times s x) = unat batches" for x unfolding assms(1) run_batches_lengths w by simp
  have zero: "clamped latrec (u_trace s) = 0"
    using bench_clean[OF assms(2), of C ns iters batches] by (simp add: clamped_def clean_def assms(1))
  have sum: "summarise mid (u_times s x) = None \<longleftrightarrow> unat batches = 0" for x
    unfolding summarise_some using len[of x] by (metis length_0_conv)
  note run = run_instrumentation_def[of latrec C clk ns mid True iters batches, unfolded Let_def, folded assms(1)]
  show ?thesis
  proof (cases "unat batches = 0")
    case True
    then show ?thesis using len sum[of NoneArm] by (simp add: run)
  next
    case False
    then obtain a b c where "summarise mid (u_times s NoneArm) = Some a" "summarise mid (u_times s LatrecArm) = Some b"
      "summarise mid (u_times s CsvArm) = Some c" using sum by (metis option.exhaust)
    then show ?thesis using False len zero by (simp add: run)
  qed
qed

text \<open>Such a clock exists for any number of readings that fits below \<open>2 ^ 64\<close> nanoseconds.\<close>

lemma clock_steps_example: "5 * N + 10 < 2 ^ 64 \<Longrightarrow> clock_steps N (\<lambda>k. of_nat (5 * k + 5))"
  unfolding clock_steps_def unat_of_nat_mod by auto

end
