(* ===== verification/Spec2Isabelle.thy ===== *)
theory Spec2Isabelle
  imports E3_Config Iq_Pipeline L1_Kpm Spectrum_Sm Slot_Codelet Ecpri_Codelet E3_Main Start_Report Ring_Memory Verifier_Cli Wire_Layout
    Xran_Format Ecpri_Handler Drop_Report Bench_Convert Bench_Stage
begin

text \<open>
  A verification development for E3Controller, the daemon that takes I/Q data from jbpf codelets in an ocudu
  gNB and publishes it to dApps as E3 service-model indications.  Paths below are relative to \<^verbatim>\<open>src/\<close>.

  \<^bold>\<open>The program.\<close>  Two codelets run inside the gNB.  The eCPRI codelet (\<^verbatim>\<open>codelets/ecpri_iq_samples\<close>) copies
  compressed samples of one fronthaul symbol into a jbpf output channel; the slot codelet
  (\<^verbatim>\<open>codelets/uplink_slot_samples\<close>) has a helper of the gNB write a whole uplink grid into a shared-memory
  region and outputs a descriptor of the row.  The controller (\<^verbatim>\<open>src/e3_controller.cpp\<close>) loads its
  configuration, initialises jbpf and libe3, and polls jbpf.  \<^verbatim>\<open>JbpfDispatcher\<close> routes each batch of buffers to
  one of two pipelines; each puts the buffer pointers into a single-producer single-consumer ring, and its
  worker thread hands them to the consumers and releases the buffers.  The consumers are the two service
  models: Spectrum (RF=1) decompresses, pads and encodes a section; L1-KPM (RF=2) announces a row of the region,
  which it owns and, in controller mode, also writes.

  \<^bold>\<open>Theories and code.\<close>
  \<^item> \<open>E3_Prelude\<close>: type names, word and list lemmas, the collection \<open>word_to_nat\<close>.
  \<^item> \<open>Float_Bits\<close>: binary32 multiplication and the F16C conversion on bit patterns.
  \<^item> \<open>E3_Config\<close>: \<^verbatim>\<open>include/e3_config.h\<close>, \<^verbatim>\<open>src/e3_config.cpp\<close>; geometry, derived sizes, \<^verbatim>\<open>validate\<close>, \<^verbatim>\<open>load_config\<close> over an
    abstract yaml-cpp.
  \<^item> \<open>Jbpf_Io\<close>: the structs that cross the channels (\<^verbatim>\<open>jbpf_e3_slot_api.h\<close>, \<^verbatim>\<open>ecpri_iq_data.h\<close>) and the effects the
    code has on jbpf as a list of calls.
  \<^item> \<open>Jbpf_Dispatcher\<close>: \<^verbatim>\<open>include/jbpf_dispatcher.h\<close>; the locale \<open>buffer_owner\<close> is the contract of a deferred stream.
  \<^item> \<open>Spsc_Queue\<close>: the ring both pipelines use, with the locale \<open>power_of_two_capacity\<close>, against a list specification.
  \<^item> \<open>Lifecycle\<close>, \<open>Pipeline_System\<close>: start and stop of a pipeline, and the locale of a pipeline under a dispatcher, shared
    by \<open>Slot_Iq_Pipeline\<close> (\<^verbatim>\<open>slot_iq_pipeline.{h,cpp}\<close>) and \<open>Iq_Pipeline\<close> (\<^verbatim>\<open>iq_pipeline.{h,cpp}\<close>), which interpret it.
  \<^item> \<open>Pipeline_Concurrency\<close>: the poll thread and the worker one memory access at a time; \<open>Ring_Memory\<close>: the same
    accesses under the C++ memory model, with the memory orders of the source.
  \<^item> \<open>Bfp_Decompress\<close>, \<open>Sample_Convert\<close>, \<open>Shm_Writer\<close>: \<^verbatim>\<open>src/e3sm/utils\<close> and \<^verbatim>\<open>codelets/include/e3_slot_convert.h\<close>.
  \<^item> \<open>Service_Model\<close>: the fan-out of an indication to the subscribers; \<open>L1_Encode\<close>, \<open>L1_Trace\<close>, \<open>L1_Kpm\<close>: \<^verbatim>\<open>src/e3sm/l1_kpm\<close>;
    \<open>Spectrum_Sm\<close>: \<^verbatim>\<open>src/e3sm/sm_spectrum\<close>.
  \<^item> \<open>Slot_Codelet\<close>, \<open>Ecpri_Codelet\<close>, \<open>Xran_Format\<close>: the codelets and the header layouts the second one parses;
    \<open>Verifier_Cli\<close>: the build-time verifier of \<^verbatim>\<open>codelets/verifier\<close>.
  \<^item> \<open>Controller_System\<close>: both pipelines and both service models under one dispatcher; \<open>E3_Main\<close>: \<^verbatim>\<open>main()\<close>.
  \<^item> \<open>Ecpri_Handler\<close>: the handler interface and the logging handler; \<open>Wire_Layout\<close>: the byte layout of the messages;
    \<open>Start_Report\<close>: what is printed at start-up; \<open>Drop_Report\<close>: the accounting printed at shutdown.
  \<^item> \<open>Bench_Stage\<close>: \<^verbatim>\<open>bench/bench_stage_recording.cpp\<close>; \<open>Bench_Convert\<close>: \<^verbatim>\<open>codelets/verifier/bench_slot_convert.cpp\<close>.

  \<^bold>\<open>Modelling.\<close>  Structs and classes are records, methods are functions from the old to the new record, and calls
  into jbpf, libe3, the clock and the kernel are recorded in logs or answered by function arguments, so a
  statement quantifies over all their answers.  Machine integers are words of their width and every wrap is
  kept.  Undefined behaviour (a negative shift, a read outside an array) and exceptions are values of option,
  sum or outcome types, and the theorems say when they occur.  Threads interleave: \<open>Pipeline_System\<close> and
  \<open>Controller_System\<close> have one step per worker iteration, life-cycle call and dispatched batch, in \<open>Controller_System\<close> with
  the dispatcher's lookup and its call of the handler as two steps between which others can come;
  \<open>Pipeline_Concurrency\<close> justifies this grain by refining the ring, access by access, to a bounded queue.
  It takes memory for sequentially consistent; \<open>Ring_Memory\<close> lets loads return outdated stores and shows that
  the acquire and release orders of the code, and no weaker ones, keep the slots free of data races.

  \<^bold>\<open>What is shown.\<close>  Every buffer delivered to a pipeline is released exactly once or still held by
  exactly one owner, over every interleaving of those steps and through restarts, and shutdown leaves nothing behind
  unless a pipeline was stopped between the lookup and the call of its handler, a race the code has and
  \<open>Pipeline_Concurrency\<close> exhibits.  Batches are split, ordered and numbered as the
  ring's room demands, and the workers drain their queues, the eCPRI worker exactly as long as no exponent byte
  makes the decoder's shift undefined.  A fronthaul packet, and a slot grid, reach the
  dApp with exactly the values that were sent (the theorems of this file compose codelet, pipeline,
  decompression and service model), and one loaded configuration reaches writer, helper and service model
  alike.  Decompression and the packet parser invert reference encoders; the sample conversions equal the
  correctly rounded ones within stated ranges; the region's rows are exact, disjoint and survive long enough.
  Configuration loading accepts only what the rest relies on.  Every slot is counted once and the drop log is
  throttled.  Both benchmarks report when they should, and the agreement check of the second is exhaustive.
  \<^verbatim>\<open>main()\<close> polls until the signal and cleans up in order.  Where the code does less than its comments say, a theorem
  states what it does.

  \<^bold>\<open>Bounds and fuel.\<close>  Loops are structural recursion or have a termination proof; the two that can run forever, the
  poll loop of \<^verbatim>\<open>main()\<close> and the doubling loop of the FFT size, are partial functions to option, with theorems
  that say exactly when they return.  No fuel is used.

  \<^bold>\<open>Not modelled.\<close>  libe3, jbpf, yaml-cpp, nlohmann/json, the asn1c runtime and the gNB-side helper are not in the
  repository; they are parameters, with hypotheses that state documented behaviour only.  The NEON build of the
  converters is left out because its NaN results follow another architecture manual.  Usage texts and
  the messages on \<^verbatim>\<open>stderr\<close> that only repeat a returned error have no counterpart, and destructors only call the
  modelled \<^verbatim>\<open>stop()\<close> and \<^verbatim>\<open>close()\<close>.  Of the ASN.1 grammars only the
  constraints of the Spectrum indication are modelled.  Build files, scripts and documents are not code of the program.
\<close>

section \<open>From the fronthaul packet to the dApp\<close>

text \<open>The sample values of compressed blocks: every mantissa times two to its block's exponent, in 16 bits.\<close>

definition block_values :: "(u8 \<times> int list) list \<Rightarrow> i16 list" where
  "block_values blocks = concat (map (\<lambda>(e, ms). map (\<lambda>m. word_of_int (m * 2 ^ unat e)) ms) blocks)"

lemma block_values_length: "\<forall>b \<in> set blocks. bfp_block_ok b \<Longrightarrow> length (block_values blocks) = 24 * length blocks"
  by (induction blocks) (auto simp: block_values_def bfp_block_ok_def)

lemma packet_num_prbu_bounds: "ofh_ok p \<Longrightarrow> 0 < unat (packet_num_prbu p) \<and> unat (packet_num_prbu p) \<le> 273"
  by (auto simp: packet_num_prbu_def ofh_ok_def unat_of_nat_mod)

lemma packet_sample_decodes:
  assumes "ofh_ok p" "pk_payload p = bfp_compress blocks" "\<forall>b \<in> set blocks. bfp_block_ok b"
    and "length blocks = unat (packet_num_prbu p)" "d = sample_of_packet t1 t2 t3 dir p"
  shows "decompress_bfp_9bit (iq_payload d) (ucast (iq_payload_size d)) (iq_num_prbu d) = BfpTrue (block_values blocks)"
    and "iq_array_ok d \<and> iq_exponents_ok d" and "iq_num_prbu d = packet_num_prbu p"
proof -
  let ?rest = "replicate (8192 - 28 * length blocks) (0 :: u8)"
  have n: "length blocks \<le> 273" using packet_num_prbu_bounds[OF assms(1)] assms(4) by simp
  then have len: "length (pk_payload p) = 28 * length blocks" "28 * length blocks \<le> 7644"
    by (simp_all add: assms(2) bfp_compress_length)
  then have take: "take 8192 (pk_payload p) = bfp_compress blocks" using assms(2) by simp
  have d: "iq_payload d = bfp_compress blocks @ ?rest" "iq_payload_size d = of_nat (28 * length blocks)"
    "iq_num_prbu d = packet_num_prbu p"
    using take len by (simp_all add: assms(5) sample_of_packet_def packet_num_prbu_def Let_def bfp_compress_length)
  have size: "unat (iq_payload_size d) = 28 * length blocks" unfolding d(2) unat_of_nat_mod using len(2) by simp
  have ne: "?rest \<noteq> []" using len(2) by simp
  show "iq_num_prbu d = packet_num_prbu p" by (rule d(3))
  show "decompress_bfp_9bit (iq_payload d) (ucast (iq_payload_size d)) (iq_num_prbu d) = BfpTrue (block_values blocks)"
    unfolding d(1,3) block_values_def
    by (rule decompress_packed[OF assms(3,4) ne]) (simp add: size assms(4)[symmetric])
  have "iq_payload d ! (k * 28) = fst (blocks ! k)" if k: "k < length blocks" for k
  proof -
    obtain rest' where "drop (k * BFP_PRB_SIZE) (iq_payload d) = fst (blocks ! k) # rest'"
      unfolding d(1) using drop_compress[OF k, of ?rest] by blast
    then have "drop (k * BFP_PRB_SIZE) (iq_payload d) ! 0 = fst (blocks ! k)" by simp
    moreover have "k * BFP_PRB_SIZE \<le> length (iq_payload d)" using k len(2) by (simp add: d(1) bfp_compress_length BFP_PRB_SIZE_def)
    ultimately show ?thesis by (simp add: BFP_PRB_SIZE_def)
  qed
  moreover have "unat (fst (blocks ! k)) < 32" if "k < length blocks" for k
    using assms(3) nth_mem[OF that] by (simp add: bfp_block_ok_def)
  ultimately show "iq_array_ok d \<and> iq_exponents_ok d"
    using len(2) assms(4) size by (simp add: iq_array_ok_def iq_exponents_ok_def d(3)) (simp add: d(1) bfp_compress_length)
qed

text \<open>One section that passes the filters of an idle pipeline is queued and the worker hands it over.\<close>

lemma iq_one_section:
  assumes "iq_queue_ok q" "iq_queued q = []" "ip_running q" "\<not> iq_filtered (ip_config q) (heap b)"
    and "iq_array_ok (heap b) \<and> iq_exponents_ok (heap b)"
  obtains q1 env1 q2 ent where "iq_process_buffers heap rc sec nsec [b] (q, env) = (q1, env1)" "q_buf ent = b"
    "iq_worker_step (heap, ns) (q1, env1, w) = Some (q2, env1 @ [Release b], iq_deliver heap ns (ip_consumers q) ent w)"
    "iq_queued q2 = []"
proof -
  obtain q1 env1 where r: "iq_process_buffers heap rc sec nsec [b] (q, env) = (q1, env1)" by fastforce
  obtain qa enva where a: "iq_send_prb_config rc (q, env) = (qa, enva)" by fastforce
  then have f: "fold (iq_enqueue heap (timespec_ns sec nsec)) [b] (qa, enva) = (q1, env1)"
    using r by (simp add: iq_process_buffers_def)
  have c: "ip_consumers q1 = ip_consumers q"
  proof -
    have "ip_consumers qa = ip_consumers q" by (subst iq_send_frame(1)[OF a]) simp
    then show ?thesis using iq_enqueue_frame[OF f] by simp
  qed
  let ?e = "iq_entry heap (timespec_ns sec nsec) (ip_total_samples_received q + 1) b"
  have eff: "iq_queue_ok q1" "iq_queued q1 = [?e]"
    using iq_process_batch(1)[OF assms(1) r] assms(2,4) by (simp_all add: iq_batch_effect_def Let_def)
  have "ip_running q1" using iq_process_batch(2)[OF assms(1) r] assms(3) by simp
  moreover have buf: "q_buf ?e = b" by (simp add: iq_entry_def)
  ultimately obtain q2 where "iq_worker_step (heap, ns) (q1, env1, w)
      = Some (q2, env1 @ [Release b], iq_deliver heap ns (ip_consumers q) ?e w)" "iq_queued q2 = []"
    using iq_worker_nonempty[OF eff(1) _ eff(2), of "(heap, ns)" env1 w] assms(5) c by auto
  then show thesis using that[OF r buf] by blast
qed

text \<open>C1.
  The whole eCPRI path: a well-formed uplink packet of the sampled symbol, whose payload is the
  block-floating-point compression of its PRBs, is output by the codelet; the pipeline that receives it
  queues it, its worker decompresses it without undefined behaviour and releases the jbpf buffer; and the
  Spectrum service model then holds, and sends to every subscriber when the encoder accepts it, an FFT
  input from which exactly the transmitted values, mantissa times two to the exponent, can be read back.\<close>

theorem ecpri_packet_to_dapp:
  assumes "ofh_ok p" "pk_subframe p * 2 + pk_slot p = 19" "pk_symbol p = 13"
    and "pk_payload p = bfp_compress blocks" "\<forall>b \<in> set blocks. bfp_block_ok b" "n = length blocks"
      "n = unat (packet_num_prbu p)"
    and "o_packet ctx = ofh_bytes p" "o_direction ctx = 1" "m_output_tmp s = zero_sample" "m_sampling_period s = 0"
      "calls_succeed io" "v_prb_msg io = None" "expected_num_prbu (m_prb_filter s) \<in> {0, packet_num_prbu p}"
    and "iq_queue_ok q" "iq_queued q = []" "ip_running q" "ip_consumers q = [spectrum_consumer Z]"
      "ic_expected_num_prbu (ip_config q) \<in> {0, packet_num_prbu p}"
    and "e_running e" "z_subscribers Z (e_sub_calls e) \<noteq> []" "z_encoding Z = ASN1"
  shows "\<exists>d. ecpri_main io ctx s = Some (CODELET_SUCCESS, Some d, s) \<and> (\<forall>heap b. heap b = d \<longrightarrow>
    (\<exists>q1 env1 q2 e' k. iq_process_buffers heap rc sec nsec [b] (q, env) = (q1, env1)
      \<and> iq_worker_step (heap, ns) (q1, env1, Some e) = Some (q2, env1 @ [Release b], Some e') \<and> iq_queued q2 = []
      \<and> length (e_padded_buf e') = 2 * 2 ^ k \<and> 12 * n \<le> 2 ^ k
      \<and> drop (2 * 2 ^ k - 12 * n) (e_padded_buf e') @ take (12 * n) (e_padded_buf e') = block_values blocks
      \<and> si_iq_data (e_indication e') = i16_bytes (e_padded_buf e') \<and> si_sample_count (e_indication e') = 2 ^ k
      \<and> e_sent e' = e_sent e @ section_pdus Z (z_subscribers Z (e_sub_calls e)) e' (length (e_sent e))))"
proof -
  let ?d = "sample_of_packet (v_entry_ns io) (v_codelet_ns io) (o_meta_data ctx) (o_direction ctx) p"
  have nb: "0 < n" "n \<le> 273" using packet_num_prbu_bounds[OF assms(1)] assms(7) by simp_all
  have small: "length (pk_payload p) < 65536" using nb assms(6) by (simp add: assms(4) bfp_compress_length)
  have main: "ecpri_main io ctx s = Some (CODELET_SUCCESS, Some ?d, s)"
    using ecpri_main_built[OF assms(1) small assms(8,10-13)] assms(2,3,14) by auto
  note dec = packet_sample_decodes[OF assms(1,4,5) assms(7)[unfolded assms(6)] refl,
      of "v_entry_ns io" "v_codelet_ns io" "o_meta_data ctx" "o_direction ctx"]
  have dir: "iq_direction ?d = 1" by (simp add: sample_of_packet_def Let_def assms(9))
  show ?thesis
  proof (intro exI[of _ ?d] conjI main allI impI)
    fix heap :: "buf \<Rightarrow> iq_sample_data" and b
    assume h: "heap b = ?d"
    have nf: "\<not> iq_filtered (ip_config q) (heap b)" using dir dec(3) assms(19) by (auto simp: iq_filtered_def h)
    have pok: "iq_array_ok (heap b) \<and> iq_exponents_ok (heap b)" using dec(2) by (simp add: h)
    obtain q1 env1 q2 ent where
      pipe1: "iq_process_buffers heap rc sec nsec [b] (q, env) = (q1, env1)" and ent: "q_buf ent = b"
      and pipe2: "iq_worker_step (heap, ns) (q1, env1, Some e)
          = Some (q2, env1 @ [Release b], iq_deliver heap ns (ip_consumers q) ent (Some e))" "iq_queued q2 = []"
      by (rule iq_one_section[where heap = heap and b = b, OF assms(15-17) nf pok])
    let ?s = "\<lparr>ds_raw = ?d, ds_decompressed_iq = block_values blocks, ds_recv_us = q_recv_us ent,
      ds_sample_id = q_sample_id ent, ds_gnb_ts_ns = iq_gnb_ts_ns ?d, ds_codelet_ts_ns = iq_codelet_ts_ns ?d,
      ds_dispatch_ts_ns = q_dispatch_ts_ns ent, ds_decompress_ns = ns\<rparr>"
    have del: "iq_deliver heap ns (ip_consumers q) ent (Some e) = spectrum_on_sample Z ?s e"
      by (simp add: iq_deliver_def Let_def ent h dec(1) assms(18) spectrum_consumer_def)
    have len: "length (block_values blocks) = 24 * n" using block_values_length[OF assms(5)] assms(6) by simp
    obtain e' k where e': "spectrum_on_sample Z ?s e = Some e'" "12 * n \<le> 2 ^ k" "length (e_padded_buf e') = 2 * 2 ^ k"
      "drop (2 * 2 ^ k - 12 * n) (e_padded_buf e') @ take (12 * n) (e_padded_buf e') = take (24 * n) (block_values blocks)"
      "e_indication e' = \<lparr>si_iq_data = i16_bytes (e_padded_buf e'), si_sample_count = 2 ^ k,
        si_timestamp = ucast (iq_timestamp ?d)\<rparr>"
      "e_sent e' = e_sent e @ section_pdus Z (z_subscribers Z (e_sub_calls e)) e' (length (e_sent e))"
      using section_published[OF assms(20-22), of n ?s] dec(3) nb(1) assms(7) len by auto
    show "\<exists>q1 env1 q2 e' k. iq_process_buffers heap rc sec nsec [b] (q, env) = (q1, env1)
      \<and> iq_worker_step (heap, ns) (q1, env1, Some e) = Some (q2, env1 @ [Release b], Some e') \<and> iq_queued q2 = []
      \<and> length (e_padded_buf e') = 2 * 2 ^ k \<and> 12 * n \<le> 2 ^ k
      \<and> drop (2 * 2 ^ k - 12 * n) (e_padded_buf e') @ take (12 * n) (e_padded_buf e') = block_values blocks
      \<and> si_iq_data (e_indication e') = i16_bytes (e_padded_buf e') \<and> si_sample_count (e_indication e') = 2 ^ k
      \<and> e_sent e' = e_sent e @ section_pdus Z (z_subscribers Z (e_sub_calls e)) e' (length (e_sent e))"
      using pipe1 pipe2 e' len unfolding del
      by (intro exI[of _ q1] exI[of _ env1] exI[of _ q2] exI[of _ e'] exI[of _ k]) simp
  qed
qed

section \<open>From the uplink slot to the dApp\<close>

text \<open>One descriptor delivered to an idle slot pipeline is queued and the worker hands it over.\<close>

lemma slot_one_descriptor:
  assumes "slot_queue_ok q" "slot_queued q = []" "sp_running q"
  obtains q1 env1 q2 where "slot_process_buffers heap rc src sec nsec [b] (q, env) = (q1, env1)"
    "slot_worker_step heap (q1, env1, w) = Some (q2, env1 @ [Release b], slot_dispatch_sample heap (sp_consumers q)
      (slot_entry heap (timespec_ns sec nsec) (sp_total_samples_received q + 1) b) w)" "slot_queued q2 = []"
proof -
  obtain q1 env1 where r: "slot_process_buffers heap rc src sec nsec [b] (q, env) = (q1, env1)" by fastforce
  let ?e = "slot_entry heap (timespec_ns sec nsec) (sp_total_samples_received q + 1) b"
  have q1: "slot_queue_ok q1" "slot_queued q1 = [?e]"
    using process_batch[OF assms(1) r] assms(2) by (simp_all add: Let_def)
  have "sp_running q1" "sp_consumers q1 = sp_consumers q" using process_frame[OF r] assms(3) by simp_all
  moreover have "q_buf ?e = b" by (simp add: slot_entry_def)
  ultimately obtain q2 where "slot_worker_step heap (q1, env1, w) = Some (q2, env1 @ [Release b],
      slot_dispatch_sample heap (sp_consumers q) ?e w)" "slot_queued q2 = []"
    using worker_step_nonempty[OF q1(1) _ q1(2), of heap env1 w] by auto
  then show thesis using that[OF r] by blast
qed

text \<open>C2.
  The whole slot path with the gNB-side helper as the writer: a descriptor is sent only for a slot the
  selector admits; the pipeline queues it, the worker hands it to the L1-KPM service model and releases
  the jbpf buffer; and every subscriber is then told, once, exactly the buffer and row that the helper
  returned for a part of this grid, with the slot's own time and numbers.  When the helper wrote
  nothing, no dApp is told of any row.\<close>

theorem slot_grid_to_dapp:
  assumes "slot_main io ctx cache = (ret, calls, Some d, sel)"
    and "\<And>n. 0 \<le> sint (f_publish_rc io n sel) \<Longrightarrow>
      f_publish_rc io n sel = push_bit 32 (ucast (row_buf n :: u8)) OR ucast (row n :: u32)"
    and "heap b = d" "slot_queue_ok q" "slot_queued q = []" "sp_running q" "sp_consumers q = [l1_consumer X]"
    and "smp = slot_sample_of heap (slot_entry heap (timespec_ns sec nsec) (sp_total_samples_received q + 1) b)"
    and "slot_admitted smp l" "\<not> writes_rows (l_shm_writer l)"
    and "\<And>i j. encode_indication X (c_gnb_ts_ns ctx) (c_sfn ctx) (c_slot_id ctx) (l_shm_name l) i j
      (l1_ports_clamped smp l) = Some (Some (payload i j))"
  shows "\<exists>q1 env1 q2 l'. slot_process_buffers heap rc src sec nsec [b] (q, env) = (q1, env1)
    \<and> slot_worker_step heap (q1, env1, Some l) = Some (q2, env1 @ [Release b], Some l') \<and> slot_queued q2 = []
    \<and> slot_selected sel (unat (c_sfn ctx)) (unat (c_slot_id ctx))
    \<and> (if d_bytes_written d = 0 then l_sent l' = l_sent l
       else \<exists>n. PublishSlot n sel \<in> set calls \<and> n \<le> c_data_len ctx
         \<and> l_sent l' = l_sent l @ fan_out (x_emit X) L1_RAN_FUNCTION_ID (payload (row_buf n) (row n))
             (length (l_sent l)) (x_subscribers X (l_sub_calls l)))"
proof -
  note ctx = descriptor_context[OF assms(1)]
  note d = descriptor_faithful[OF assms(1,2)]
  have smp: "s_gnb_ts_ns smp = c_gnb_ts_ns ctx" "s_sfn smp = c_sfn ctx" "s_slot_id smp = c_slot_id ctx"
    "s_flags smp = d_flags d" "s_bytes_written smp = d_bytes_written d" "s_fh_buffer_index smp = d_fh_buffer_index d"
    "s_fh_write_index smp = d_fh_write_index d"
    by (simp_all add: assms(3,8) slot_sample_of_def slot_entry_def Let_def ctx)
  obtain l' where l': "on_sample X smp l = Some l'"
    "l_sent l' = l_sent l @ (if d_flags d AND E3_SLOT_FLAG_TRUNCATED \<noteq> 0 \<or> d_bytes_written d = 0 then []
        else fan_out (x_emit X) L1_RAN_FUNCTION_ID (payload (d_fh_buffer_index d) (d_fh_write_index d))
          (length (l_sent l)) (x_subscribers X (l_sub_calls l)))"
    using gnb_row[OF assms(9,10), of X "payload (d_fh_buffer_index d) (d_fh_write_index d)"] assms(11)
    unfolding smp by blast
  obtain q1 env1 q2 where pipe: "slot_process_buffers heap rc src sec nsec [b] (q, env) = (q1, env1)"
    "slot_worker_step heap (q1, env1, Some l) = Some (q2, env1 @ [Release b], slot_dispatch_sample heap (sp_consumers q)
      (slot_entry heap (timespec_ns sec nsec) (sp_total_samples_received q + 1) b) (Some l))" "slot_queued q2 = []"
    by (rule slot_one_descriptor[OF assms(4-6)])
  have del: "slot_dispatch_sample heap (sp_consumers q)
      (slot_entry heap (timespec_ns sec nsec) (sp_total_samples_received q + 1) b) (Some l) = Some l'"
    using l'(1) by (simp add: slot_dispatch_sample_def assms(7,8) l1_consumer_def)
  have out: "if d_bytes_written d = 0 then l_sent l' = l_sent l
      else \<exists>n. PublishSlot n sel \<in> set calls \<and> n \<le> c_data_len ctx
        \<and> l_sent l' = l_sent l @ fan_out (x_emit X) L1_RAN_FUNCTION_ID (payload (row_buf n) (row n))
            (length (l_sent l)) (x_subscribers X (l_sub_calls l))"
    using d l'(2) by (cases "d_bytes_written d = 0") auto
  show ?thesis
    using pipe[unfolded del] d out unfolding ctx
    by (intro exI[of _ q1] exI[of _ env1] exI[of _ q2] exI[of _ l'] conjI) simp_all
qed

text \<open>As shipped, the slot pipeline carries descriptors only, so a service model configured to write the rows
  itself never tells a dApp of a row: whatever descriptors arrive, nothing is sent and its writer is left
  alone.\<close>

theorem controller_mode_silent:
  assumes "writes_rows (l_shm_writer l)"
  shows "\<exists>l'. on_sample X (slot_sample_of heap e) l = Some l' \<and> l_sent l' = l_sent l \<and> l_shm_writer l' = l_shm_writer l"
  using assms by (intro on_sample_refused) (simp add: source_ok_def slot_sample_of_def Let_def)

section \<open>Concrete runs of both paths\<close>

definition demo_block :: "u8 \<times> int list" where
  "demo_block = (3, replicate 24 (-5))"

definition one_prb_packet :: ofh_packet where
  "one_prb_packet = demo_packet\<lparr>pk_num_prbu := 1, pk_payload := bfp_compress [demo_block]\<rparr>"

definition one_prb_maps :: ecpri_maps where
  "one_prb_maps = (demo_maps 0)\<lparr>m_prb_filter := \<lparr>expected_num_prbu = 0\<rparr>\<rparr>"

definition spectrum_pipeline :: "spectrum_sm option iq_pipeline" where
  "spectrum_pipeline = (IqPipeline (default_IqConfig\<lparr>ic_expected_num_prbu := 0\<rparr>))
     \<lparr>ip_running := True, ip_consumers := [spectrum_consumer demo_spectrum_ext]\<rparr>"

lemma one_prb_packet_ok:
  "ofh_ok one_prb_packet" "pk_subframe one_prb_packet * 2 + pk_slot one_prb_packet = 19" "pk_symbol one_prb_packet = 13"
  "pk_payload one_prb_packet = bfp_compress [demo_block]" "\<forall>b \<in> set [demo_block]. bfp_block_ok b"
  "packet_num_prbu one_prb_packet = 1"
  by (simp_all add: one_prb_packet_def demo_packet_def ofh_ok_def packet_num_prbu_def demo_block_def bfp_block_ok_def
      bfp_compress_def)

lemma spectrum_pipeline_ok:
  "iq_queue_ok spectrum_pipeline" "iq_queued spectrum_pipeline = []" "ip_running spectrum_pipeline"
  "ip_consumers spectrum_pipeline = [spectrum_consumer demo_spectrum_ext]"
  "ic_expected_num_prbu (ip_config spectrum_pipeline) = 0"
  by (simp_all add: spectrum_pipeline_def IqPipeline_def)

theorem ecpri_packet_to_dapp_witness:
  "\<exists>d. ecpri_main demo_ecpri_io (demo_ofh_ctx\<lparr>o_packet := ofh_bytes one_prb_packet\<rparr>) one_prb_maps
       = Some (CODELET_SUCCESS, Some d, one_prb_maps)
     \<and> (\<exists>q1 env1 q2 e' k. iq_process_buffers (\<lambda>_. d) 0 0 0 [6] (spectrum_pipeline, []) = (q1, env1)
         \<and> iq_worker_step (\<lambda>_. d, 0) (q1, env1, Some ((E3SMSpectrum [])\<lparr>e_running := True\<rparr>))
           = Some (q2, env1 @ [Release 6], Some e')
         \<and> drop (2 * 2 ^ k - 12) (e_padded_buf e') @ take 12 (e_padded_buf e') = block_values [demo_block])"
proof -
  let ?ctx = "demo_ofh_ctx\<lparr>o_packet := ofh_bytes one_prb_packet\<rparr>" and ?e = "(E3SMSpectrum [])\<lparr>e_running := True\<rparr>"
  have n: "1 = length [demo_block]" "1 = unat (packet_num_prbu one_prb_packet)" by (simp_all add: one_prb_packet_ok)
  have c: "o_packet ?ctx = ofh_bytes one_prb_packet" "o_direction ?ctx = 1" by (simp_all add: demo_ofh_ctx_def)
  have m: "m_output_tmp one_prb_maps = zero_sample" "m_sampling_period one_prb_maps = 0"
    and f: "expected_num_prbu (m_prb_filter one_prb_maps) \<in> {0, packet_num_prbu one_prb_packet}"
    by (simp_all add: one_prb_maps_def demo_maps_def)
  have q: "ic_expected_num_prbu (ip_config spectrum_pipeline) \<in> {0, packet_num_prbu one_prb_packet}"
    by (simp add: spectrum_pipeline_ok)
  have e: "e_running ?e" "z_subscribers demo_spectrum_ext k \<noteq> []" "z_encoding demo_spectrum_ext = ASN1" for k
    by (simp_all add: demo_spectrum_ext_def)
  from ecpri_packet_to_dapp[OF one_prb_packet_ok(1-5) n c m demo_calls f spectrum_pipeline_ok(1-4) q e(1) e(2) e(3),
      of 0 0 0 "[]" 0]
  show ?thesis
  proof (elim exE conjE, goal_cases)
    case (1 d)
    from 1(2)[rule_format, of "\<lambda>_. d" 6, OF refl] 1(1) show ?case
      unfolding mult_1_right by (elim exE conjE) (intro exI conjI; assumption)
  qed
qed

definition slot_pipeline_l1 :: "l1_sm option slot_pipeline" where
  "slot_pipeline_l1 = (SlotIqPipeline default_SlotConfig)\<lparr>sp_running := True, sp_consumers := [l1_consumer demo_ext]\<rparr>"

lemma slot_pipeline_l1_ok:
  "slot_queue_ok slot_pipeline_l1" "slot_queued slot_pipeline_l1 = []" "sp_running slot_pipeline_l1"
  "sp_consumers slot_pipeline_l1 = [l1_consumer demo_ext]"
  by (simp_all add: slot_pipeline_l1_def SlotIqPipeline_def)

definition small_ctx :: jbpf_ran_slot_ctx where
  "small_ctx = demo_ctx\<lparr>c_nof_ports := 2, c_nof_symbols := 12, c_nof_subcarriers := 12\<rparr>"

lemma small_fire:
  obtains calls d sel where "slot_main demo_fire small_ctx demo_sel = (CODELET_SUCCESS, calls, Some d, sel)"
    "d_bytes_written d = 733824"
  by (simp add: slot_main_def demo_fire_def small_ctx_def demo_ctx_def temporal_filter_def publish_grid_def ladder_def Let_def
      E3_SLOT_BYTES_8P_def E3_SLOT_BYTES_4P_def slot_desc_of_def flag_defs)

theorem slot_grid_to_dapp_witness:
  "\<exists>ret calls d sel q1 env1 q2 l'. slot_main demo_fire small_ctx demo_sel = (ret, calls, Some d, sel)
     \<and> slot_process_buffers (\<lambda>_. d) 0 0 0 0 [6] (slot_pipeline_l1, []) = (q1, env1)
     \<and> slot_worker_step (\<lambda>_. d) (q1, env1, Some (demo_l1 Gnb)) = Some (q2, env1 @ [Release 6], Some l')
     \<and> l_sent l' = [(IndicationPdu 7 2 [1, 2], SUCCESS), (IndicationPdu 9 2 [1, 2], SUCCESS)]"
proof -
  obtain calls d sel where m: "slot_main demo_fire small_ctx demo_sel = (CODELET_SUCCESS, calls, Some d, sel)"
    and w: "d_bytes_written d = 733824" by (rule small_fire)
  have rc: "f_publish_rc demo_fire n sel = push_bit 32 (ucast (1 :: u8)) OR ucast (42 :: u32)" for n
    by (simp only: demo_fire_def fire_io.simps)
  let ?smp = "slot_sample_of (\<lambda>_. d) (slot_entry (\<lambda>_. d) (timespec_ns 0 0) (sp_total_samples_received slot_pipeline_l1 + 1) 6)"
  have adm: "slot_admitted ?smp (demo_l1 Gnb)"
    by (rule demo_admitted) (simp_all add: slot_sample_of_def slot_entry_def Let_def descriptor_context[OF m] small_ctx_def)
  have wr: "\<not> writes_rows (l_shm_writer (demo_l1 Gnb))" by (simp add: demo_facts writes_rows_def)
  from slot_grid_to_dapp[OF m rc refl slot_pipeline_l1_ok refl adm wr demo_encodes, of 0 0 "[]"] w m
  show ?thesis by (auto simp: demo_facts demo_ext_sel L1_RAN_FUNCTION_ID_def)
qed

theorem controller_mode_silent_witness:
  "\<exists>l'. on_sample demo_ext (slot_sample_of (\<lambda>_. sample_desc) zero_entry) (demo_l1 Controller) = Some l' \<and> l_sent l' = []"
proof -
  have "writes_rows (l_shm_writer (demo_l1 Controller))" by (simp add: demo_facts writes_rows_def small_writer_def)
  from controller_mode_silent[OF this, of demo_ext "\<lambda>_. sample_desc" zero_entry] show ?thesis
    by (auto simp: demo_facts)
qed

section \<open>One configuration for three parties\<close>

text \<open>The row layout that follows from an attach configuration, for a row of \<open>ants\<close> antennas.\<close>

definition helper_geometry :: "e3_shm_cfg \<Rightarrow> u32 \<Rightarrow> RowGeometry" where
  "helper_geometry m ants =
     \<lparr>rg_nof_symbols = ucast (cfg_nof_symbols m), rg_nof_subcarriers = ucast (cfg_nof_subcarriers m), rg_nof_ants = ants\<rparr>"

lemma unat_cfg_subcarriers:
  assumes "validate g = None"
  shows "unat (ucast (nof_subcarriers g) :: u16) = unat (nof_prbs g) * 12"
  using validate_sizes(1)[OF assms] validate_geometry(4)[OF assms]
  by (simp add: unsigned_ucast_eq take_bit_nat_eq_self)

lemma helper_row:
  assumes "validate (sc_radio k) = None" and "hg = helper_geometry (shm_cfg_of k) (ucast (nof_ports (sc_radio k)))"
  shows "unat (rg_row_u16 hg) = unat (num_fh_samples (sc_radio k))" and "unat (rg_row_bytes hg) = unat (row_bytes (sc_radio k))"
proof -
  let ?g = "sc_radio k"
  note v = validate_sizes[OF assms(1)] and b = validate_geometry[OF assms(1)]
  let ?s = "unat (nof_symbols ?g)" and ?c = "unat (nof_prbs ?g) * 12" and ?p = "unat (nof_ports ?g)"
  have sc: "?s * ?c \<le> 14 * 3300" using b by (intro mult_le_mono) auto
  have psc: "?s * ?c * 2 * ?p \<le> 92400 * 8" using b sc by (intro mult_le_mono) auto
  have "unat (rg_u16_per_ant hg) = ?s * ?c * 2"
    unfolding rg_u16_per_ant_def using sc
    by (simp add: assms(2) helper_geometry_def shm_cfg_of_def unat_mult_no_wrap unat_cfg_subcarriers[OF assms(1)])
  moreover from this have "unat (rg_row_u16 hg) = ?s * ?c * 2 * ?p"
    unfolding rg_row_u16_def using psc by (simp add: assms(2) helper_geometry_def unat_mult_no_wrap)
  ultimately show "unat (rg_row_u16 hg) = unat (num_fh_samples ?g)" "unat (rg_row_bytes hg) = unat (row_bytes ?g)"
    unfolding rg_row_bytes_def using psc v(2,3,4) by (simp_all add: unat_mult_no_wrap mult.commute)
qed

lemma open_keeps:
  assumes "shm_open a b c name total_size geom scale wr w = Some (True, w')"
  shows "w_shm_name w' = name" "w_geom w' = geom" "w_cbf16_scale w' = scale" "w_writer w' = wr" "w_mapped_size w' = total_size"
  using assms by (auto simp: shm_open_def Let_def split: if_splits)

text \<open>C3.
  One loaded configuration reaches the three parties that must agree on the shared region.  With the gNB as
  writer and a region below 8 GiB, the start-up of the L1-KPM service model succeeds whenever the system
  calls do.  The attach configuration its pipeline will send then names exactly the row the header of the
  open region advertises (the row computed from it has the advertised number of samples and the bytes the
  writer laid out), carries the controller's conversion scale, and names the region whenever the name has
  fewer than 64 characters; every row the helper can pick lies inside the mapping; the controller itself
  writes none; and a gNB that delivers this grid passes the geometry check.\<close>

theorem loaded_config_coherent:
  assumes "load_config y path = Loaded c" and "writer (shm c) = Gnb" and "unat (size_bytes (shm c)) < 2 ^ 33"
    and "p0 = SlotIqPipeline (slot_pipeline_cfg c)"
  shows "\<exists>l p. l1_init X True True True (E3SMLayer1 c) p0 = Some (SUCCESS, l, p) \<and> sp_consumers p = [l1_consumer X]
    \<and> (let w = l_shm_writer l; m = shm_cfg_of (sp_config p); hg = helper_geometry m (ucast (nof_ports (radio c)))
       in shm_ok w \<and> \<not> writes_rows w \<and> w_shm_name w = shm_name (shm c)
         \<and> unat (rg_row_u16 hg) = unat (h_num_fh_samples (w_header w)) \<and> unat (rg_row_bytes hg) = unat (w_row_bytes w)
         \<and> cfg_scale m = w_cbf16_scale w \<and> (cfg_name m = w_shm_name w \<longleftrightarrow> length (w_shm_name w) < 64)
         \<and> (\<forall>b < 2. \<forall>r < unat (h_num_fh_rows (w_header w)).
              dapp_offset (w_header w) b r + unat (rg_row_bytes hg) \<le> unat (size_bytes (shm c)))
         \<and> validate_against_ran (l_geom l) (nof_ports (radio c)) (cfg_nof_symbols m) (ucast (cfg_nof_subcarriers m)) = None)"
proof -
  have ok: "validate (radio c) = None" "64 + 2 * unat (row_bytes (radio c)) \<le> unat (size_bytes (shm c))"
    using load_config_ok[OF assms(1)] by (simp_all add: config_ok_def)
  have fresh: "\<not> w_mapped ShmIqWriter" by (simp add: ShmIqWriter_def)
  from open_layout[OF fresh ok(1) assms(3) ok(2), of "shm_name (shm c)" "cbf16_scale (shm c)" "writer (shm c)"]
  obtain w where w: "shm_open True True True (shm_name (shm c)) (size_bytes (shm c)) (radio c) (cbf16_scale (shm c))
      (writer (shm c)) ShmIqWriter = Some (True, w)" and wok: "shm_ok w" by blast
  note k = open_keeps[OF w]
  let ?l = "(E3SMLayer1 c)\<lparr>l_shm_writer := w\<rparr>" and ?p = "slot_register_consumer (l1_consumer X) p0"
  let ?m = "shm_cfg_of (sp_config ?p)"
  have init: "l1_init X True True True (E3SMLayer1 c) p0 = Some (SUCCESS, ?l, ?p)"
    using w by (simp add: l1_init_def E3SMLayer1_def)
  have cfg: "sp_config ?p = slot_pipeline_cfg c" "sp_consumers ?p = [l1_consumer X]"
    by (simp_all add: assms(4) SlotIqPipeline_def slot_register_consumer_def)
  have rad: "sc_radio (slot_pipeline_cfg c) = radio c" by (simp add: slot_pipeline_cfg_def)
  define hg where "hg = helper_geometry ?m (ucast (nof_ports (radio c)))"
  have row: "unat (rg_row_u16 hg) = unat (num_fh_samples (radio c))" "unat (rg_row_bytes hg) = unat (row_bytes (radio c))"
    using helper_row[of "slot_pipeline_cfg c" hg] ok(1) by (simp_all add: rad hg_def cfg)
  have hdr: "h_num_fh_samples (w_header w) = num_fh_samples (radio c)" "w_row_bytes w = row_bytes (radio c)"
    "h_num_fh_rows (w_header w) = w_num_fh_rows w" using wok k(2) by (auto simp: shm_ok_def)
  have name: "cfg_name ?m = w_shm_name w \<longleftrightarrow> length (w_shm_name w) < 64"
    by (auto simp: cfg shm_cfg_of_def shm_cfg_name_size_def slot_pipeline_cfg_def k(1) take_all_iff)
  have ran: "validate_against_ran (radio c) (nof_ports (radio c)) (cfg_nof_symbols ?m) (ucast (cfg_nof_subcarriers ?m)) = None"
    using unat_cfg_subcarriers[OF ok(1)] validate_sizes(1)[OF ok(1)]
    by (simp add: validate_against_ran_def cfg shm_cfg_of_def rad word_unat_eq_iff)
  have inside: "dapp_offset (w_header w) b r + unat (rg_row_bytes hg) \<le> unat (size_bytes (shm c))"
    if "b < 2" "r < unat (h_num_fh_rows (w_header w))" for b r
    using dapp_row_inside[OF wok that(1)] that(2) by (simp add: hdr row k(5))
  have small: "cfg_scale ?m = w_cbf16_scale w" "l_geom ?l = radio c" "\<not> writes_rows w"
    by (simp_all add: cfg shm_cfg_of_def slot_pipeline_cfg_def k E3SMLayer1_def writes_rows_def assms(2))
  show ?thesis
    unfolding Let_def
    by (intro exI[of _ ?l] exI[of _ ?p] conjI init cfg(2))
      (use wok row hdr name ran inside small k(1) in \<open>simp_all add: hg_def[symmetric]\<close>)
qed

text \<open>The shipped defaults with the gNB as writer.\<close>

theorem loaded_config_coherent_witness:
  "\<exists>l p. l1_init demo_ext True True True (E3SMLayer1 sample_config) (SlotIqPipeline (slot_pipeline_cfg sample_config))
      = Some (SUCCESS, l, p) \<and> cfg_name (shm_cfg_of (sp_config p)) = w_shm_name (l_shm_writer l)
      \<and> unat (w_row_bytes (l_shm_writer l)) = 366912"
proof -
  have g: "row_bytes (radio sample_config) = 366912" "writer (shm sample_config) = Gnb"
    "shm_name (shm sample_config) = ''/e3_ran_buffers''" "unat (size_bytes (shm sample_config)) < 2 ^ 33"
    by (simp_all add: sample_config_def default_ControllerConfig_def default_RadioGeometry_def row_bytes_def num_fh_samples_def
        u16_per_ant_def nof_subcarriers_def kScPerPrb_def)
  let ?p0 = "SlotIqPipeline (slot_pipeline_cfg sample_config) :: l1_sm option slot_pipeline"
  obtain l p where i: "l1_init demo_ext True True True (E3SMLayer1 sample_config) ?p0 = Some (SUCCESS, l, p)"
    and m: "w_shm_name (l_shm_writer l) = ''/e3_ran_buffers''" "shm_ok (l_shm_writer l)"
      "cfg_name (shm_cfg_of (sp_config p)) = w_shm_name (l_shm_writer l) \<longleftrightarrow> length (w_shm_name (l_shm_writer l)) < 64"
    using loaded_config_coherent[OF sample_loads g(2,4) refl, of demo_ext] g(3) by (auto simp: Let_def)
  have "w_row_bytes (l_shm_writer l) = 366912"
    using i m(2) g(1) open_keeps(2) by (auto simp: l1_init_def E3SMLayer1_def shm_ok_def split: option.splits prod.splits bool.splits)
  then show ?thesis using i m by auto
qed

end
